(* ===== verification/Prelude.thy ===== *)
theory Prelude
  imports Main "HOL-Library.Word"
begin

text \<open>
  Shared vocabulary of the development: machine integer types, nullable pointers, the
  first-match scan that every table of the gateway uses, little-endian byte encodings, and
  the collections of rewrite rules that the component theories extend.
  The indices of the fixed-size C++ arrays are \<open>nat\<close> (each loop of the sources runs over a
  constant bound of at most 256); every stored integer keeps its width as a word.
\<close>

unbundle bit_operations_syntax

type_synonym u8 = "8 word"
type_synonym u16 = "16 word"
type_synonym u32 = "32 word"
type_synonym u64 = "64 word"

named_theorems ring_simps \<open>index arithmetic of the ring buffers\<close>
named_theorems enum_simps \<open>numeric values of the C++ enumerations\<close>

section \<open>Scanning a table from slot 0\<close>

text \<open>
  \<open>for (i = 0; i < n; ++i) if (P(i)) return i;\<close>
\<close>

definition first_index :: "(nat \<Rightarrow> bool) \<Rightarrow> nat \<Rightarrow> nat option" where
  "first_index P n = List.find P [0..<n]"

lemma first_index_0 [simp]: "first_index P 0 = None"
  by (simp add: first_index_def)

lemma find_append:
  "List.find P (xs @ ys) = (case List.find P xs of None \<Rightarrow> List.find P ys | Some x \<Rightarrow> Some x)"
  by (induction xs) auto

lemma first_index_Suc:
  "first_index P (Suc n) =
     (case first_index P n of Some i \<Rightarrow> Some i | None \<Rightarrow> if P n then Some n else None)"
  by (simp add: first_index_def find_append split: option.split)

lemma first_index_None_iff: "first_index P n = None \<longleftrightarrow> (\<forall>i<n. \<not> P i)"
  by (induction n) (auto simp: first_index_Suc less_Suc_eq split: option.split)

lemma first_index_Some_iff:
  "first_index P n = Some i \<longleftrightarrow> i < n \<and> P i \<and> (\<forall>j<i. \<not> P j)"
proof (induction n)
  case 0
  then show ?case by simp
next
  case (Suc n)
  show ?case
  proof (cases "first_index P n")
    case None
    then have "\<forall>j<n. \<not> P j" by (simp add: first_index_None_iff)
    with None show ?thesis
      by (auto simp: first_index_Suc less_Suc_eq)
  next
    case (Some k)
    then have k: "k < n" "P k" "\<And>j. j < k \<Longrightarrow> \<not> P j"
      by (auto simp: first_index_def find_Some_iff)
    have "k = i \<longleftrightarrow> i < Suc n \<and> P i \<and> (\<forall>j<i. \<not> P j)"
      using k by (metis less_Suc_eq nat_neq_iff)
    with Some show ?thesis
      by (simp add: first_index_Suc)
  qed
qed

lemma first_index_SomeD:
  assumes "first_index P n = Some i"
  shows "i < n" "P i" "\<And>j. j < i \<Longrightarrow> \<not> P j"
  using assms by (auto simp: first_index_Some_iff)

lemma first_index_cong:
  assumes "\<And>i. i < n \<Longrightarrow> P i = Q i"
  shows "first_index P n = first_index Q n"
  using assms by (induction n) (auto simp: first_index_Suc split: option.split)

lemma first_index_unique:
  assumes "i < n" "P i" "\<And>j. j < n \<Longrightarrow> P j \<Longrightarrow> j = i"
  shows "first_index P n = Some i"
  using assms unfolding first_index_Some_iff by (metis less_trans nat_neq_iff)

section \<open>Machine arithmetic\<close>

lemma unat_u8_less [simp]: "unat (x :: u8) < 256"
  using unsigned_less [of x, where 'a = nat] by simp

lemma unat_u8_le [simp]: "unat (x :: u8) \<le> 255"
  using unat_u8_less [of x] by linarith

lemma unat_u16_less [simp]: "unat (x :: u16) < 65536"
  using unsigned_less [of x, where 'a = nat] by simp

lemma unat_u32_less: "unat (x :: u32) < 2 ^ 32"
  using unsigned_less [of x, where 'a = nat] by simp

lemma unat_u64_less: "unat (x :: u64) < 2 ^ 64"
  using unsigned_less [of x, where 'a = nat] by simp

lemma unat_inc: "unat w + 1 < 2 ^ LENGTH('a) \<Longrightarrow> unat (w + 1 :: 'a::len word) = unat w + 1"
  by (simp add: unat_word_ariths)

lemma unat_diff_le: "a \<le> b \<Longrightarrow> unat (b - a :: 'a::len word) = unat b - unat a"
  by (simp add: unat_sub)

lemma unat_ucast_u8_u32 [simp]: "unat (ucast (x :: u8) :: u32) = unat x"
proof -
  have "unat x < 2 ^ 32" by (rule less_trans [OF unat_u8_less]) simp
  then show ?thesis by (simp add: unsigned_ucast_eq take_bit_nat_eq_self)
qed

lemma unat_ucast_u32_u8: "unat (w :: u32) < 256 \<Longrightarrow> unat (ucast w :: u8) = unat w"
  by (simp add: unsigned_ucast_eq take_bit_nat_eq_self)

lemma ucast_u8_u16_inj: "(ucast (a :: u8) :: u16) = ucast b \<longleftrightarrow> a = b"
proof
  assume eq: "(ucast a :: u16) = ucast b"
  show "a = b"
  proof (rule bit_word_eqI)
    fix n
    assume "n < LENGTH(8)"
    then have "bit a n = bit (ucast a :: u16) n" "bit b n = bit (ucast b :: u16) n"
      by (simp_all add: bit_unsigned_iff)
    with eq show "bit a n = bit b n" by simp
  qed
qed simp

section \<open>Exclusive or\<close>

lemma xor_eq_0_iff: "(x :: 'a::len word) XOR y = 0 \<longleftrightarrow> x = y"
  by (auto simp: bit_eq_iff bit_xor_iff)

lemma xor_cancel_right: "(x :: 'a::len word) XOR z = y XOR z \<longleftrightarrow> x = y"
  by (auto simp: bit_eq_iff bit_xor_iff)

lemma xor_exchange: "(a :: 'a::len word) XOR b = c XOR d \<longleftrightarrow> a XOR c = b XOR d"
  by (simp add: bit_eq_iff bit_xor_iff) blast

lemma xor_common_left: "(z XOR x) XOR (z XOR y) = (x :: 'a::len word) XOR y"
  by (auto simp: bit_eq_iff bit_xor_iff)

section \<open>Little-endian bytes\<close>

text \<open>
  The byte image of a multi-byte integer in memory (both cores are little-endian), and the
  shift-and-or expressions with which the sources read and write such integers.
\<close>

definition le16 :: "u16 \<Rightarrow> u8 list" where
  "le16 w = [ucast w, ucast (drop_bit 8 w)]"

definition le32 :: "u32 \<Rightarrow> u8 list" where
  "le32 w = [ucast w, ucast (drop_bit 8 w), ucast (drop_bit 16 w), ucast (drop_bit 24 w)]"

definition read_le16 :: "u8 \<Rightarrow> u8 \<Rightarrow> u16" where
  "read_le16 b0 b1 = ucast b0 OR push_bit 8 (ucast b1)"

definition read_le32 :: "u8 \<Rightarrow> u8 \<Rightarrow> u8 \<Rightarrow> u8 \<Rightarrow> u32" where
  "read_le32 b0 b1 b2 b3 =
     ucast b0 OR push_bit 8 (ucast b1) OR push_bit 16 (ucast b2) OR push_bit 24 (ucast b3)"

lemma length_le16 [simp]: "length (le16 w) = 2"
  by (simp add: le16_def)

lemma length_le32 [simp]: "length (le32 w) = 4"
  by (simp add: le32_def)

lemma read_le16_le16:
  "read_le16 (ucast w) (ucast (drop_bit 8 w)) = w"
  unfolding read_le16_def
  by (rule bit_word_eqI) (auto simp: bit_simps)

lemma read_le32_le32:
  "read_le32 (ucast w) (ucast (drop_bit 8 w)) (ucast (drop_bit 16 w)) (ucast (drop_bit 24 w)) = w"
proof (rule bit_word_eqI)
  fix n
  assume "n < LENGTH(32)"
  then consider "n < 8" | "8 \<le> n \<and> n < 16" | "16 \<le> n \<and> n < 24" | "24 \<le> n \<and> n < 32"
    by fastforce
  then show "bit (read_le32 (ucast w) (ucast (drop_bit 8 w)) (ucast (drop_bit 16 w))
      (ucast (drop_bit 24 w))) n = bit w n"
    by cases (auto simp: read_le32_def bit_simps)
qed

lemma le16_inj: "le16 v = le16 w \<longleftrightarrow> v = w"
  by (metis le16_def list.inject read_le16_le16)

lemma le32_inj: "le32 v = le32 w \<longleftrightarrow> v = w"
proof
  assume eq: "le32 v = le32 w"
  have "v = read_le32 (le32 v ! 0) (le32 v ! 1) (le32 v ! 2) (le32 v ! 3)"
    by (simp add: le32_def read_le32_le32)
  also have "\<dots> = read_le32 (le32 w ! 0) (le32 w ! 1) (le32 w ! 2) (le32 w ! 3)"
    by (simp only: eq)
  also have "\<dots> = w"
    by (simp add: le32_def read_le32_le32)
  finally show "v = w" .
qed simp

text \<open>\<open>static_cast<uint8_t>((w >> k) & 0xFF)\<close> is the truncation of the shifted word.\<close>

lemma ucast_and_FF [simp]: "(ucast (w AND 0xFF) :: u8) = ucast (w :: u32)"
proof -
  have "(0xFF :: u32) = mask 8" by (simp add: mask_eq_exp_minus_1)
  then show ?thesis
    by (simp add: bit_eq_iff bit_simps)
qed

section \<open>Block copies\<close>

text \<open>\<open>std::memset(p, v, n)\<close> over a whole array, and \<open>std::memcpy(dst, src, n)\<close>.\<close>

definition memset :: "nat \<Rightarrow> u8 \<Rightarrow> u8 list" where
  "memset n v = replicate n v"

definition memcpy :: "u8 list \<Rightarrow> u8 list \<Rightarrow> nat \<Rightarrow> u8 list" where
  "memcpy dst src n = take n src @ drop n dst"

lemma length_memset [simp]: "length (memset n v) = n"
  by (simp add: memset_def)

lemma length_memcpy [simp]: "n \<le> length src \<Longrightarrow> n \<le> length dst \<Longrightarrow> length (memcpy dst src n) = length dst"
  by (simp add: memcpy_def)

lemma memcpy_0 [simp]: "memcpy dst src 0 = dst"
  by (simp add: memcpy_def)

lemma memcpy_nth:
  "n \<le> length src \<Longrightarrow> n \<le> length dst \<Longrightarrow> i < length dst \<Longrightarrow>
    memcpy dst src n ! i = (if i < n then src ! i else dst ! i)"
  by (simp add: memcpy_def nth_append)

section \<open>Sequences of calls\<close>

text \<open>The results of calling operations one after the other, and the state they leave.\<close>

fun call_all :: "('s \<Rightarrow> 'r \<times> 's) list \<Rightarrow> 's \<Rightarrow> 'r list \<times> 's" where
  "call_all [] s = ([], s)"
| "call_all (f # fs) s = (let (r, s1) = f s; (rs, s2) = call_all fs s1 in (r # rs, s2))"

lemma call_all_Cons [simp]:
  "fst (call_all (f # fs) s) = fst (f s) # fst (call_all fs (snd (f s)))"
  "snd (call_all (f # fs) s) = snd (call_all fs (snd (f s)))"
  by (simp_all add: split_beta)

lemma call_all_append:
  "fst (call_all (fs @ gs) s) = fst (call_all fs s) @ fst (call_all gs (snd (call_all fs s)))"
  "snd (call_all (fs @ gs) s) = snd (call_all gs (snd (call_all fs s)))"
  by (induction fs arbitrary: s) (simp_all del: call_all.simps(2))

declare call_all.simps(2) [simp del]

end
