(* ===== verification/Simulation.thy ===== *)
theory Simulation
  imports Prelude
begin

text \<open>
  Forward simulation between step relations. Each step of the detailed relation is matched by a
  run, possibly empty, of the abstract one, and related states look the same from outside. What
  every abstract run shows then holds of every detailed run.
\<close>

locale forward_simulation =
  fixes dstep :: "'d \<Rightarrow> 'd \<Rightarrow> bool"
    and astep :: "'a \<Rightarrow> 'a \<Rightarrow> bool"
    and related :: "'d \<Rightarrow> 'a \<Rightarrow> bool"
    and dview :: "'d \<Rightarrow> 'v"
    and aview :: "'a \<Rightarrow> 'v"
  assumes matched: "related d a \<Longrightarrow> dstep d d' \<Longrightarrow> \<exists>a'. astep\<^sup>*\<^sup>* a a' \<and> related d' a'"
    and same_view: "related d a \<Longrightarrow> dview d = aview a"
begin

lemma matched_run:
  "dstep\<^sup>*\<^sup>* d d' \<Longrightarrow> related d a \<Longrightarrow> \<exists>a'. astep\<^sup>*\<^sup>* a a' \<and> related d' a'"
proof (induction rule: rtranclp_induct)
  case (step d1 d2)
  then obtain a1 where a1: "astep\<^sup>*\<^sup>* a a1" "related d1 a1" by blast
  then obtain a2 where "astep\<^sup>*\<^sup>* a1 a2" "related d2 a2"
    using matched [OF a1(2) step.hyps(2)] by blast
  with a1(1) show ?case by (blast intro: rtranclp_trans)
qed blast

lemma view_of_run:
  "dstep\<^sup>*\<^sup>* d d' \<Longrightarrow> related d a \<Longrightarrow> \<exists>a'. astep\<^sup>*\<^sup>* a a' \<and> aview a' = dview d'"
  using matched_run same_view by metis

lemma view_invariant:
  assumes "dstep\<^sup>*\<^sup>* d d'" "related d a" "\<And>a'. astep\<^sup>*\<^sup>* a a' \<Longrightarrow> P (aview a')"
  shows "P (dview d')"
  using view_of_run [OF assms(1,2)] assms(3) by metis

end

text \<open>
  A step relation whose steps lower a measure, and that is never stuck before its end: every run
  from a state ends within the measure of that state, and can be continued to its end.
\<close>

locale bounded_run =
  fixes step :: "'d \<Rightarrow> 'd \<Rightarrow> bool"
    and ended :: "'d \<Rightarrow> bool"
    and inv :: "'d \<Rightarrow> bool"
    and left :: "'d \<Rightarrow> nat"
  assumes lowers: "step d d' \<Longrightarrow> left d' < left d"
    and enabled: "inv d \<Longrightarrow> \<not> ended d \<Longrightarrow> \<exists>d'. step d d'"
    and inv_step: "inv d \<Longrightarrow> step d d' \<Longrightarrow> inv d'"
begin

lemma run_length: "(step ^^ n) d d' \<Longrightarrow> n + left d' \<le> left d"
proof (induction n arbitrary: d')
  case (Suc n)
  then obtain d1 where "(step ^^ n) d d1" "step d1 d'" by auto
  then show ?case using Suc.IH [of d1] lowers [of d1 d'] by simp
qed simp

lemma run_ends: "inv d \<Longrightarrow> \<exists>d'. step\<^sup>*\<^sup>* d d' \<and> ended d'"
proof (induction "left d" arbitrary: d rule: less_induct)
  case less
  show ?case
  proof (cases "ended d")
    case False
    then obtain d1 where d1: "step d d1" using enabled less.prems by blast
    then obtain d' where "step\<^sup>*\<^sup>* d1 d'" "ended d'"
      using less.hyps [of d1] lowers inv_step less.prems by blast
    with d1 show ?thesis by (blast intro: converse_rtranclp_into_rtranclp)
  qed blast
qed

end

end
