(* ===== verification/SoaTypes.thy ===== *)
theory SoaTypes
  imports Prelude
begin

text \<open>
  The types of \<open>include/SoaServiceManager.hpp\<close> that every component shares: the error codes,
  \<open>Result<T>\<close>, the service descriptors and the event frame; and the millisecond clock that
  five of the components read. A C++ function pointer or object pointer is an \<open>option\<close>
  value, \<open>None\<close> being \<open>nullptr\<close>.
\<close>

section \<open>Error codes and results\<close>

datatype ErrorCode =
    kOk | kNullPointer | kRegistryFull | kServiceNotFound | kSubscriberFull | kQueueFull
  | kUnauthorized | kInvalidArgument | kE2eViolation | kIpcBufferFull | kAlreadyRegistered
  | kNotInitialized | kChecksumMismatch | kSequenceError | kTimeout | kUnknown

text \<open>
  \<open>Result<T>\<close>: the two factory functions are the constructors; the public fields \<open>ok\<close> and
  \<open>error\<close> are read off them.
\<close>

datatype 'a Result = Ok 'a | Err ErrorCode

type_synonym VoidResult = "unit Result"

fun res_ok :: "'a Result \<Rightarrow> bool" where
  "res_ok (Ok v) = True"
| "res_ok (Err e) = False"

fun res_error :: "'a Result \<Rightarrow> ErrorCode" where
  "res_error (Ok v) = kOk"
| "res_error (Err e) = e"

lemma res_ok_iff [simp]: "res_ok (r :: VoidResult) \<longleftrightarrow> r = Ok ()"
  by (cases r) auto

section \<open>Services and events\<close>

definition kMaxServices :: nat where [simp]: "kMaxServices = 32"
definition kMaxSubscribers :: nat where [simp]: "kMaxSubscribers = 16"
definition kMaxPendingEvents :: nat where [simp]: "kMaxPendingEvents = 64"
definition kInvalidServiceId :: u16 where [simp]: "kInvalidServiceId = 0xFFFF"
definition kMaxPayloadBytes :: nat where [simp]: "kMaxPayloadBytes = 256"

datatype ServiceState = kDown | kRequested | kAvailable | kStopping

record ServiceDescriptor =
  sd_serviceId :: u16
  sd_instanceId :: u16
  sd_majorVersion :: u8
  sd_minorVersion :: u8
  sd_state :: ServiceState
  sd_name :: "u8 list"

definition ServiceDescriptor_default :: ServiceDescriptor where
  "ServiceDescriptor_default =
     \<lparr>sd_serviceId = kInvalidServiceId, sd_instanceId = 0, sd_majorVersion = 0,
      sd_minorVersion = 0, sd_state = kDown, sd_name = replicate 32 0\<rparr>"

record SoaEvent =
  ev_serviceId :: u16
  ev_eventId :: u16
  ev_sessionId :: u32
  ev_payloadLen :: u8
  ev_payload :: "u8 list"

definition SoaEvent_default :: SoaEvent where
  "SoaEvent_default =
     \<lparr>ev_serviceId = kInvalidServiceId, ev_eventId = 0, ev_sessionId = 0, ev_payloadLen = 0,
      ev_payload = replicate kMaxPayloadBytes 0\<rparr>"

text \<open>The payload member is an array of \<open>kMaxPayloadBytes\<close> bytes in every event.\<close>

definition event_wf :: "SoaEvent \<Rightarrow> bool" where
  "event_wf e \<longleftrightarrow> length (ev_payload e) = kMaxPayloadBytes"

lemma event_wf_default [simp]: "event_wf SoaEvent_default"
  by (simp add: event_wf_def SoaEvent_default_def)

record 'h SubscriberEntry =
  sub_serviceId :: u16
  sub_eventId :: u16
  sub_handler :: "'h option"

definition SubscriberEntry_default :: "'h SubscriberEntry" where
  "SubscriberEntry_default =
     \<lparr>sub_serviceId = kInvalidServiceId, sub_eventId = 0, sub_handler = None\<rparr>"

section \<open>The monotonic clock\<close>

text \<open>
  \<open>clock_gettime(CLOCK_MONOTONIC, &ts)\<close> is the operating system's: \<open>None\<close> is a non-zero
  return code, \<open>Some ts\<close> the time read. Each component has its own copy of
  \<open>GetMonotonicMs\<close>; the operations of the components take the values it returned, in the
  order of the calls.
\<close>

record timespec =
  tv_sec :: u64
  tv_nsec :: u64

definition GetMonotonicMs :: "timespec option \<Rightarrow> u64" where
  "GetMonotonicMs r =
     (case r of None \<Rightarrow> 0 | Some ts \<Rightarrow> tv_sec ts * 1000 + tv_nsec ts div 1000000)"

definition GetMonotonicNs :: "timespec option \<Rightarrow> u64" where
  "GetMonotonicNs r =
     (case r of None \<Rightarrow> 0 | Some ts \<Rightarrow> tv_sec ts * 1000000000 + tv_nsec ts)"

lemma GetMonotonicMs_fail [simp]: "GetMonotonicMs None = 0"
  by (simp add: GetMonotonicMs_def)

lemma unat_GetMonotonicMs:
  assumes "unat (tv_sec ts) < 2 ^ 50" "unat (tv_nsec ts) < 10 ^ 9"
  shows "unat (GetMonotonicMs (Some ts)) = unat (tv_sec ts) * 1000 + unat (tv_nsec ts) div 10 ^ 6"
proof -
  have d: "unat (tv_nsec ts div 1000000) = unat (tv_nsec ts) div 10 ^ 6"
    by (simp add: unat_div)
  have m: "unat (tv_sec ts * 1000) = unat (tv_sec ts) * 1000"
    using assms(1) by (simp add: unat_word_ariths)
  have "unat (tv_sec ts) * 1000 + unat (tv_nsec ts) div 10 ^ 6 < 2 ^ 64"
    using assms by simp
  then show ?thesis
    by (simp add: GetMonotonicMs_def unat_word_ariths(1) d m del: unat_div)
qed

text \<open>Later times of a well-formed clock never read as an earlier millisecond count.\<close>

lemma GetMonotonicMs_mono:
  assumes "unat (tv_sec t1) < 2 ^ 50" "unat (tv_nsec t1) < 10 ^ 9"
    and "unat (tv_sec t2) < 2 ^ 50" "unat (tv_nsec t2) < 10 ^ 9"
    and le: "unat (tv_sec t1) * 10 ^ 9 + unat (tv_nsec t1)
             \<le> unat (tv_sec t2) * 10 ^ 9 + unat (tv_nsec t2)"
  shows "GetMonotonicMs (Some t1) \<le> GetMonotonicMs (Some t2)"
proof -
  have split: "(s * 10 ^ 9 + n) div 10 ^ 6 = s * 1000 + n div 10 ^ 6" for s n :: nat
    by simp
  have "(unat (tv_sec t1) * 10 ^ 9 + unat (tv_nsec t1)) div 10 ^ 6
      \<le> (unat (tv_sec t2) * 10 ^ 9 + unat (tv_nsec t2)) div 10 ^ 6"
    using le by (rule div_le_mono)
  then show ?thesis
    unfolding word_le_nat_alt split
    by (simp only: unat_GetMonotonicMs assms)
qed

end
