(* ===== verification/Crc.thy ===== *)
theory Crc
  imports Prelude
begin

text \<open>
  The CRC-16 of \<open>src/IpcBridge.cpp\<close>: the table generator, the table, and the table-driven
  loop \<open>ComputeE2eCrc\<close>; a bit-serial reference; and the error-detection facts the E2E
  protection rests on. The register step is linear and injective, so the register determines
  any window of two adjacent bytes once the rest of the message is fixed.
\<close>

section \<open>The table and the loop\<close>

definition crc_bit_step :: "u16 \<Rightarrow> u16" where
  "crc_bit_step crc =
     (if crc AND 0x0001 \<noteq> 0 then drop_bit 1 crc XOR 0x8005 else drop_bit 1 crc)"

definition GenerateCrcEntry :: "u8 \<Rightarrow> u16" where
  "GenerateCrcEntry idx = (crc_bit_step ^^ 8) (ucast idx)"

definition MakeCrcTable :: "u16 list" where
  "MakeCrcTable = map (\<lambda>i. GenerateCrcEntry (word_of_nat i)) [0..<256]"

definition crc_byte :: "u16 \<Rightarrow> u8 \<Rightarrow> u16" where
  "crc_byte crc b =
     (let tableIdx = (ucast (crc XOR ucast b) :: u8)
      in drop_bit 8 crc XOR MakeCrcTable ! unat tableIdx)"

fun crc_loop :: "u16 \<Rightarrow> u8 list \<Rightarrow> u16" where
  "crc_loop crc [] = crc"
| "crc_loop crc (b # bs) = crc_loop (crc_byte crc b) bs"

text \<open>
  \<open>data\<close> is a pointer to a buffer of at least \<open>len\<close> bytes; the loop reads the first
  \<open>len\<close> of them.
\<close>

definition ComputeE2eCrc :: "u8 list option \<Rightarrow> u16 \<Rightarrow> u16" where
  "ComputeE2eCrc data len =
     (case data of None \<Rightarrow> 0 | Some bs \<Rightarrow> crc_loop 0x0000 (take (unat len) bs))"

section \<open>The bit step is linear and injective\<close>

lemma crc_bit_step_alt:
  "crc_bit_step x = drop_bit 1 x XOR (if bit x 0 then 0x8005 else 0)"
  by (simp add: crc_bit_step_def and_one_eq odd_iff_mod_2_eq_one bit_0)

lemma crc_bit_step_0 [simp]: "crc_bit_step 0 = 0"
  by (simp add: crc_bit_step_alt)

lemma crc_bit_step_xor: "crc_bit_step (x XOR y) = crc_bit_step x XOR crc_bit_step y"
  by (auto simp: crc_bit_step_alt bit_xor_iff ac_simps)

lemma bit15_crc_bit_step: "bit (crc_bit_step x) 15 \<longleftrightarrow> bit x 0"
proof -
  have "\<not> bit (drop_bit 1 x) 15"
    using bit_imp_le_length [of x 16] by (auto simp: bit_drop_bit_eq)
  then show ?thesis
    by (simp add: crc_bit_step_alt bit_xor_iff)
qed

lemma crc_bit_step_eq_0 [simp]: "crc_bit_step x = 0 \<longleftrightarrow> x = 0"
proof
  assume z: "crc_bit_step x = 0"
  then have b0: "\<not> bit x 0" using bit15_crc_bit_step [of x] by simp
  with z have d: "drop_bit 1 x = 0" by (simp add: crc_bit_step_alt)
  show "x = 0"
  proof (rule bit_word_eqI)
    fix n
    assume "n < LENGTH(16)"
    show "bit x n = bit (0 :: u16) n"
    proof (cases n)
      case 0
      with b0 show ?thesis by simp
    next
      case (Suc m)
      have "bit (drop_bit 1 x) m = False" using d by simp
      with Suc show ?thesis by (simp add: bit_drop_bit_eq)
    qed
  qed
qed simp

text \<open>Eight bit steps: the register after one zero byte.\<close>

definition crc_step8 :: "u16 \<Rightarrow> u16" where
  "crc_step8 x = (crc_bit_step ^^ 8) x"

lemma crc_steps_xor:
  "(crc_bit_step ^^ n) (x XOR y) = (crc_bit_step ^^ n) x XOR (crc_bit_step ^^ n) y"
  by (induction n) (simp_all add: crc_bit_step_xor)

lemma crc_steps_eq_0: "(crc_bit_step ^^ n) x = 0 \<longleftrightarrow> x = 0"
  by (induction n) simp_all

lemma crc_step8_xor: "crc_step8 (x XOR y) = crc_step8 x XOR crc_step8 y"
  by (simp add: crc_step8_def crc_steps_xor)

lemma crc_step8_eq_0 [simp]: "crc_step8 x = 0 \<longleftrightarrow> x = 0"
  by (simp add: crc_step8_def crc_steps_eq_0)

lemma crc_step8_inj: "crc_step8 x = crc_step8 y \<longleftrightarrow> x = y"
  by (metis crc_step8_eq_0 crc_step8_xor xor_eq_0_iff)

lemma crc_steps_shift: "n \<le> 8 \<Longrightarrow> (crc_bit_step ^^ n) (push_bit 8 (ucast (h :: u8))) = push_bit (8 - n) (ucast h)"
proof (induction n)
  case 0
  then show ?case by simp
next
  case (Suc n)
  then have low: "\<not> bit (push_bit (8 - n) (ucast h :: u16)) 0"
    by (simp add: bit_push_bit_iff)
  have "drop_bit 1 (push_bit (8 - n) (ucast h :: u16)) = push_bit (8 - Suc n) (ucast h)"
    using Suc.prems
    by (intro bit_word_eqI)
      (auto simp: bit_push_bit_iff bit_drop_bit_eq bit_unsigned_iff dest: bit_imp_le_length)
  with Suc low show ?case
    by (simp add: crc_bit_step_alt)
qed

lemma crc_step8_high: "crc_step8 (push_bit 8 (ucast (h :: u8))) = ucast h"
  using crc_steps_shift [of 8 h] by (simp add: crc_step8_def)

section \<open>The table-driven byte step is the bit-serial one\<close>

lemma MakeCrcTable_nth: "MakeCrcTable ! unat (i :: u8) = GenerateCrcEntry i"
  by (simp add: MakeCrcTable_def)

lemma word16_split: "(v :: u16) = ucast (ucast v :: u8) XOR push_bit 8 (ucast (ucast (drop_bit 8 v) :: u8))"
  by (rule bit_word_eqI) (auto simp: bit_simps)

lemma drop_bit_8_xor_byte: "drop_bit 8 (c XOR ucast (b :: u8)) = drop_bit 8 (c :: u16)"
  by (rule bit_word_eqI) (auto simp: bit_simps dest: bit_imp_le_length)

theorem crc_byte_serial: "crc_byte crc b = crc_step8 (crc XOR ucast b)"
proof -
  let ?v = "crc XOR ucast b"
  have hi: "ucast (ucast (drop_bit 8 ?v) :: u8) = drop_bit 8 crc"
    unfolding drop_bit_8_xor_byte
    by (rule bit_word_eqI) (auto simp: bit_simps dest: bit_imp_le_length)
  have "crc_step8 ?v = crc_step8 (ucast (ucast ?v :: u8)) XOR
      crc_step8 (push_bit 8 (ucast (ucast (drop_bit 8 ?v) :: u8)))"
    by (metis word16_split crc_step8_xor)
  also have "\<dots> = crc_step8 (ucast (ucast ?v :: u8)) XOR drop_bit 8 crc"
    unfolding crc_step8_high by (simp only: hi)
  also have "\<dots> = GenerateCrcEntry (ucast ?v) XOR drop_bit 8 crc"
    by (simp add: crc_step8_def GenerateCrcEntry_def)
  finally show ?thesis
    by (simp add: crc_byte_def MakeCrcTable_nth xor.commute)
qed


text \<open>
  The serial reference: a 16-bit shift register fed with one message bit at a time, the least
  significant bit of each byte first.
\<close>

definition crc_feed :: "bool \<Rightarrow> u16 \<Rightarrow> u16" where
  "crc_feed m crc = crc_bit_step (crc XOR of_bool m)"

definition byte_bits :: "u8 \<Rightarrow> bool list" where
  "byte_bits b = map (bit b) [0..<8]"

definition crc_serial :: "u16 \<Rightarrow> u8 list \<Rightarrow> u16" where
  "crc_serial crc bs = fold crc_feed (concat (map byte_bits bs)) crc"

lemma crc_bit_step_push: "crc_bit_step (push_bit 1 (ucast (b :: u8))) = ucast b"
proof -
  have "\<not> bit (push_bit 1 (ucast b :: u16)) 0" unfolding bit_push_bit_iff by simp
  moreover have "drop_bit 1 (push_bit 1 (ucast b :: u16)) = ucast b"
    by (rule bit_word_eqI, unfold bit_drop_bit_eq o_apply bit_push_bit_iff)
      (auto simp: bit_simps dest: bit_imp_le_length)
  ultimately show ?thesis by (simp only: crc_bit_step_alt) simp
qed

lemma drop_bit_split:
  "(ucast (drop_bit n (b :: u8)) :: u16) = of_bool (bit b n) XOR push_bit 1 (ucast (drop_bit (Suc n) b))"
proof (rule bit_word_eqI)
  fix m
  show "bit (ucast (drop_bit n b) :: u16) m \<longleftrightarrow>
      bit (of_bool (bit b n) XOR push_bit 1 (ucast (drop_bit (Suc n) b)) :: u16) m" if "m < LENGTH(16)"
    unfolding bit_xor_iff bit_push_bit_iff
    using that by (cases m) (auto simp: bit_simps dest: bit_imp_le_length)
qed

lemma crc_feed_bits:
  "(crc_bit_step ^^ n) (c XOR ucast (b :: u8)) = fold crc_feed (map (bit b) [0..<n]) c XOR ucast (drop_bit n b)"
proof (induction n)
  case (Suc n)
  let ?f = "fold crc_feed (map (bit b) [0..<n]) c"
  have "(crc_bit_step ^^ Suc n) (c XOR ucast b)
      = crc_bit_step ((?f XOR of_bool (bit b n)) XOR push_bit 1 (ucast (drop_bit (Suc n) b)))"
    by (simp only: funpow.simps o_apply Suc.IH) (subst drop_bit_split [of n b], simp only: xor.assoc)
  also have "\<dots> = crc_feed (bit b n) ?f XOR ucast (drop_bit (Suc n) b)"
    by (simp only: crc_bit_step_xor crc_bit_step_push crc_feed_def)
  finally show ?case by simp
qed simp

lemma crc_byte_feed: "crc_byte c b = fold crc_feed (byte_bits b) c"
proof -
  have "drop_bit 8 b = 0" by (rule bit_word_eqI) (auto simp: bit_drop_bit_eq dest: bit_imp_le_length)
  then show ?thesis
    using crc_feed_bits [of 8 c b] by (simp add: crc_byte_serial crc_step8_def byte_bits_def)
qed

lemma crc_loop_serial: "crc_loop c bs = crc_serial c bs"
  by (induction bs arbitrary: c) (simp_all add: crc_serial_def crc_byte_feed)

section \<open>Error detection\<close>

lemma crc_byte_inj: "crc_byte c b = crc_byte d b \<longleftrightarrow> c = d"
  by (simp add: crc_byte_serial crc_step8_inj xor_cancel_right)

lemma crc_loop_append: "crc_loop c (xs @ ys) = crc_loop (crc_loop c xs) ys"
  by (induction xs arbitrary: c) auto

lemma crc_loop_inj: "crc_loop c bs = crc_loop d bs \<longleftrightarrow> c = d"
  by (induction bs arbitrary: c d) (auto simp: crc_byte_inj)

lemma crc_step8_byte_small:
  assumes "crc_step8 (ucast (a :: u8)) = ucast (b :: u8)"
  shows "a = 0 \<and> b = 0"
proof -
  have "crc_step8 (push_bit 8 (ucast b)) = crc_step8 (ucast a)"
    using assms by (simp add: crc_step8_high)
  then have eq: "push_bit 8 (ucast b :: u16) = ucast a"
    by (simp add: crc_step8_inj)
  have "a = 0"
  proof (rule bit_word_eqI)
    fix n
    assume "n < LENGTH(8)"
    then have "bit a n = bit (ucast a :: u16) n" by (simp add: bit_unsigned_iff)
    also have "\<dots> = bit (push_bit 8 (ucast b :: u16)) n" by (simp only: eq)
    also have "\<dots> = False" using \<open>n < LENGTH(8)\<close> by (simp add: bit_push_bit_iff)
    finally show "bit a n = bit (0 :: u8) n" by simp
  qed
  moreover from this have "push_bit 8 (ucast b :: u16) = push_bit 8 (ucast (0 :: u8))"
    using eq by simp
  then have "crc_step8 (push_bit 8 (ucast b)) = crc_step8 (push_bit 8 (ucast (0 :: u8)))"
    by (simp only:)
  then have "(ucast b :: u16) = ucast (0 :: u8)"
    by (simp only: crc_step8_high)
  then have "b = 0"
    by (simp only: ucast_u8_u16_inj)
  ultimately show ?thesis ..
qed

lemma crc_two_bytes:
  assumes "crc_loop c [x0, x1] = crc_loop c [y0, y1]"
  shows "x0 = y0 \<and> x1 = y1"
proof -
  have "crc_step8 (c XOR ucast x0) XOR ucast x1 = crc_step8 (c XOR ucast y0) XOR ucast y1"
    using assms by (simp add: crc_byte_serial crc_step8_inj)
  then have "crc_step8 ((c XOR ucast x0) XOR (c XOR ucast y0)) = ucast x1 XOR ucast y1"
    by (simp only: crc_step8_xor xor_exchange)
  then have "crc_step8 (ucast (x0 XOR y0)) = ucast (x1 XOR y1)"
    by (simp only: xor_common_left unsigned_xor_eq)
  then have "x0 XOR y0 = 0 \<and> x1 XOR y1 = 0"
    by (rule crc_step8_byte_small)
  then show ?thesis
    by (simp only: xor_eq_0_iff)
qed

text \<open>No change confined to two adjacent bytes keeps the register.\<close>

theorem crc_burst:
  assumes "crc_loop c (pre @ [x0, x1] @ post) = crc_loop c (pre @ [y0, y1] @ post)"
  shows "x0 = y0 \<and> x1 = y1"
proof -
  have "crc_loop (crc_loop c pre) [x0, x1] = crc_loop (crc_loop c pre) [y0, y1]"
    using assms by (simp only: crc_loop_append crc_loop_inj)
  then show ?thesis by (rule crc_two_bytes)
qed

theorem crc_single_byte:
  assumes "crc_loop c (pre @ x # post) = crc_loop c (pre @ y # post)"
  shows "x = y"
proof -
  have "crc_byte (crc_loop c pre) x = crc_byte (crc_loop c pre) y"
    using assms by (simp add: crc_loop_append crc_loop_inj)
  then have "crc_loop (crc_loop c pre) [x, 0] = crc_loop (crc_loop c pre) [y, 0]"
    by simp
  then show ?thesis by (blast dest: crc_two_bytes)
qed


text \<open>
  Parity: the polynomial has an even number of terms, so the parity of the register is the
  parity of all message bits, and a change of an odd number of bits is always seen.
\<close>

primrec bit_parity :: "nat \<Rightarrow> 'a::len word \<Rightarrow> bool" where
  "bit_parity 0 w = False"
| "bit_parity (Suc n) w = (bit_parity n w \<noteq> bit w n)"

fun bytes_parity :: "u8 list \<Rightarrow> bool" where
  "bytes_parity [] = False"
| "bytes_parity (b # bs) = (bit_parity 8 b \<noteq> bytes_parity bs)"

lemma bit_parity_xor: "bit_parity n (x XOR y) = (bit_parity n x \<noteq> bit_parity n y)"
  by (induction n) (auto simp: bit_xor_iff)

lemma bit_parity_drop: "bit_parity n (drop_bit 1 x) = (bit_parity (Suc n) x \<noteq> bit x 0)"
  by (induction n) (auto simp: bit_drop_bit_eq)

lemma bit_parity_0 [simp]: "\<not> bit_parity n 0"
  by (induction n) simp_all

lemma bit_parity_8005: "bit_parity 16 (0x8005 :: u16)"
  by (simp add: numeral_eq_Suc)

lemma bit_parity_crc_bit_step: "bit_parity 16 (crc_bit_step x) = bit_parity 16 x"
proof -
  have "\<not> bit x 16" using bit_imp_le_length [of x 16] by auto
  then have "bit_parity 16 (drop_bit 1 x) = (bit_parity 16 x \<noteq> bit x 0)"
    by (simp only: bit_parity_drop bit_parity.simps) simp
  then show ?thesis
    unfolding crc_bit_step_alt bit_parity_xor using bit_parity_8005 by simp
qed

lemma bit_parity_crc_step8: "bit_parity 16 (crc_step8 x) = bit_parity 16 x"
proof -
  have "bit_parity 16 ((crc_bit_step ^^ n) x) = bit_parity 16 x" for n
    by (induction n) (simp_all add: bit_parity_crc_bit_step)
  then show ?thesis by (simp only: crc_step8_def)
qed

lemma bit_parity_ucast: "bit_parity 16 (ucast (b :: u8) :: u16) = bit_parity 8 b"
proof -
  have "n \<le> 8 \<Longrightarrow> bit_parity n (ucast b :: u16) = bit_parity n b" for n
    by (induction n) (auto simp: bit_unsigned_iff)
  moreover have "bit_parity (n + 8) (ucast b :: u16) = bit_parity 8 (ucast b :: u16)" for n
  proof (induction n)
    case (Suc n)
    have "\<not> bit b (n + 8)" using bit_imp_le_length [of b "n + 8"] by auto
    then have "\<not> bit (ucast b :: u16) (n + 8)" by (simp add: bit_unsigned_iff)
    with Suc show ?case by (simp only: add_Suc bit_parity.simps) simp
  qed simp
  from this [of 8] have "bit_parity 16 (ucast b :: u16) = bit_parity 8 (ucast b :: u16)"
    by simp
  ultimately show ?thesis by simp
qed

theorem crc_loop_parity:
  "bit_parity 16 (crc_loop c bs) = (bit_parity 16 c \<noteq> bytes_parity bs)"
  by (induction bs arbitrary: c)
    (auto simp: crc_byte_serial bit_parity_crc_step8 bit_parity_xor bit_parity_ucast)

section \<open>Which CRC this is\<close>

text \<open>
  The shift is to the right (a reflected algorithm), but the constant is the unreflected
  \<open>0x8005\<close>. The reference below is CRC-16/ARC as it is specified: the same loop with the
  reflected constant \<open>0xA001\<close>. Its check value over the ASCII digits 1 to 9 is
  \<open>0xBB3D\<close>; the code computes \<open>0xAFAD\<close>.
\<close>

definition arc_bit_step :: "u16 \<Rightarrow> u16" where
  "arc_bit_step crc = (if crc AND 1 \<noteq> 0 then drop_bit 1 crc XOR 0xA001 else drop_bit 1 crc)"

fun arc_loop :: "u16 \<Rightarrow> u8 list \<Rightarrow> u16" where
  "arc_loop crc [] = crc"
| "arc_loop crc (b # bs) = arc_loop ((arc_bit_step ^^ 8) (crc XOR ucast b)) bs"

definition crc_check_input :: "u8 list" where
  "crc_check_input = [0x31, 0x32, 0x33, 0x34, 0x35, 0x36, 0x37, 0x38, 0x39]"

lemma funpow_8: "(f ^^ 8) x = f (f (f (f (f (f (f (f x)))))))"
  by (simp add: numeral_eq_Suc)

lemma arc_check_value: "arc_loop 0 crc_check_input = 0xBB3D"
  by (simp add: crc_check_input_def arc_bit_step_def funpow_8)

lemma ComputeE2eCrc_check_value: "ComputeE2eCrc (Some crc_check_input) 9 = 0xAFAD"
  by (simp add: ComputeE2eCrc_def crc_check_input_def crc_byte_serial crc_step8_def
      crc_bit_step_def funpow_8)

end
