(* ===== verification/Ring.thy ===== *)
theory Ring
  imports Prelude
begin

text \<open>
  The single-producer single-consumer rings of the gateway: an array of \<open>N\<close> slots, a head
  index written by the producer and a tail index written by the consumer, empty when they
  agree and full when the next head would reach the tail. \<open>ring_list\<close> is the queue a ring
  stands for; the locale states what a ring needs of its index type, and is interpreted on the
  8-bit indices of the event queue, the audit log and the transition log and on the masked
  32-bit indices of the shared-memory ring.
\<close>

definition ring_list :: "nat \<Rightarrow> 'a list \<Rightarrow> nat \<Rightarrow> nat \<Rightarrow> 'a list" where
  "ring_list N xs t h = map (\<lambda>k. xs ! ((t + k) mod N)) [0..<(h + N - t) mod N]"

section \<open>Index arithmetic\<close>

lemma ring_dist_cases:
  fixes t h N :: nat
  assumes "t < N" "h < N"
  shows "(h + N - t) mod N = (if t \<le> h then h - t else h + N - t)"
proof (cases "t \<le> h")
  case True
  then have "h + N - t = (h - t) + N" by simp
  then have "(h + N - t) mod N = (h - t) mod N" by (simp only: mod_add_self2)
  with True assms show ?thesis by simp
next
  case False
  with assms show ?thesis by simp
qed

lemma ring_succ_cases: "h < N \<Longrightarrow> Suc h mod N = (if Suc h = N then 0 else Suc h)"
  by simp

lemma ring_succ_less: "(h :: nat) < N \<Longrightarrow> Suc h mod N < N"
  by simp

lemma ring_dist_succ:
  fixes t h N :: nat
  assumes "t < N" "h < N" "Suc h mod N \<noteq> t"
  shows "(Suc h mod N + N - t) mod N = Suc ((h + N - t) mod N)"
  using assms ring_dist_cases [OF assms(1) ring_succ_less [OF assms(2)]]
    ring_dist_cases [OF assms(1,2)]
  by (auto simp: ring_succ_cases split: if_splits)

lemma ring_dist_full:
  fixes t h N :: nat
  assumes "t < N" "h < N"
  shows "Suc h mod N = t \<longleftrightarrow> (h + N - t) mod N = N - 1"
  using assms ring_dist_cases [OF assms]
  by (auto simp: ring_succ_cases split: if_splits)

lemma ring_dist_0: "t < N \<Longrightarrow> h < N \<Longrightarrow> (h + N - t) mod N = 0 \<longleftrightarrow> h = (t :: nat)"
  by (auto simp: ring_dist_cases)

lemma ring_slot_cases:
  fixes t k N :: nat
  assumes "t < N" "k < N"
  shows "(t + k) mod N = (if t + k < N then t + k else t + k - N)"
  using assms by (simp add: mod_if)

lemma ring_slot_ne_head:
  fixes t h k N :: nat
  assumes "t < N" "h < N" "k < (h + N - t) mod N"
  shows "(t + k) mod N \<noteq> h"
proof -
  have "(h + N - t) mod N < N" using assms(1) by simp
  then have "k < N" using assms(3) by (rule less_trans [rotated])
  then show ?thesis
    using assms by (auto simp: ring_dist_cases ring_slot_cases split: if_splits)
qed

lemma ring_slot_head:
  fixes t h N :: nat
  assumes "t < N" "h < N"
  shows "(t + (h + N - t) mod N) mod N = h"
proof -
  have "(t + (h + N - t) mod N) mod N = (t + (h + N - t)) mod N"
    by (simp add: mod_simps)
  also have "\<dots> = (h + N) mod N" using assms by simp
  finally show ?thesis using assms by simp
qed

lemma ring_dist_pred:
  fixes t h N :: nat
  assumes "t < N" "h < N" "t \<noteq> h"
  shows "(h + N - t) mod N = Suc ((h + N - Suc t mod N) mod N)"
  using assms ring_dist_cases [OF ring_succ_less [OF assms(1)] assms(2)]
    ring_dist_cases [OF assms(1,2)]
  by (auto simp: ring_succ_cases split: if_splits)

section \<open>The queue of a ring\<close>

lemma length_ring_list [simp]: "length (ring_list N xs t h) = (h + N - t) mod N"
  by (simp add: ring_list_def)

lemma ring_list_empty_iff: "t < N \<Longrightarrow> h < N \<Longrightarrow> ring_list N xs t h = [] \<longleftrightarrow> h = t"
  by (simp add: ring_dist_0 flip: length_0_conv)

lemma ring_list_enq:
  assumes "t < N" "h < N" "length xs = N" "Suc h mod N \<noteq> t"
  shows "ring_list N (xs[h := x]) t (Suc h mod N) = ring_list N xs t h @ [x]"
proof -
  have "xs[h := x] ! ((t + k) mod N) = xs ! ((t + k) mod N)" if "k < (h + N - t) mod N" for k
    using ring_slot_ne_head [OF assms(1,2) that] by simp
  then have "map (\<lambda>k. xs[h := x] ! ((t + k) mod N)) [0..<(h + N - t) mod N]
      = map (\<lambda>k. xs ! ((t + k) mod N)) [0..<(h + N - t) mod N]"
    by simp
  then show ?thesis
    using ring_dist_succ [OF assms(1,2,4)] assms
    by (simp add: ring_list_def ring_slot_head)
qed

lemma ring_list_deq:
  assumes "t < N" "h < N" "t \<noteq> h"
  shows "ring_list N xs t h = xs ! t # ring_list N xs (Suc t mod N) h"
proof -
  let ?d = "(h + N - Suc t mod N) mod N"
  have d: "(h + N - t) mod N = Suc ?d"
    by (rule ring_dist_pred [OF assms])
  have idx: "Suc (t + k) mod N = (Suc t mod N + k) mod N" for k
    by (simp add: mod_simps)
  have "[0..<Suc ?d] = 0 # map Suc [0..<?d]"
    by (simp add: upt_conv_Cons map_Suc_upt del: upt_Suc)
  then show ?thesis
    unfolding ring_list_def d using assms by (simp add: o_def idx del: upt_Suc)
qed

lemma ring_list_nth:
  "k < (h + N - t) mod N \<Longrightarrow> ring_list N xs t h ! k = xs ! ((t + k) mod N)"
  by (simp add: ring_list_def)

text \<open>A write outside the occupied slots does not change the queue.\<close>

lemma ring_list_update_free:
  assumes "\<And>k. k < (h + N - t) mod N \<Longrightarrow> (t + k) mod N \<noteq> i"
  shows "ring_list N (xs[i := x]) t h = ring_list N xs t h"
  unfolding ring_list_def
proof (rule map_cong [OF refl])
  fix k
  assume "k \<in> set [0..<(h + N - t) mod N]"
  then have "(t + k) mod N \<noteq> i" using assms by simp
  then show "xs[i := x] ! ((t + k) mod N) = xs ! ((t + k) mod N)" by simp
qed

section \<open>The contract of a ring's index type\<close>

locale ring_index =
  fixes N :: nat
    and next_idx :: "'i \<Rightarrow> 'i"
    and pos :: "'i \<Rightarrow> nat"
  assumes size_ge_2: "2 \<le> N"
    and pos_next: "pos i < N \<Longrightarrow> pos (next_idx i) = Suc (pos i) mod N"
    and pos_inj: "pos i = pos j \<longleftrightarrow> i = j"
begin

definition queue :: "'a list \<Rightarrow> 'i \<Rightarrow> 'i \<Rightarrow> 'a list" where
  "queue xs t h = ring_list N xs (pos t) (pos h)"

lemma pos_next_less: "pos i < N \<Longrightarrow> pos (next_idx i) < N"
  using size_ge_2 by (simp add: pos_next)

lemma queue_empty_iff: "pos t < N \<Longrightarrow> pos h < N \<Longrightarrow> queue xs t h = [] \<longleftrightarrow> t = h"
  by (auto simp: queue_def ring_list_empty_iff pos_inj)

lemma queue_full_iff:
  "pos t < N \<Longrightarrow> pos h < N \<Longrightarrow> next_idx h = t \<longleftrightarrow> length (queue xs t h) = N - 1"
  by (simp add: queue_def ring_dist_full pos_next flip: pos_inj)

lemma length_queue_less: "length (queue xs t h) < N"
  using size_ge_2 by (simp add: queue_def)

lemma queue_enq:
  assumes "pos t < N" "pos h < N" "length xs = N" "next_idx h \<noteq> t"
  shows "queue (xs[pos h := x]) t (next_idx h) = queue xs t h @ [x]"
proof -
  have "Suc (pos h) mod N \<noteq> pos t"
    using assms by (metis pos_inj pos_next)
  then show ?thesis
    using assms by (simp add: queue_def pos_next ring_list_enq)
qed

lemma queue_deq:
  assumes "pos t < N" "pos h < N" "t \<noteq> h"
  shows "queue xs t h = xs ! pos t # queue xs (next_idx t) h"
  using assms ring_list_deq [of "pos t" N "pos h" xs]
  by (simp add: queue_def pos_next pos_inj)

text \<open>The slot at the head is free: writing it leaves the queue as it is.\<close>

lemma queue_write_head:
  assumes "pos t < N" "pos h < N"
  shows "queue (xs[pos h := x]) t h = queue xs t h"
  using assms ring_slot_ne_head [of "pos t" N "pos h"]
  by (auto simp: queue_def ring_list_def nth_list_update_neq [OF not_sym])

lemma next_idx_inj: "pos i < N \<Longrightarrow> pos j < N \<Longrightarrow> next_idx i = next_idx j \<longleftrightarrow> i = j"
  by (auto simp: pos_next ring_succ_cases simp flip: pos_inj split: if_splits)

lemma queue_same [simp]: "pos t < N \<Longrightarrow> queue xs t t = []"
  by (simp add: queue_empty_iff)

end

section \<open>The index types of the sources\<close>

text \<open>\<open>static_cast<uint8_t>((head + 1U) % N)\<close>\<close>

definition u8_next :: "u32 \<Rightarrow> u8 \<Rightarrow> u8" where
  "u8_next n h = ucast ((ucast h + 1) mod n)"

lemma unat_u8_next:
  assumes "0 < n" "n \<le> 256"
  shows "unat (u8_next n h) = Suc (unat h) mod unat n"
proof -
  have s: "unat (ucast h + 1 :: u32) = Suc (unat h)"
    using less_trans [OF unat_u8_less [of h], of "2 ^ 32 - 1"] by (simp add: unat_word_ariths)
  have "unat n \<le> 256" using assms(2) by (simp add: word_le_nat_alt)
  moreover have "0 < unat n" using assms(1) by (simp add: word_less_nat_alt)
  then have "Suc (unat h) mod unat n < unat n" by simp
  ultimately have lt: "Suc (unat h) mod unat n < 256" by simp
  have "unat ((ucast h + 1) mod n) = Suc (unat h) mod unat n"
    by (simp only: unat_mod s)
  then show ?thesis
    using lt by (simp add: u8_next_def unat_ucast_u32_u8)
qed

text \<open>\<open>(head + 1U) & (N - 1U)\<close> for a power of two \<open>N\<close>\<close>

definition u32_mask_next :: "u32 \<Rightarrow> u32 \<Rightarrow> u32" where
  "u32_mask_next m h = (h + 1) AND m"

lemma unat_u32_mask_next_31:
  assumes "unat h < 32"
  shows "unat (u32_mask_next 31 h) = Suc (unat h) mod 32"
proof -
  have "(h + 1) AND 31 = take_bit 5 (h + 1)"
    by (simp add: take_bit_eq_mask mask_eq_exp_minus_1)
  moreover have "unat (h + 1) = Suc (unat h)"
    using assms by (simp add: unat_word_ariths)
  ultimately show ?thesis
    by (simp add: u32_mask_next_def take_bit_eq_mod unat_mod)
qed

end
