(* ===== verification/IpcBridge.thy ===== *)
theory IpcBridge
  imports SoaTypes Crc Ring
begin

text \<open>
  \<open>include/IpcBridge.hpp\<close> and \<open>src/IpcBridge.cpp\<close>: the slot with its E2E header, its byte
  image in shared SRAM, the header stamping and verification, and the producer side of the
  ring. The ring lives behind the bridge's pointer, so it is a component of the bridge's state;
  the other core changes only its \<open>tail\<close>.
\<close>

section \<open>Layout\<close>

definition kIpcRingSlots :: u32 where [simp]: "kIpcRingSlots = 32"
definition kIpcPayloadBytes :: nat where [simp]: "kIpcPayloadBytes = 128"
definition kIpcRingSlotMask :: u32 where [simp]: "kIpcRingSlotMask = kIpcRingSlots - 1"
definition kIpcMagic :: u32 where [simp]: "kIpcMagic = 0xA53CA53C"

record E2eProfile5Header =
  e2e_crc :: u16
  e2e_counter :: u8
  e2e_dataId :: u8
  e2e_length :: u16
  e2e_reserved :: u16

record IpcSlot =
  sl_e2eHeader :: E2eProfile5Header
  sl_serviceId :: u16
  sl_eventId :: u16
  sl_sessionId :: u32
  sl_payloadLen :: u8
  sl_reserved :: "u8 list"
  sl_payload :: "u8 list"

record IpcRingBuffer =
  rb_head :: u32
  rb_tail :: u32
  rb_magic :: u32
  rb_pad :: u32
  rb_slots :: "IpcSlot list"

record IpcBridge =
  br_ring :: "IpcRingBuffer option"
  br_seqCounter :: u8
  br_initialised :: bool

text \<open>
  The bytes of a slot in memory order; the struct has no padding (its \<open>static_assert\<close>).
\<close>

definition E2eProfile5Header_bytes :: "E2eProfile5Header \<Rightarrow> u8 list" where
  "E2eProfile5Header_bytes h =
     le16 (e2e_crc h) @ [e2e_counter h, e2e_dataId h] @ le16 (e2e_length h) @ le16 (e2e_reserved h)"

definition IpcSlot_bytes :: "IpcSlot \<Rightarrow> u8 list" where
  "IpcSlot_bytes s =
     E2eProfile5Header_bytes (sl_e2eHeader s) @ le16 (sl_serviceId s) @ le16 (sl_eventId s) @
     le32 (sl_sessionId s) @ [sl_payloadLen s] @ sl_reserved s @ sl_payload s"

definition sizeof_IpcSlot :: nat where [simp]: "sizeof_IpcSlot = 148"

text \<open>The array members have their declared lengths.\<close>

definition slot_wf :: "IpcSlot \<Rightarrow> bool" where
  "slot_wf s \<longleftrightarrow> length (sl_reserved s) = 3 \<and> length (sl_payload s) = kIpcPayloadBytes"

lemma length_IpcSlot_bytes: "slot_wf s \<Longrightarrow> length (IpcSlot_bytes s) = sizeof_IpcSlot"
  by (simp add: IpcSlot_bytes_def E2eProfile5Header_bytes_def slot_wf_def)

definition IpcSlot_zero :: IpcSlot where
  "IpcSlot_zero =
     \<lparr>sl_e2eHeader = \<lparr>e2e_crc = 0, e2e_counter = 0, e2e_dataId = 0, e2e_length = 0,
        e2e_reserved = 0\<rparr>,
      sl_serviceId = 0, sl_eventId = 0, sl_sessionId = 0, sl_payloadLen = 0,
      sl_reserved = memset 3 0, sl_payload = memset kIpcPayloadBytes 0\<rparr>"

section \<open>Construction and initialisation\<close>

definition IpcBridge_new :: "IpcRingBuffer option \<Rightarrow> IpcBridge" where
  "IpcBridge_new sramBase = \<lparr>br_ring = sramBase, br_seqCounter = 0, br_initialised = False\<rparr>"

definition IpcBridge_Init :: "IpcBridge \<Rightarrow> VoidResult \<times> IpcBridge" where
  "IpcBridge_Init b =
     (case br_ring b of
        None \<Rightarrow> (Err kNullPointer, b)
      | Some r \<Rightarrow>
          if br_initialised b then (Err kAlreadyRegistered, b)
          else
            let r0 = \<lparr>rb_head = 0, rb_tail = 0, rb_magic = 0, rb_pad = 0,
                      rb_slots = replicate (unat kIpcRingSlots) IpcSlot_zero\<rparr>;
                r1 = r0\<lparr>rb_head := 0, rb_tail := 0, rb_pad := 0\<rparr>;
                r2 = r1\<lparr>rb_magic := kIpcMagic\<rparr>
            in (Ok (), b\<lparr>br_ring := Some r2, br_seqCounter := 0, br_initialised := True\<rparr>))"

section \<open>E2E header\<close>

definition VerifyE2e :: "IpcSlot \<Rightarrow> u8 \<Rightarrow> VoidResult" where
  "VerifyE2e slot expectedCounter =
     (let kCrcOffset = 2;
          kProtectedLen = word_of_nat (sizeof_IpcSlot - kCrcOffset);
          computed = ComputeE2eCrc (Some (drop kCrcOffset (IpcSlot_bytes slot))) kProtectedLen
      in if computed \<noteq> e2e_crc (sl_e2eHeader slot) then Err kChecksumMismatch
         else if e2e_counter (sl_e2eHeader slot) \<noteq> expectedCounter then Err kSequenceError
         else Ok ())"

definition ApplyE2eHeader :: "IpcBridge \<Rightarrow> IpcSlot \<Rightarrow> IpcSlot \<times> IpcBridge" where
  "ApplyE2eHeader b slot =
     (let s1 = slot\<lparr>sl_e2eHeader :=
            \<lparr>e2e_crc = 0x0000, e2e_counter = br_seqCounter b, e2e_dataId = 0x01,
             e2e_length = word_of_nat sizeof_IpcSlot, e2e_reserved = 0x0000\<rparr>\<rparr>;
          kCrcOffset = 2;
          kProtectedLen = word_of_nat (sizeof_IpcSlot - kCrcOffset);
          c = ComputeE2eCrc (Some (drop kCrcOffset (IpcSlot_bytes s1))) kProtectedLen;
          s2 = s1\<lparr>sl_e2eHeader := (sl_e2eHeader s1)\<lparr>e2e_crc := c\<rparr>\<rparr>
      in (s2, b\<lparr>br_seqCounter := br_seqCounter b + 1\<rparr>))"

section \<open>Send\<close>

definition IpcBridge_Send :: "SoaEvent \<Rightarrow> IpcBridge \<Rightarrow> VoidResult \<times> IpcBridge" where
  "IpcBridge_Send event b =
     (if \<not> br_initialised b then (Err kNotInitialized, b)
      else case br_ring b of
        None \<Rightarrow> (Err kNullPointer, b)
      | Some r \<Rightarrow>
          if ev_payloadLen event > word_of_nat kIpcPayloadBytes then (Err kInvalidArgument, b)
          else
            let head = rb_head r; tail = rb_tail r;
                nextHead = u32_mask_next kIpcRingSlotMask head
            in if nextHead = tail then (Err kIpcBufferFull, b)
               else
                 let s0 = rb_slots r ! unat head;
                     cleared = memset kIpcPayloadBytes 0;
                     s1 = s0\<lparr>sl_serviceId := ev_serviceId event, sl_eventId := ev_eventId event,
                             sl_sessionId := ev_sessionId event,
                             sl_payloadLen := ev_payloadLen event, sl_reserved := [0, 0, 0],
                             sl_payload :=
                               (if ev_payloadLen event > 0
                                then memcpy cleared (ev_payload event) (unat (ev_payloadLen event))
                                else cleared)\<rparr>;
                     (s2, b') = ApplyE2eHeader b s1
                 in (Ok (), b'\<lparr>br_ring := Some (r\<lparr>rb_slots := (rb_slots r)[unat head := s2],
                                              rb_head := nextHead\<rparr>)\<rparr>))"

section \<open>The slot of an event\<close>

text \<open>
  Every field of the slot is overwritten, so the slot that \<open>Send\<close> publishes is a function of
  the counter and the event alone: nothing of the slot's previous content leaks to the
  other core.
\<close>

definition e2e_protected :: "IpcSlot \<Rightarrow> u8 list" where
  "e2e_protected s = drop 2 (IpcSlot_bytes s)"

definition slot_crc :: "IpcSlot \<Rightarrow> u16" where
  "slot_crc s = crc_loop 0 (e2e_protected s)"

definition ipc_payload :: "SoaEvent \<Rightarrow> u8 list" where
  "ipc_payload e =
     take (unat (ev_payloadLen e)) (ev_payload e) @ replicate (128 - unat (ev_payloadLen e)) 0"

definition ipc_frame :: "u8 \<Rightarrow> SoaEvent \<Rightarrow> IpcSlot" where
  "ipc_frame c e =
     \<lparr>sl_e2eHeader = \<lparr>e2e_crc = 0, e2e_counter = c, e2e_dataId = 1, e2e_length = 148,
        e2e_reserved = 0\<rparr>,
      sl_serviceId = ev_serviceId e, sl_eventId = ev_eventId e, sl_sessionId = ev_sessionId e,
      sl_payloadLen = ev_payloadLen e, sl_reserved = [0, 0, 0], sl_payload = ipc_payload e\<rparr>"

definition ipc_slot :: "u8 \<Rightarrow> SoaEvent \<Rightarrow> IpcSlot" where
  "ipc_slot c e =
     (ipc_frame c e)\<lparr>sl_e2eHeader :=
        (sl_e2eHeader (ipc_frame c e))\<lparr>e2e_crc := slot_crc (ipc_frame c e)\<rparr>\<rparr>"

lemma e2e_protected_crc [simp]:
  "e2e_protected (s\<lparr>sl_e2eHeader := (sl_e2eHeader s)\<lparr>e2e_crc := v\<rparr>\<rparr>) = e2e_protected s"
  by (simp add: e2e_protected_def IpcSlot_bytes_def E2eProfile5Header_bytes_def)

lemma IpcSlot_bytes_split: "IpcSlot_bytes s = le16 (e2e_crc (sl_e2eHeader s)) @ e2e_protected s"
  by (simp add: e2e_protected_def IpcSlot_bytes_def E2eProfile5Header_bytes_def)

lemma length_e2e_protected: "slot_wf s \<Longrightarrow> length (e2e_protected s) = 146"
  by (simp add: e2e_protected_def length_IpcSlot_bytes)

lemma ComputeE2eCrc_slot:
  "slot_wf s \<Longrightarrow> ComputeE2eCrc (Some (drop 2 (IpcSlot_bytes s))) 146 = slot_crc s"
  using length_e2e_protected [of s]
  by (simp add: ComputeE2eCrc_def slot_crc_def e2e_protected_def)

lemma VerifyE2e_eq:
  assumes "slot_wf s"
  shows "VerifyE2e s c =
    (if slot_crc s \<noteq> e2e_crc (sl_e2eHeader s) then Err kChecksumMismatch
     else if e2e_counter (sl_e2eHeader s) \<noteq> c then Err kSequenceError else Ok ())"
  by (simp add: VerifyE2e_def ComputeE2eCrc_slot [OF assms])

lemma length_ipc_payload:
  "event_wf e \<Longrightarrow> unat (ev_payloadLen e) \<le> 128 \<Longrightarrow> length (ipc_payload e) = 128"
  by (simp add: ipc_payload_def event_wf_def)

lemma slot_wf_ipc_frame: "event_wf e \<Longrightarrow> unat (ev_payloadLen e) \<le> 128 \<Longrightarrow> slot_wf (ipc_frame c e)"
  by (simp add: slot_wf_def ipc_frame_def length_ipc_payload)

lemma slot_wf_ipc_slot: "event_wf e \<Longrightarrow> unat (ev_payloadLen e) \<le> 128 \<Longrightarrow> slot_wf (ipc_slot c e)"
  using slot_wf_ipc_frame [of e c] by (simp add: slot_wf_def ipc_slot_def)

lemma ipc_slot_fields [simp]:
  "e2e_counter (sl_e2eHeader (ipc_slot c e)) = c"
  "e2e_dataId (sl_e2eHeader (ipc_slot c e)) = 1"
  "e2e_length (sl_e2eHeader (ipc_slot c e)) = 148"
  "e2e_reserved (sl_e2eHeader (ipc_slot c e)) = 0"
  "sl_serviceId (ipc_slot c e) = ev_serviceId e"
  "sl_eventId (ipc_slot c e) = ev_eventId e"
  "sl_sessionId (ipc_slot c e) = ev_sessionId e"
  "sl_payloadLen (ipc_slot c e) = ev_payloadLen e"
  "sl_payload (ipc_slot c e) = ipc_payload e"
  by (simp_all add: ipc_slot_def ipc_frame_def)

lemma slot_crc_ipc_slot [simp]: "slot_crc (ipc_slot c e) = e2e_crc (sl_e2eHeader (ipc_slot c e))"
  by (simp add: ipc_slot_def slot_crc_def)

lemma VerifyE2e_ipc_slot:
  assumes "event_wf e" "unat (ev_payloadLen e) \<le> 128"
  shows "VerifyE2e (ipc_slot c e) c' = (if c = c' then Ok () else Err kSequenceError)"
  by (simp add: VerifyE2e_eq [OF slot_wf_ipc_slot [OF assms]])

section \<open>What the CRC detects\<close>

lemma VerifyE2e_Ok_iff:
  "slot_wf s \<Longrightarrow> VerifyE2e s c = Ok () \<longleftrightarrow>
     slot_crc s = e2e_crc (sl_e2eHeader s) \<and> e2e_counter (sl_e2eHeader s) = c"
  by (simp add: VerifyE2e_eq)

lemma crc_field_of_bytes:
  assumes "IpcSlot_bytes s = pre @ xs" "IpcSlot_bytes s' = pre @ ys" "2 \<le> length pre"
  shows "e2e_crc (sl_e2eHeader s) = e2e_crc (sl_e2eHeader s')"
    and "e2e_protected s = drop 2 pre @ xs" "e2e_protected s' = drop 2 pre @ ys"
proof -
  have "le16 (e2e_crc (sl_e2eHeader s)) = take 2 (IpcSlot_bytes s)"
    "le16 (e2e_crc (sl_e2eHeader s')) = take 2 (IpcSlot_bytes s')"
    by (simp_all add: IpcSlot_bytes_split)
  with assms show "e2e_crc (sl_e2eHeader s) = e2e_crc (sl_e2eHeader s')"
    by (simp add: le16_inj flip: le16_inj)
  show "e2e_protected s = drop 2 pre @ xs" "e2e_protected s' = drop 2 pre @ ys"
    using assms by (simp_all add: e2e_protected_def)
qed

lemma burst_detected:
  assumes ok: "slot_wf s" "VerifyE2e s c = Ok ()" and wf: "slot_wf s'"
    and b: "IpcSlot_bytes s = pre @ [x0, x1] @ post" "IpcSlot_bytes s' = pre @ [y0, y1] @ post"
    and ne: "(x0, x1) \<noteq> (y0, y1)" and pre: "2 \<le> length pre"
  shows "VerifyE2e s' c' = Err kChecksumMismatch"
proof -
  have "slot_crc s \<noteq> slot_crc s'"
    using crc_burst [of 0 "drop 2 pre" x0 x1 post y0 y1] ne
    by (auto simp: slot_crc_def crc_field_of_bytes [OF b pre])
  then show ?thesis
    using crc_field_of_bytes(1) [OF b pre] ok wf by (simp add: VerifyE2e_eq split: if_splits)
qed

lemma crc_field_detected:
  assumes "slot_wf s" "VerifyE2e s c = Ok ()" "v \<noteq> e2e_crc (sl_e2eHeader s)"
  shows "VerifyE2e (s\<lparr>sl_e2eHeader := (sl_e2eHeader s)\<lparr>e2e_crc := v\<rparr>\<rparr>) c' = Err kChecksumMismatch"
proof -
  have "slot_wf (s\<lparr>sl_e2eHeader := (sl_e2eHeader s)\<lparr>e2e_crc := v\<rparr>\<rparr>)"
    using assms(1) by (simp add: slot_wf_def)
  then show ?thesis
    using assms by (simp add: VerifyE2e_eq slot_crc_def split: if_splits)
qed

lemma bytes_parity_append: "bytes_parity (xs @ ys) = (bytes_parity xs \<noteq> bytes_parity ys)"
  by (induction xs) auto

lemma bit_parity_push: "bit_parity 16 (push_bit 8 (ucast (b :: u8)) :: u16) = bit_parity 8 b"
  by (metis bit_parity_crc_step8 bit_parity_ucast crc_step8_high)

lemma bytes_parity_le16: "bytes_parity (le16 w) = bit_parity 16 w"
proof -
  have "bit_parity 16 w = bit_parity 16 (ucast (ucast w :: u8) XOR
      push_bit 8 (ucast (ucast (drop_bit 8 w) :: u8)) :: u16)"
    using word16_split [of w] by simp
  also have "\<dots> = (bit_parity 8 (ucast w :: u8) \<noteq> bit_parity 8 (ucast (drop_bit 8 w) :: u8))"
    by (simp only: bit_parity_xor bit_parity_push bit_parity_ucast)
  finally show ?thesis
    by (simp add: le16_def)
qed

text \<open>A valid slot has even parity over all its 148 bytes, so odd numbers of flips are seen.\<close>

lemma VerifyE2e_Ok_parity:
  assumes "slot_wf s" "VerifyE2e s c = Ok ()"
  shows "\<not> bytes_parity (IpcSlot_bytes s)"
proof -
  have "bit_parity 16 (e2e_crc (sl_e2eHeader s)) = bytes_parity (e2e_protected s)"
    using assms crc_loop_parity [of 0 "e2e_protected s"]
    by (simp add: VerifyE2e_Ok_iff slot_crc_def)
  then show ?thesis
    by (simp add: IpcSlot_bytes_split bytes_parity_append bytes_parity_le16)
qed

section \<open>The ring in shared memory\<close>

lemma ipc_pos_next: "unat i < 32 \<Longrightarrow> unat (u32_mask_next kIpcRingSlotMask i) = Suc (unat i) mod 32"
  by (simp add: unat_u32_mask_next_31)

interpretation ipc_ring: ring_index 32 "u32_mask_next kIpcRingSlotMask" unat
  by unfold_locales (simp_all add: unat_u32_mask_next_31 word_unat_eq_iff)

text \<open>The slots the other core has not taken yet, oldest first.\<close>

definition ring_pending :: "IpcRingBuffer \<Rightarrow> IpcSlot list" where
  "ring_pending r = ring_list 32 (rb_slots r) (unat (rb_tail r)) (unat (rb_head r))"

definition ring_wf :: "IpcRingBuffer \<Rightarrow> bool" where
  "ring_wf r \<longleftrightarrow> length (rb_slots r) = 32 \<and> unat (rb_head r) < 32 \<and> unat (rb_tail r) < 32 \<and>
     rb_magic r = kIpcMagic"

definition bridge_wf :: "IpcBridge \<Rightarrow> bool" where
  "bridge_wf b \<longleftrightarrow>
     (br_initialised b \<longrightarrow> (case br_ring b of None \<Rightarrow> False | Some r \<Rightarrow> ring_wf r))"

definition br_pending :: "IpcBridge \<Rightarrow> IpcSlot list" where
  "br_pending b = (case br_ring b of None \<Rightarrow> [] | Some r \<Rightarrow> ring_pending r)"

lemma ring_pending_queue: "ring_pending r = ipc_ring.queue (rb_slots r) (rb_tail r) (rb_head r)"
  by (simp add: ring_pending_def ipc_ring.queue_def)

lemma bridge_wf_ringE:
  assumes "bridge_wf b" "br_initialised b"
  obtains r where "br_ring b = Some r" "ring_wf r"
  using assms by (auto simp: bridge_wf_def split: option.splits)

lemma Init_cases:
  "IpcBridge_Init b =
     (if br_ring b = None then (Err kNullPointer, b)
      else if br_initialised b then (Err kAlreadyRegistered, b)
      else (Ok (), b\<lparr>br_ring := Some \<lparr>rb_head = 0, rb_tail = 0, rb_magic = kIpcMagic, rb_pad = 0,
                                rb_slots = replicate 32 IpcSlot_zero\<rparr>,
                     br_seqCounter := 0, br_initialised := True\<rparr>))"
  by (simp add: IpcBridge_Init_def Let_def split: option.split)

lemma Init_wf: "bridge_wf b \<Longrightarrow> bridge_wf (snd (IpcBridge_Init b))"
  by (auto simp: Init_cases bridge_wf_def ring_wf_def split: option.splits)

lemma Init_empty:
  "IpcBridge_Init b = (Ok (), b') \<Longrightarrow>
     bridge_wf b' \<and> br_initialised b' \<and> br_pending b' = [] \<and> br_seqCounter b' = 0"
  by (auto simp: Init_cases bridge_wf_def ring_wf_def br_pending_def ring_pending_def ring_list_def
      split: if_splits)

section \<open>Send, branch by branch\<close>

lemma memset_memcpy_payload:
  assumes "event_wf e" "unat (ev_payloadLen e) \<le> 128"
  shows "memcpy (memset 128 0) (ev_payload e) (unat (ev_payloadLen e)) = ipc_payload e"
  using assms by (simp add: memcpy_def memset_def ipc_payload_def)

lemma ApplyE2eHeader_eq:
  assumes "event_wf e" "unat (ev_payloadLen e) \<le> 128"
    and "s\<lparr>sl_e2eHeader := sl_e2eHeader (ipc_frame (br_seqCounter b) e)\<rparr> = ipc_frame (br_seqCounter b) e"
  shows "ApplyE2eHeader b s =
    (ipc_slot (br_seqCounter b) e, b\<lparr>br_seqCounter := br_seqCounter b + 1\<rparr>)"
proof -
  have h: "\<lparr>e2e_crc = 0, e2e_counter = br_seqCounter b, e2e_dataId = 1, e2e_length = 148,
      e2e_reserved = 0\<rparr> = sl_e2eHeader (ipc_frame (br_seqCounter b) e)"
    by (simp add: ipc_frame_def)
  show ?thesis
    using ComputeE2eCrc_slot [OF slot_wf_ipc_frame [OF assms(1,2)]] assms(3)
    by (simp add: ApplyE2eHeader_def Let_def h ipc_slot_def)
qed

lemma payloadLen_le: "\<not> ev_payloadLen e > word_of_nat kIpcPayloadBytes \<longleftrightarrow> unat (ev_payloadLen e) \<le> 128"
  by (simp add: word_less_nat_alt not_less)

lemma Send_eq:
  assumes "br_ring b = Some r" "br_initialised b" "event_wf e"
  shows "IpcBridge_Send e b =
    (if 128 < unat (ev_payloadLen e) then (Err kInvalidArgument, b)
     else if u32_mask_next kIpcRingSlotMask (rb_head r) = rb_tail r then (Err kIpcBufferFull, b)
     else (Ok (), b\<lparr>br_seqCounter := br_seqCounter b + 1,
             br_ring := Some (r\<lparr>rb_slots :=
                 (rb_slots r)[unat (rb_head r) := ipc_slot (br_seqCounter b) e],
               rb_head := u32_mask_next kIpcRingSlotMask (rb_head r)\<rparr>)\<rparr>))"
proof (cases "unat (ev_payloadLen e) \<le> 128")
  case False
  then show ?thesis
    using assms payloadLen_le [of e] by (simp add: IpcBridge_Send_def)
next
  case True
  have pay: "(if ev_payloadLen e > 0 then memcpy (memset 128 0) (ev_payload e) (unat (ev_payloadLen e))
      else memset 128 0) = ipc_payload e"
    using memset_memcpy_payload [OF assms(3) True]
    by (auto simp: word_gt_0 ipc_payload_def memset_def)
  have hdr: "ApplyE2eHeader b (s\<lparr>sl_serviceId := ev_serviceId e, sl_eventId := ev_eventId e,
        sl_sessionId := ev_sessionId e, sl_payloadLen := ev_payloadLen e, sl_reserved := [0, 0, 0],
        sl_payload := ipc_payload e\<rparr>)
      = (ipc_slot (br_seqCounter b) e, b\<lparr>br_seqCounter := br_seqCounter b + 1\<rparr>)" for s
    by (rule ApplyE2eHeader_eq [OF assms(3) True]) (simp add: ipc_frame_def)
  show ?thesis
    using assms True payloadLen_le [of e] pay
    by (simp add: IpcBridge_Send_def Let_def hdr)
qed

lemma Send_not_initialised: "\<not> br_initialised b \<Longrightarrow> IpcBridge_Send e b = (Err kNotInitialized, b)"
  by (simp add: IpcBridge_Send_def)

lemma Send_error_unchanged: "IpcBridge_Send e b = (Err x, b') \<Longrightarrow> b' = b"
  by (auto simp: IpcBridge_Send_def Let_def split: option.splits if_splits prod.splits)

lemma ring_pending_send:
  assumes "ring_wf r" "u32_mask_next kIpcRingSlotMask (rb_head r) \<noteq> rb_tail r"
  shows "ring_pending (r\<lparr>rb_slots := (rb_slots r)[unat (rb_head r) := s],
      rb_head := u32_mask_next kIpcRingSlotMask (rb_head r)\<rparr>) = ring_pending r @ [s]"
  using assms ipc_ring.queue_enq [of "rb_tail r" "rb_head r" "rb_slots r" s]
  by (simp add: ring_pending_queue ring_wf_def)

lemma ring_wf_send:
  assumes "ring_wf r"
  shows "ring_wf (r\<lparr>rb_slots := (rb_slots r)[unat (rb_head r) := s],
      rb_head := u32_mask_next kIpcRingSlotMask (rb_head r)\<rparr>)"
  using assms ipc_ring.pos_next_less [of "rb_head r"] by (simp add: ring_wf_def)

lemma ring_full_iff:
  "ring_wf r \<Longrightarrow> u32_mask_next kIpcRingSlotMask (rb_head r) = rb_tail r \<longleftrightarrow> length (ring_pending r) = 31"
  using ipc_ring.queue_full_iff [of "rb_tail r" "rb_head r" "rb_slots r"]
  by (simp add: ring_pending_queue ring_wf_def)

text \<open>The outcome of \<open>Send\<close> on an initialised bridge, in terms of the pending queue.\<close>

lemma Send_result:
  assumes "bridge_wf b" "br_initialised b" "event_wf e"
  shows "fst (IpcBridge_Send e b) =
    (if 128 < unat (ev_payloadLen e) then Err kInvalidArgument
     else if length (br_pending b) = 31 then Err kIpcBufferFull else Ok ())"
proof -
  obtain r where r: "br_ring b = Some r" "ring_wf r"
    using bridge_wf_ringE [OF assms(1,2)] .
  then show ?thesis
    using assms ring_full_iff [OF r(2)] by (simp add: Send_eq br_pending_def)
qed

lemma Send_Ok:
  assumes "bridge_wf b" "event_wf e" "IpcBridge_Send e b = (Ok (), b')"
  shows "br_initialised b" "unat (ev_payloadLen e) \<le> 128" "length (br_pending b) < 31"
    and "br_pending b' = br_pending b @ [ipc_slot (br_seqCounter b) e]"
    and "br_seqCounter b' = br_seqCounter b + 1" "br_initialised b'" "bridge_wf b'"
proof -
  show i: "br_initialised b"
    using assms(3) by (rule contrapos_pp) (simp add: Send_not_initialised)
  obtain r where r: "br_ring b = Some r" "ring_wf r"
    using bridge_wf_ringE [OF assms(1) i] .
  note eq = Send_eq [OF r(1) i assms(2)] assms(3)
  have len: "length (br_pending b) < 32"
    using ipc_ring.length_queue_less by (simp add: br_pending_def r ring_pending_queue)
  show "unat (ev_payloadLen e) \<le> 128"
    using eq by (simp split: if_splits)
  have nf: "u32_mask_next kIpcRingSlotMask (rb_head r) \<noteq> rb_tail r"
    using eq by (simp split: if_splits)
  then show "length (br_pending b) < 31"
    using len ring_full_iff [OF r(2)] by (simp add: br_pending_def r)
  have b': "b' = b\<lparr>br_seqCounter := br_seqCounter b + 1,
             br_ring := Some (r\<lparr>rb_slots :=
                 (rb_slots r)[unat (rb_head r) := ipc_slot (br_seqCounter b) e],
               rb_head := u32_mask_next kIpcRingSlotMask (rb_head r)\<rparr>)\<rparr>"
    using eq by (simp split: if_splits)
  show "br_pending b' = br_pending b @ [ipc_slot (br_seqCounter b) e]"
    unfolding b' using ring_pending_send [OF r(2) nf] by (simp add: br_pending_def r)
  show "br_seqCounter b' = br_seqCounter b + 1" "br_initialised b'"
    by (simp_all add: b' i)
  show "bridge_wf b'"
    unfolding b' using ring_wf_send [OF r(2)] by (simp add: bridge_wf_def)
qed

lemma Send_wf:
  assumes "bridge_wf b" "event_wf e"
  shows "bridge_wf (snd (IpcBridge_Send e b))"
proof (cases "IpcBridge_Send e b")
  case (Pair r b')
  then show ?thesis
    using assms Send_Ok(7) [of b e b'] Send_error_unchanged [of e b _ b'] by (cases r) auto
qed

end
