(* ===== verification/Channel.thy ===== *)
theory Channel
  imports SoaTypes
begin

text \<open>
  The contract of the queues through which the components hand events on: the event queue of
  the service manager and the ring to the other core. An accepted event is appended to the
  outbox as one frame, a refused one changes nothing; a bounded channel accepts until its
  capacity is reached and then refuses with one error.
\<close>

locale event_channel =
  fixes send :: "'e \<Rightarrow> 'c \<Rightarrow> VoidResult \<times> 'c"
    and msg_ok :: "'e \<Rightarrow> bool"
    and inv :: "'c \<Rightarrow> bool"
    and outbox :: "'c \<Rightarrow> 'm list"
    and frame :: "'c \<Rightarrow> 'e \<Rightarrow> 'm"
  assumes send_inv: "inv c \<Longrightarrow> msg_ok e \<Longrightarrow> inv (snd (send e c))"
    and send_Ok: "inv c \<Longrightarrow> msg_ok e \<Longrightarrow> send e c = (Ok (), c') \<Longrightarrow> outbox c' = outbox c @ [frame c e]"
    and send_Err: "send e c = (Err x, c') \<Longrightarrow> c' = c"
begin

lemma outbox_send:
  assumes "inv c" "msg_ok e"
  shows "outbox (snd (send e c)) = outbox c @ (if res_ok (fst (send e c)) then [frame c e] else [])"
proof (cases "send e c")
  case (Pair r c')
  then show ?thesis
    using assms send_Ok [of c e c'] send_Err [of e c _ c'] by (cases r) auto
qed

lemma outbox_grows:
  assumes "inv c" "msg_ok e"
  shows "\<exists>ms. outbox (snd (send e c)) = outbox c @ ms \<and> length ms \<le> 1"
  using outbox_send [OF assms] by auto

end

locale bounded_channel = event_channel send msg_ok inv outbox frame
  for send :: "'e \<Rightarrow> 'c \<Rightarrow> VoidResult \<times> 'c"
    and msg_ok :: "'e \<Rightarrow> bool"
    and inv :: "'c \<Rightarrow> bool"
    and outbox :: "'c \<Rightarrow> 'm list"
    and frame :: "'c \<Rightarrow> 'e \<Rightarrow> 'm" +
  fixes fits :: "'e \<Rightarrow> bool"
    and ready :: "'c \<Rightarrow> bool"
    and cap :: nat
    and full :: ErrorCode
  assumes send_ready: "ready c \<Longrightarrow> ready (snd (send e c))"
    and send_result: "inv c \<Longrightarrow> ready c \<Longrightarrow> msg_ok e \<Longrightarrow> fits e \<Longrightarrow>
      fst (send e c) = (if length (outbox c) = cap then Err full else Ok ())"
begin

lemma send_batch:
  assumes "inv c" "ready c" "\<forall>e\<in>set es. msg_ok e \<and> fits e" "length (outbox c) + length es \<le> cap"
  shows "fst (call_all (map send es) c) = replicate (length es) (Ok ()) \<and>
    inv (snd (call_all (map send es) c)) \<and> ready (snd (call_all (map send es) c)) \<and>
    length (outbox (snd (call_all (map send es) c))) = length (outbox c) + length es"
  using assms
proof (induction es arbitrary: c)
  case (Cons e es)
  have e: "msg_ok e" "fits e" and ok: "fst (send e c) = Ok ()"
    using Cons.prems send_result [of c e] by simp_all
  show ?case
    using Cons.IH [of "snd (send e c)"] Cons.prems ok
      send_inv [OF Cons.prems(1) e(1)] send_ready [OF Cons.prems(2), of e] outbox_send [OF Cons.prems(1) e(1)]
    by simp
qed simp

lemma send_until_full:
  assumes "inv c" "ready c" "\<forall>e\<in>set es. msg_ok e \<and> fits e" "length (outbox c) + length es = cap"
    and "msg_ok e" "fits e"
  shows "fst (call_all (map send (es @ [e])) c) = replicate (length es) (Ok ()) @ [Err full]"
  using send_batch [OF assms(1-3)] send_result [of "snd (call_all (map send es) c)" e] assms(4-6)
  by (simp add: call_all_append)

end

end
