(* ===== verification/IpcChannel.thy ===== *)
theory IpcChannel
  imports IpcBridge Channel
begin

text \<open>
  The shared-memory link as a whole: \<open>IpcBridge_Send\<close> as the sender of a bounded channel, the
  contract under which the other components send events; and the interleavings of the producing core with the
  consuming core, which is not part of the sources and is represented by the one thing the
  layout allows it to do, to take the oldest slot by advancing \<open>tail\<close>.
\<close>

section \<open>The ring as a channel\<close>

interpretation ipc_channel: event_channel IpcBridge_Send event_wf bridge_wf br_pending
    "\<lambda>b. ipc_slot (br_seqCounter b)"
  by unfold_locales (auto simp: Send_wf Send_Ok(4) dest: Send_error_unchanged)

interpretation ipc_bounded: bounded_channel IpcBridge_Send event_wf bridge_wf br_pending
    "\<lambda>b. ipc_slot (br_seqCounter b)" "\<lambda>e. unat (ev_payloadLen e) \<le> 128" br_initialised 31 kIpcBufferFull
proof unfold_locales
  fix b e
  show "br_initialised b \<Longrightarrow> br_initialised (snd (IpcBridge_Send e b))"
    by (auto simp: IpcBridge_Send_def ApplyE2eHeader_def Let_def split: option.split)
qed (simp add: Send_result)

section \<open>Producer and consumer\<close>

text \<open>
  \<open>sent\<close> and \<open>taken\<close> are the history of the link: the events whose \<open>Send\<close> returned \<open>Ok\<close>
  and the slots the other core took.
\<close>

record ipc_link =
  lk_bridge :: IpcBridge
  lk_sent :: "SoaEvent list"
  lk_taken :: "IpcSlot list"

inductive ipc_step :: "ipc_link \<Rightarrow> ipc_link \<Rightarrow> bool" where
  produce: "event_wf e \<Longrightarrow> IpcBridge_Send e (lk_bridge s) = (r, b') \<Longrightarrow>
    ipc_step s (s\<lparr>lk_bridge := b', lk_sent := lk_sent s @ (if res_ok r then [e] else [])\<rparr>)"
| consume: "br_ring (lk_bridge s) = Some r \<Longrightarrow> rb_tail r \<noteq> rb_head r \<Longrightarrow>
    ipc_step s (s\<lparr>lk_bridge := (lk_bridge s)\<lparr>br_ring :=
                     Some (r\<lparr>rb_tail := u32_mask_next kIpcRingSlotMask (rb_tail r)\<rparr>)\<rparr>,
                  lk_taken := lk_taken s @ [rb_slots r ! unat (rb_tail r)]\<rparr>)"

inductive_cases ipc_stepE: "ipc_step s s'"

definition link_start :: "IpcBridge \<Rightarrow> ipc_link" where
  "link_start b = \<lparr>lk_bridge = b, lk_sent = [], lk_taken = []\<rparr>"

text \<open>The slots a sequence of accepted events becomes: the counter is the index modulo 256.\<close>

definition stamps :: "SoaEvent list \<Rightarrow> IpcSlot list" where
  "stamps es = map (\<lambda>i. ipc_slot (word_of_nat i) (es ! i)) [0..<length es]"

lemma stamps_Nil [simp]: "stamps [] = []"
  by (simp add: stamps_def)

lemma length_stamps [simp]: "length (stamps es) = length es"
  by (simp add: stamps_def)

lemma stamps_snoc: "stamps (es @ [e]) = stamps es @ [ipc_slot (word_of_nat (length es)) e]"
  by (simp add: stamps_def nth_append)

lemma stamps_nth: "i < length es \<Longrightarrow> stamps es ! i = ipc_slot (word_of_nat i) (es ! i)"
  by (simp add: stamps_def)

definition link_inv :: "ipc_link \<Rightarrow> bool" where
  "link_inv s \<longleftrightarrow> bridge_wf (lk_bridge s) \<and> br_initialised (lk_bridge s) \<and>
     br_seqCounter (lk_bridge s) = word_of_nat (length (lk_sent s)) \<and>
     lk_taken s @ br_pending (lk_bridge s) = stamps (lk_sent s) \<and>
     list_all (\<lambda>e. event_wf e \<and> unat (ev_payloadLen e) \<le> 128) (lk_sent s)"

lemma link_inv_start: "IpcBridge_Init b0 = (Ok (), b) \<Longrightarrow> link_inv (link_start b)"
  using Init_empty [of b0 b] by (simp add: link_inv_def link_start_def)

lemma link_inv_produce:
  assumes "link_inv s" "event_wf e" "IpcBridge_Send e (lk_bridge s) = (r, b')"
  shows "link_inv (s\<lparr>lk_bridge := b', lk_sent := lk_sent s @ (if res_ok r then [e] else [])\<rparr>)"
proof (cases r)
  case (Ok u)
  then have send: "IpcBridge_Send e (lk_bridge s) = (Ok (), b')" using assms(3) by simp
  have wf: "bridge_wf (lk_bridge s)" using assms(1) by (simp add: link_inv_def)
  show ?thesis
    using Send_Ok [OF wf assms(2) send] assms Ok
    by (simp add: link_inv_def stamps_snoc flip: append_assoc)
next
  case (Err x)
  then show ?thesis
    using assms Send_error_unchanged [of e "lk_bridge s" x b'] by (cases s) simp
qed

lemma br_pending_take:
  assumes "ring_wf r" "rb_tail r \<noteq> rb_head r"
  shows "ring_pending r = rb_slots r ! unat (rb_tail r) #
      ring_pending (r\<lparr>rb_tail := u32_mask_next kIpcRingSlotMask (rb_tail r)\<rparr>)"
  using assms ipc_ring.queue_deq [of "rb_tail r" "rb_head r" "rb_slots r"]
  by (simp add: ring_pending_queue ring_wf_def)

lemma link_inv_consume:
  assumes "link_inv s" "br_ring (lk_bridge s) = Some r" "rb_tail r \<noteq> rb_head r"
  shows "link_inv (s\<lparr>lk_bridge := (lk_bridge s)\<lparr>br_ring :=
                     Some (r\<lparr>rb_tail := u32_mask_next kIpcRingSlotMask (rb_tail r)\<rparr>)\<rparr>,
                  lk_taken := lk_taken s @ [rb_slots r ! unat (rb_tail r)]\<rparr>)"
proof -
  have wf: "ring_wf r" using assms by (simp add: link_inv_def bridge_wf_def)
  then have "ring_wf (r\<lparr>rb_tail := u32_mask_next kIpcRingSlotMask (rb_tail r)\<rparr>)"
    using ipc_ring.pos_next_less [of "rb_tail r"] by (simp add: ring_wf_def)
  then show ?thesis
    using assms br_pending_take [OF wf assms(3)]
    by (simp add: link_inv_def bridge_wf_def br_pending_def)
qed

lemma link_inv_step: "ipc_step s s' \<Longrightarrow> link_inv s \<Longrightarrow> link_inv s'"
  using link_inv_produce [of s] link_inv_consume [of s] by (auto elim!: ipc_stepE)

lemma link_inv_reachable:
  assumes "ipc_step\<^sup>*\<^sup>* (link_start b) s" "IpcBridge_Init b0 = (Ok (), b)"
  shows "link_inv s"
  using assms(1) by induction (use assms(2) in \<open>auto intro: link_inv_start link_inv_step\<close>)

lemma pending_less_32: "length (br_pending b) \<le> 31"
  using ipc_ring.length_queue_less
  by (auto simp: br_pending_def ring_pending_queue less_Suc_eq_le numeral_eq_Suc split: option.split)

lemma link_takenD:
  assumes "link_inv s" "i < length (lk_taken s)"
  shows "i < length (lk_sent s)" "lk_taken s ! i = ipc_slot (word_of_nat i) (lk_sent s ! i)"
proof -
  have eq: "lk_taken s @ br_pending (lk_bridge s) = stamps (lk_sent s)"
    using assms(1) by (simp add: link_inv_def)
  then show lt: "i < length (lk_sent s)"
    using assms(2) by (metis length_append length_stamps trans_less_add1)
  show "lk_taken s ! i = ipc_slot (word_of_nat i) (lk_sent s ! i)"
    using arg_cong [OF eq, of "\<lambda>xs. xs ! i"] assms(2) lt by (simp add: nth_append stamps_nth)
qed

end
