(* ===== verification/Float32.thy ===== *)
theory Float32
  imports Prelude
begin

text \<open>
  The C++ type \<open>float\<close> as its IEEE-754 binary32 bit pattern. Only the operations the
  gateway uses are defined: the comparisons \<open><\<close> and \<open>>\<close>, negation, and the product of
  two normal numbers rounded to nearest-even, which the compiler folds for the deceleration
  limits. Values are measured in units of \<open>2 ^ -149\<close>, the smallest subnormal, so every finite
  pattern denotes an integer and comparison is comparison of integers; an infinity is given
  the magnitude next above the largest finite one.
\<close>

type_synonym float32 = u32

definition f32_exp :: "float32 \<Rightarrow> nat" where
  "f32_exp x = unat (drop_bit 23 x AND 0xFF)"

definition f32_man :: "float32 \<Rightarrow> nat" where
  "f32_man x = unat (x AND 0x7FFFFF)"

definition f32_neg_sign :: "float32 \<Rightarrow> bool" where
  "f32_neg_sign x = bit x 31"

definition f32_is_nan :: "float32 \<Rightarrow> bool" where
  "f32_is_nan x \<longleftrightarrow> f32_exp x = 255 \<and> f32_man x \<noteq> 0"

definition f32_mag :: "float32 \<Rightarrow> nat" where
  "f32_mag x = (if f32_exp x = 0 then f32_man x else (2 ^ 23 + f32_man x) * 2 ^ (f32_exp x - 1))"

definition f32_val :: "float32 \<Rightarrow> int" where
  "f32_val x = (if f32_neg_sign x then - int (f32_mag x) else int (f32_mag x))"

text \<open>\<open>a < b\<close> of C++: false when either operand is a NaN.\<close>

definition f32_lt :: "float32 \<Rightarrow> float32 \<Rightarrow> bool" where
  "f32_lt a b \<longleftrightarrow> \<not> f32_is_nan a \<and> \<not> f32_is_nan b \<and> f32_val a < f32_val b"

definition f32_gt :: "float32 \<Rightarrow> float32 \<Rightarrow> bool" where
  "f32_gt a b = f32_lt b a"

definition f32_neg :: "float32 \<Rightarrow> float32" where
  "f32_neg x = x XOR 0x80000000"

definition f32_zero :: float32 where "f32_zero = 0"

text \<open>
  Product of two positive normal numbers whose product is normal, rounded to nearest, ties to
  even: the 48-bit product of the significands is cut to 24 bits.
\<close>

definition f32_mul_pos :: "float32 \<Rightarrow> float32 \<Rightarrow> float32" where
  "f32_mul_pos a b =
     (let p = (2 ^ 23 + f32_man a) * (2 ^ 23 + f32_man b);
          e = f32_exp a + f32_exp b - 127;
          s = (if p < 2 ^ 47 then 23 else 24 :: nat);
          q = p div 2 ^ s; r = p mod 2 ^ s;
          up = (2 ^ (s - 1) < r \<or> r = 2 ^ (s - 1) \<and> odd q);
          q' = (if up then q + 1 else q);
          e' = (if s = 24 then e + 1 else e);
          (qn, en) = (if q' = 2 ^ 24 then (2 ^ 23, e' + 1) else (q', e'))
      in word_of_nat (en * 2 ^ 23 + (qn - 2 ^ 23)))"

section \<open>Comparison and absolute value\<close>

lemma bit_sign_mask: "bit (0x80000000 :: u32) n \<longleftrightarrow> n = 31"
proof -
  have eq: "(0x80000000 :: u32) = 2 ^ 31" by simp
  show ?thesis unfolding eq bit_exp_iff by auto
qed

lemma f32_neg_exp [simp]: "f32_exp (f32_neg x) = f32_exp x"
proof -
  have "drop_bit 23 (f32_neg x) AND mask 8 = drop_bit 23 x AND mask 8"
    by (rule bit_word_eqI)
      (unfold f32_neg_def bit_and_iff bit_drop_bit_eq o_def bit_xor_iff bit_sign_mask bit_mask_iff,
       auto)
  then show ?thesis by (simp add: f32_exp_def mask_eq_exp_minus_1)
qed

lemma f32_neg_man [simp]: "f32_man (f32_neg x) = f32_man x"
proof -
  have "f32_neg x AND mask 23 = x AND mask 23"
    by (rule bit_word_eqI)
      (unfold f32_neg_def bit_and_iff bit_xor_iff bit_sign_mask bit_mask_iff, auto)
  then show ?thesis by (simp add: f32_man_def mask_eq_exp_minus_1)
qed

lemma f32_neg_sign_neg [simp]: "f32_neg_sign (f32_neg x) \<longleftrightarrow> \<not> f32_neg_sign x"
  by (simp add: f32_neg_sign_def f32_neg_def bit_xor_iff bit_sign_mask)

lemma f32_neg_nan [simp]: "f32_is_nan (f32_neg x) = f32_is_nan x"
  by (simp add: f32_is_nan_def)

lemma f32_neg_mag [simp]: "f32_mag (f32_neg x) = f32_mag x"
  by (simp add: f32_mag_def)

lemma f32_neg_val [simp]: "f32_val (f32_neg x) = - f32_val x"
  by (simp add: f32_val_def)

lemma f32_zero_facts [simp]:
  "f32_val f32_zero = 0" "\<not> f32_is_nan f32_zero"
  by (simp_all add: f32_val_def f32_mag_def f32_is_nan_def f32_exp_def f32_man_def f32_zero_def)

lemma f32_lt_nan [simp]: "f32_is_nan a \<Longrightarrow> \<not> f32_lt a b" "f32_is_nan b \<Longrightarrow> \<not> f32_lt a b"
  by (simp_all add: f32_lt_def)

text \<open>\<open>(x < 0) ? -x : x\<close>\<close>

definition f32_abs :: "float32 \<Rightarrow> float32" where
  "f32_abs x = (if f32_lt x f32_zero then f32_neg x else x)"

lemma f32_abs_nan [simp]: "f32_is_nan (f32_abs x) = f32_is_nan x"
  by (simp add: f32_abs_def)

lemma f32_abs_val: "\<not> f32_is_nan x \<Longrightarrow> f32_val (f32_abs x) = \<bar>f32_val x\<bar>"
  by (simp add: f32_abs_def f32_lt_def)

end
