(* ===== verification/SafetyTypes.thy ===== *)
theory SafetyTypes
  imports IpcChannel Float32
begin

text \<open>
  \<open>include/SafetyArbitrator.hpp\<close>: the constants of the physical envelope, the sensor domains
  and health values, the safe states with their severity order, the command and the
  transition record, and the state of the class \<open>SafetyArbitrator\<close>. Domains and health values
  arrive as raw bytes that are cast to the enumerations, so they stay bytes here.
\<close>

section \<open>Envelope constants\<close>

definition kMaxSteeringAngleDeg :: float32 where "kMaxSteeringAngleDeg = 0x44070000"
definition kMaxFrictionCoeff :: float32 where "kMaxFrictionCoeff = 0x3F866666"
definition kMinFrictionCoeff :: float32 where "kMinFrictionCoeff = 0x3DCCCCCD"
definition kMaxLateralAccelMps2 :: float32 where "kMaxLateralAccelMps2 = 0x41080000"
definition kMaxLongitudinalDecelMps2 :: float32 where "kMaxLongitudinalDecelMps2 = 0x411CF5C3"
definition kMrcMaxSpeedKph :: float32 where "kMrcMaxSpeedKph = 0x41A00000"
definition kDegradedMaxSpeedKph :: float32 where "kDegradedMaxSpeedKph = 0x41F00000"
definition kSafeStateTransitionMs :: u32 where [simp]: "kSafeStateTransitionMs = 50"
definition kMrcPullOverTimeMs :: u32 where [simp]: "kMrcPullOverTimeMs = 10000"
definition kSensorTimeoutMs :: u32 where [simp]: "kSensorTimeoutMs = 100"
definition kFaultThreshold :: u8 where [simp]: "kFaultThreshold = 3"
definition kMaxSensorDomains :: nat where [simp]: "kMaxSensorDomains = 8"
definition kMaxArbitratorListeners :: nat where [simp]: "kMaxArbitratorListeners = 8"
definition kArbitratorMagic :: u32 where "kArbitratorMagic = 0x5AFE0001"
definition kMaxTransitionLog :: nat where [simp]: "kMaxTransitionLog = 32"

section \<open>Enumerations\<close>

type_synonym SensorDomain = u8
definition kLidar :: SensorDomain where [simp]: "kLidar = 0"
definition kRadar :: SensorDomain where [simp]: "kRadar = 1"
definition kCamera :: SensorDomain where [simp]: "kCamera = 2"
definition kGnss :: SensorDomain where [simp]: "kGnss = 3"
definition kImu :: SensorDomain where [simp]: "kImu = 4"
definition kV2X :: SensorDomain where [simp]: "kV2X = 5"
definition kUss :: SensorDomain where [simp]: "kUss = 6"
definition kInvalid :: SensorDomain where [simp]: "kInvalid = 7"
definition kNumSensorDomains :: u8 where [simp]: "kNumSensorDomains = 7"

type_synonym SensorHealth = u8
definition kNominal :: SensorHealth where [simp]: "kNominal = 0"
definition kDegraded :: SensorHealth where [simp]: "kDegraded = 1"
definition kFailed :: SensorHealth where [simp]: "kFailed = 2"
definition kHealthUnknown :: SensorHealth where [simp]: "kHealthUnknown = 3"

datatype SafeState =
    kFullOperation | kRadarCameraFallback | kLidarCameraFallback | kLidarRadarFallback
  | kDeadReckoningMode | kReducedDynamics | kMinimalRiskCondition | kEmergencyStop

fun SafeState_num :: "SafeState \<Rightarrow> u8" where
  "SafeState_num kFullOperation = 0"
| "SafeState_num kRadarCameraFallback = 1"
| "SafeState_num kLidarCameraFallback = 2"
| "SafeState_num kLidarRadarFallback = 3"
| "SafeState_num kDeadReckoningMode = 4"
| "SafeState_num kReducedDynamics = 5"
| "SafeState_num kMinimalRiskCondition = 6"
| "SafeState_num kEmergencyStop = 7"

lemma SafeState_num_inj [enum_simps]: "SafeState_num s = SafeState_num t \<longleftrightarrow> s = t"
  by (cases s; cases t; simp)

text \<open>The states are ordered by severity, their numeric value.\<close>

instantiation SafeState :: linorder
begin

definition less_eq_SafeState :: "SafeState \<Rightarrow> SafeState \<Rightarrow> bool" where
  "less_eq_SafeState s t \<longleftrightarrow> SafeState_num s \<le> SafeState_num t"

definition less_SafeState :: "SafeState \<Rightarrow> SafeState \<Rightarrow> bool" where
  "less_SafeState s t \<longleftrightarrow> SafeState_num s < SafeState_num t"

instance
  by intro_classes
    (auto simp: less_eq_SafeState_def less_SafeState_def SafeState_num_inj dest: order_antisym)

end

lemmas severity_simps = less_eq_SafeState_def less_SafeState_def

section \<open>Messages and records\<close>

text \<open>The four reserved bytes of a fault event, which nothing writes or reads, are left out.\<close>

record SensorFaultEvent =
  fe_domain :: SensorDomain
  fe_health :: SensorHealth
  fe_timestampMs :: u32
  fe_faultCode :: u32

record SafeStateCommand =
  cmd_magic :: u32
  cmd_state :: SafeState
  cmd_activeDomains :: u8
  cmd_faultBitmask :: u8
  cmd_reserved :: u8
  cmd_maxSpeedKph :: float32
  cmd_maxDecelMps2 :: float32
  cmd_transitionMs :: u32
  cmd_sequenceNum :: u32

definition f32_130 :: float32 where "f32_130 = 0x43020000"
definition f32_100 :: float32 where "f32_100 = 0x42C80000"
definition f32_0_7 :: float32 where "f32_0_7 = 0x3F333333"
definition f32_0_5 :: float32 where "f32_0_5 = 0x3F000000"
definition f32_0_3 :: float32 where "f32_0_3 = 0x3E99999A"

definition SafeStateCommand_default :: SafeStateCommand where
  "SafeStateCommand_default =
     \<lparr>cmd_magic = kArbitratorMagic, cmd_state = kFullOperation, cmd_activeDomains = 0xFF,
      cmd_faultBitmask = 0, cmd_reserved = 0, cmd_maxSpeedKph = f32_130,
      cmd_maxDecelMps2 = kMaxLongitudinalDecelMps2, cmd_transitionMs = 0, cmd_sequenceNum = 0\<rparr>"

record DomainState =
  dom_domain :: SensorDomain
  dom_health :: SensorHealth
  dom_lastHeartbeat :: u64
  dom_faultCount :: u32
  dom_dtcCode :: u32
  dom_mandatory :: bool

definition DomainState_default :: DomainState where
  "DomainState_default =
     \<lparr>dom_domain = kInvalid, dom_health = kHealthUnknown, dom_lastHeartbeat = 0,
      dom_faultCount = 0, dom_dtcCode = 0, dom_mandatory = False\<rparr>"

record SafeStateTransition =
  tr_fromState :: SafeState
  tr_toState :: SafeState
  tr_triggerDomain :: SensorDomain
  tr_timestampMs :: u64
  tr_transitionMs :: u32
  tr_sequenceNum :: u32

definition SafeStateTransition_default :: SafeStateTransition where
  "SafeStateTransition_default =
     \<lparr>tr_fromState = kFullOperation, tr_toState = kEmergencyStop, tr_triggerDomain = kInvalid,
      tr_timestampMs = 0, tr_transitionMs = 0, tr_sequenceNum = 0\<rparr>"

section \<open>The arbitrator\<close>

text \<open>\<open>'l\<close> is the type of listener addresses.\<close>

record 'l SafetyArbitrator =
  arb_ipc :: "IpcBridge option"
  arb_domains :: "DomainState list"
  arb_currentState :: SafeState
  arb_faultBitmask :: u8
  arb_activeBitmask :: u8
  arb_sequenceNum :: u32
  arb_transitionCount :: u32
  arb_mandatoryMask :: u8
  arb_lastCommand :: SafeStateCommand
  arb_transitionLog :: "SafeStateTransition list"
  arb_logHead :: u8
  arb_listeners :: "'l option list"
  arb_listenerCount :: u8
  arb_initialised :: bool

definition SafetyArbitrator_new :: "IpcBridge option \<Rightarrow> 'l SafetyArbitrator" where
  "SafetyArbitrator_new ipc =
     \<lparr>arb_ipc = ipc, arb_domains = replicate kMaxSensorDomains DomainState_default,
      arb_currentState = kFullOperation, arb_faultBitmask = 0, arb_activeBitmask = 0xFF,
      arb_sequenceNum = 0, arb_transitionCount = 0, arb_mandatoryMask = 0,
      arb_lastCommand = SafeStateCommand_default,
      arb_transitionLog = replicate kMaxTransitionLog SafeStateTransition_default,
      arb_logHead = 0, arb_listeners = replicate kMaxArbitratorListeners None,
      arb_listenerCount = 0, arb_initialised = False\<rparr>"

text \<open>The row that \<open>Init\<close> writes for domain \<open>i\<close>.\<close>

definition init_domain :: "u8 \<Rightarrow> u64 \<Rightarrow> nat \<Rightarrow> DomainState" where
  "init_domain mandatoryDomains nowMs i =
     \<lparr>dom_domain = word_of_nat i, dom_health = kHealthUnknown, dom_lastHeartbeat = nowMs,
      dom_faultCount = 0, dom_dtcCode = 0,
      dom_mandatory = (drop_bit i mandatoryDomains AND 0x01 \<noteq> 0)\<rparr>"

definition SafetyArbitrator_Init :: "u8 \<Rightarrow> u64 \<Rightarrow> 'l SafetyArbitrator \<Rightarrow> VoidResult \<times> 'l SafetyArbitrator" where
  "SafetyArbitrator_Init mandatoryDomains nowMs a =
     (if arb_initialised a then (Err kAlreadyRegistered, a)
      else if arb_ipc a = None then (Err kNullPointer, a)
      else (Ok (), a\<lparr>arb_mandatoryMask := mandatoryDomains, arb_listenerCount := 0,
                     arb_logHead := 0, arb_sequenceNum := 0, arb_transitionCount := 0,
                     arb_currentState := kFullOperation, arb_faultBitmask := 0,
                     arb_activeBitmask := 0xFF,
                     arb_domains := map (init_domain mandatoryDomains nowMs) [0..<kMaxSensorDomains],
                     arb_lastCommand :=
                       \<lparr>cmd_magic = kArbitratorMagic, cmd_state = kFullOperation,
                        cmd_activeDomains = 0xFF, cmd_faultBitmask = 0x00, cmd_reserved = 0,
                        cmd_maxSpeedKph = f32_130, cmd_maxDecelMps2 = kMaxLongitudinalDecelMps2,
                        cmd_transitionMs = 0, cmd_sequenceNum = 0\<rparr>,
                     arb_initialised := True\<rparr>))"

definition RegisterListener :: "'l option \<Rightarrow> 'l SafetyArbitrator \<Rightarrow> VoidResult \<times> 'l SafetyArbitrator" where
  "RegisterListener listener a =
     (if \<not> arb_initialised a then (Err kNotInitialized, a)
      else if listener = None then (Err kNullPointer, a)
      else if unat (arb_listenerCount a) \<ge> kMaxArbitratorListeners then (Err kRegistryFull, a)
      else (Ok (), a\<lparr>arb_listeners := (arb_listeners a)[unat (arb_listenerCount a) := listener],
                     arb_listenerCount := arb_listenerCount a + 1\<rparr>))"

section \<open>Physical envelope validators\<close>

definition ValidateSteeringAngle :: "float32 \<Rightarrow> VoidResult" where
  "ValidateSteeringAngle angleDeg =
     (let absAngle = (if f32_lt angleDeg f32_zero then f32_neg angleDeg else angleDeg)
      in if f32_gt absAngle kMaxSteeringAngleDeg then Err kInvalidArgument else Ok ())"

definition ValidateFrictionCoeff :: "float32 \<Rightarrow> VoidResult" where
  "ValidateFrictionCoeff mu =
     (if f32_lt mu kMinFrictionCoeff \<or> f32_gt mu kMaxFrictionCoeff then Err kInvalidArgument
      else Ok ())"

definition ValidateDeceleration :: "float32 \<Rightarrow> VoidResult" where
  "ValidateDeceleration decelMps2 =
     (let absDecel = (if f32_lt decelMps2 f32_zero then f32_neg decelMps2 else decelMps2)
      in if f32_gt absDecel kMaxLongitudinalDecelMps2 then Err kInvalidArgument else Ok ())"

definition ValidateLateralAccel :: "float32 \<Rightarrow> VoidResult" where
  "ValidateLateralAccel accelMps2 =
     (let absAccel = (if f32_lt accelMps2 f32_zero then f32_neg accelMps2 else accelMps2)
      in if f32_gt absAccel kMaxLateralAccelMps2 then Err kInvalidArgument else Ok ())"

lemma abs_bound_iff:
  assumes "\<not> f32_is_nan lim"
  shows "f32_gt (if f32_lt x f32_zero then f32_neg x else x) lim \<longleftrightarrow>
    \<not> f32_is_nan x \<and> \<bar>f32_val x\<bar> > f32_val lim"
proof (cases "f32_is_nan x")
  case False
  then show ?thesis
    using assms f32_abs_val [OF False] by (simp add: f32_abs_def [symmetric] f32_gt_def f32_lt_def)
qed (simp add: f32_gt_def)

lemma envelope_not_nan [simp]:
  "\<not> f32_is_nan kMaxSteeringAngleDeg" "\<not> f32_is_nan kMaxFrictionCoeff"
  "\<not> f32_is_nan kMinFrictionCoeff" "\<not> f32_is_nan kMaxLateralAccelMps2"
  "\<not> f32_is_nan kMaxLongitudinalDecelMps2"
  by (simp_all add: f32_is_nan_def f32_exp_def f32_man_def kMaxSteeringAngleDeg_def
      kMaxFrictionCoeff_def kMinFrictionCoeff_def kMaxLateralAccelMps2_def
      kMaxLongitudinalDecelMps2_def)

lemma if_Err_Ok_iff: "(if P then Err e else Ok ()) = Ok () \<longleftrightarrow> \<not> P"
  by simp

lemma ValidateSteeringAngle_iff:
  "ValidateSteeringAngle x = Ok () \<longleftrightarrow> f32_is_nan x \<or> \<bar>f32_val x\<bar> \<le> f32_val kMaxSteeringAngleDeg"
  unfolding ValidateSteeringAngle_def Let_def if_Err_Ok_iff abs_bound_iff [OF envelope_not_nan(1)]
  by auto

lemma ValidateDeceleration_iff:
  "ValidateDeceleration x = Ok () \<longleftrightarrow> f32_is_nan x \<or> \<bar>f32_val x\<bar> \<le> f32_val kMaxLongitudinalDecelMps2"
  unfolding ValidateDeceleration_def Let_def if_Err_Ok_iff abs_bound_iff [OF envelope_not_nan(5)]
  by auto

lemma ValidateLateralAccel_iff:
  "ValidateLateralAccel x = Ok () \<longleftrightarrow> f32_is_nan x \<or> \<bar>f32_val x\<bar> \<le> f32_val kMaxLateralAccelMps2"
  unfolding ValidateLateralAccel_def Let_def if_Err_Ok_iff abs_bound_iff [OF envelope_not_nan(4)]
  by auto

lemma ValidateFrictionCoeff_iff:
  "ValidateFrictionCoeff x = Ok () \<longleftrightarrow> f32_is_nan x \<or>
     f32_val kMinFrictionCoeff \<le> f32_val x \<and> f32_val x \<le> f32_val kMaxFrictionCoeff"
  unfolding ValidateFrictionCoeff_def if_Err_Ok_iff by (auto simp: f32_gt_def f32_lt_def)

end
