(* ===== verification/SafetyMatrix.thy ===== *)
theory SafetyMatrix
  imports SafetyTypes
begin

text \<open>
  \<open>src/SafetyArbitrator.cpp\<close>, the input side: fault events, heartbeats, the decoding of SOME/IP
  sensor-health events, the timeout scan, the bitmasks and the degradation matrix. Each clock
  reading is an argument.
\<close>

section \<open>Ingestion\<close>

definition update_domain :: "nat \<Rightarrow> (DomainState \<Rightarrow> DomainState) \<Rightarrow> 'l SafetyArbitrator \<Rightarrow> 'l SafetyArbitrator" where
  "update_domain i f a = a\<lparr>arb_domains := (arb_domains a)[i := f (arb_domains a ! i)]\<rparr>"

definition IngestFault :: "SensorFaultEvent \<Rightarrow> u64 \<Rightarrow> 'l SafetyArbitrator \<Rightarrow> VoidResult \<times> 'l SafetyArbitrator" where
  "IngestFault fault nowMs a =
     (if \<not> arb_initialised a then (Err kNotInitialized, a)
      else
        let domIdx = fe_domain fault
        in if domIdx \<ge> kNumSensorDomains then (Err kInvalidArgument, a)
           else (Ok (), update_domain (unat domIdx)
             (\<lambda>dom.
                let dom1 = dom\<lparr>dom_health := fe_health fault, dom_dtcCode := fe_faultCode fault\<rparr>
                in if fe_health fault = kNominal
                   then dom1\<lparr>dom_faultCount := 0, dom_lastHeartbeat := nowMs\<rparr>
                   else dom1\<lparr>dom_faultCount := dom_faultCount dom1 + 1\<rparr>) a))"

definition RecordHeartbeat :: "SensorDomain \<Rightarrow> u64 \<Rightarrow> 'l SafetyArbitrator \<Rightarrow> VoidResult \<times> 'l SafetyArbitrator" where
  "RecordHeartbeat domain nowMs a =
     (if \<not> arb_initialised a then (Err kNotInitialized, a)
      else if domain \<ge> kNumSensorDomains then (Err kInvalidArgument, a)
      else (Ok (), update_domain (unat domain)
             (\<lambda>dom.
                let dom1 = dom\<lparr>dom_lastHeartbeat := nowMs\<rparr>
                in if dom_faultCount dom1 = 0 then dom1\<lparr>dom_health := kNominal\<rparr> else dom1) a))"

text \<open>The fault event a payload of at least 12 bytes encodes.\<close>

definition decode_fault :: "u8 list \<Rightarrow> SensorFaultEvent" where
  "decode_fault p =
     \<lparr>fe_domain = p ! 0, fe_health = p ! 1,
      fe_timestampMs = read_le32 (p ! 8) (p ! 9) (p ! 10) (p ! 11),
      fe_faultCode = read_le32 (p ! 4) (p ! 5) (p ! 6) (p ! 7)\<rparr>"

definition IngestSoaEvent :: "SoaEvent \<Rightarrow> u64 \<Rightarrow> 'l SafetyArbitrator \<Rightarrow> VoidResult \<times> 'l SafetyArbitrator" where
  "IngestSoaEvent event nowMs a =
     (if \<not> arb_initialised a then (Err kNotInitialized, a)
      else if ev_payloadLen event < 12 then (Err kInvalidArgument, a)
      else IngestFault (decode_fault (ev_payload event)) nowMs a)"

text \<open>\<open>InjectFault\<close> reads the clock itself before \<open>IngestFault\<close> does.\<close>

definition InjectFault :: "SensorDomain \<Rightarrow> SensorHealth \<Rightarrow> u32 \<Rightarrow> u64 \<Rightarrow> u64 \<Rightarrow>
    'l SafetyArbitrator \<Rightarrow> VoidResult \<times> 'l SafetyArbitrator" where
  "InjectFault domain health dtcCode stampMs nowMs a =
     IngestFault \<lparr>fe_domain = domain, fe_health = health, fe_timestampMs = ucast stampMs,
       fe_faultCode = dtcCode\<rparr> nowMs a"

section \<open>Timeout scan and bitmasks\<close>

definition scan_domain :: "u64 \<Rightarrow> DomainState \<Rightarrow> DomainState" where
  "scan_domain nowMs d =
     (let lastBeat = dom_lastHeartbeat d
      in if nowMs < lastBeat then d
         else
           let ageMs = nowMs - lastBeat
           in if ageMs > ucast kSensorTimeoutMs then
                if dom_health d \<noteq> kFailed
                then d\<lparr>dom_health := kFailed, dom_faultCount := dom_faultCount d + 1\<rparr>
                else d
              else d)"

definition ScanTimeouts :: "u64 \<Rightarrow> 'l SafetyArbitrator \<Rightarrow> 'l SafetyArbitrator" where
  "ScanTimeouts nowMs a =
     fold (\<lambda>i. update_domain i (scan_domain nowMs)) [0..<kMaxSensorDomains] a"

definition mask_step :: "DomainState list \<Rightarrow> nat \<Rightarrow> u8 \<times> u8 \<Rightarrow> u8 \<times> u8" where
  "mask_step doms i acc =
     (let h = dom_health (doms ! i); (faults, actives) = acc
      in if h = kNominal then (faults, actives OR push_bit i 1)
         else if h = kFailed then (faults OR push_bit i 1, actives)
         else (faults, actives))"

definition UpdateBitmasks :: "'l SafetyArbitrator \<Rightarrow> 'l SafetyArbitrator" where
  "UpdateBitmasks a =
     (let (faults, actives) = fold (mask_step (arb_domains a)) [0..<kMaxSensorDomains] (0, 0)
      in a\<lparr>arb_faultBitmask := faults, arb_activeBitmask := actives\<rparr>)"

section \<open>Degradation matrix\<close>

definition IsFailed :: "u8 \<Rightarrow> SensorDomain \<Rightarrow> bool" where
  "IsFailed faults d \<longleftrightarrow> faults AND push_bit (unat d) 1 \<noteq> 0"

text \<open>Some mandatory domain has counted at least \<open>kFaultThreshold\<close> fault ticks.\<close>

definition mandatory_over_threshold :: "'l SafetyArbitrator \<Rightarrow> bool" where
  "mandatory_over_threshold a =
     list_ex (\<lambda>i. drop_bit i (arb_mandatoryMask a) AND 0x01 \<noteq> 0 \<and>
                  dom_faultCount (arb_domains a ! i) \<ge> ucast kFaultThreshold) [0..<kMaxSensorDomains]"

definition ComputeRequiredState :: "'l SafetyArbitrator \<Rightarrow> SafeState" where
  "ComputeRequiredState a =
     (let faults = arb_faultBitmask a;
          lidarFailed = IsFailed faults kLidar;
          radarFailed = IsFailed faults kRadar;
          cameraFailed = IsFailed faults kCamera;
          gnssFailed = IsFailed faults kGnss;
          imuFailed = IsFailed faults kImu;
          mandatoryFaults = faults AND arb_mandatoryMask a
      in if lidarFailed \<and> radarFailed then kMinimalRiskCondition
         else if mandatoryFaults \<noteq> 0 \<and> mandatory_over_threshold a then kMinimalRiskCondition
         else if lidarFailed \<and> \<not> radarFailed then kRadarCameraFallback
         else if radarFailed \<and> \<not> lidarFailed then kLidarCameraFallback
         else if cameraFailed then kLidarRadarFallback
         else if gnssFailed \<and> \<not> imuFailed then kDeadReckoningMode
         else if imuFailed then kReducedDynamics
         else kFullOperation)"

section \<open>Observers\<close>

definition GetCurrentState :: "'l SafetyArbitrator \<Rightarrow> SafeState" where
  "GetCurrentState a = arb_currentState a"

definition GetDomainHealth :: "SensorDomain \<Rightarrow> 'l SafetyArbitrator \<Rightarrow> SensorHealth" where
  "GetDomainHealth domain a =
     (if unat domain \<ge> kMaxSensorDomains then kHealthUnknown
      else dom_health (arb_domains a ! unat domain))"

definition GetFaultBitmask :: "'l SafetyArbitrator \<Rightarrow> u8" where
  "GetFaultBitmask a = arb_faultBitmask a"

definition GetActiveDomainBitmask :: "'l SafetyArbitrator \<Rightarrow> u8" where
  "GetActiveDomainBitmask a = arb_activeBitmask a"

definition GetLastCommand :: "'l SafetyArbitrator \<Rightarrow> SafeStateCommand" where
  "GetLastCommand a = arb_lastCommand a"

definition GetTransitionCount :: "'l SafetyArbitrator \<Rightarrow> u32" where
  "GetTransitionCount a = arb_transitionCount a"

section \<open>The scan and the masks, domain by domain\<close>

lemma update_domain_frame [simp]:
  "arb_ipc (update_domain i f a) = arb_ipc a"
  "arb_currentState (update_domain i f a) = arb_currentState a"
  "arb_mandatoryMask (update_domain i f a) = arb_mandatoryMask a"
  "arb_faultBitmask (update_domain i f a) = arb_faultBitmask a"
  "arb_initialised (update_domain i f a) = arb_initialised a"
  "length (arb_domains (update_domain i f a)) = length (arb_domains a)"
  by (simp_all add: update_domain_def)

lemma update_domain_nth:
  "j < length (arb_domains a) \<Longrightarrow> arb_domains (update_domain i f a) ! j =
     (if i = j then f (arb_domains a ! j) else arb_domains a ! j)"
  by (simp add: update_domain_def nth_list_update)

lemma update_domain_rebuild:
  "update_domain i f (a\<lparr>arb_domains := ds\<rparr>) = a\<lparr>arb_domains := ds[i := f (ds ! i)]\<rparr>"
  by (simp add: update_domain_def)

lemma scan_fold:
  assumes "n \<le> length (arb_domains a)"
  shows "fold (\<lambda>i. update_domain i f) [0..<n] a =
    a\<lparr>arb_domains := map f (take n (arb_domains a)) @ drop n (arb_domains a)\<rparr>"
  using assms
proof (induction n)
  case (Suc n)
  then have "(map f (take n (arb_domains a)) @ drop n (arb_domains a))[n := f (arb_domains a ! n)]
      = map f (take (Suc n) (arb_domains a)) @ drop (Suc n) (arb_domains a)"
    by (simp add: list_update_append take_Suc_conv_app_nth Cons_nth_drop_Suc [symmetric])
  with Suc show ?case
    by (simp add: update_domain_rebuild nth_append)
qed simp

lemma ScanTimeouts_eq:
  "length (arb_domains a) = 8 \<Longrightarrow>
     ScanTimeouts now a = a\<lparr>arb_domains := map (scan_domain now) (arb_domains a)\<rparr>"
  using scan_fold [of 8 a "scan_domain now"] by (simp add: ScanTimeouts_def)

text \<open>A domain has timed out when the clock is more than 100 ms past its last heartbeat.\<close>

definition timed_out :: "u64 \<Rightarrow> DomainState \<Rightarrow> bool" where
  "timed_out now d \<longleftrightarrow> unat (dom_lastHeartbeat d) + 100 < unat now"

lemma scan_domain_eq:
  "scan_domain now d =
     (if timed_out now d \<and> dom_health d \<noteq> kFailed
      then d\<lparr>dom_health := kFailed, dom_faultCount := dom_faultCount d + 1\<rparr> else d)"
proof (cases "now < dom_lastHeartbeat d")
  case True
  then show ?thesis
    by (simp add: scan_domain_def timed_out_def word_less_nat_alt)
next
  case False
  then have "unat (now - dom_lastHeartbeat d) = unat now - unat (dom_lastHeartbeat d)"
    by (simp add: unat_sub)
  moreover have "unat (100 :: u64) = 100" by simp
  ultimately have "(100 :: u64) < now - dom_lastHeartbeat d \<longleftrightarrow> timed_out now d"
    unfolding word_less_nat_alt timed_out_def by linarith
  moreover have "(ucast kSensorTimeoutMs :: u64) = 100" by simp
  ultimately show ?thesis
    using False unfolding scan_domain_def Let_def by auto
qed

lemma bit_u8_exp: "bit (2 ^ i :: u8) n \<longleftrightarrow> n = i \<and> i < 8"
  by (auto simp: bit_exp_iff)

lemma mask_step_bits:
  "bit (fst (mask_step doms n acc)) i \<longleftrightarrow>
     bit (fst acc) i \<or> i = n \<and> n < 8 \<and> dom_health (doms ! n) = kFailed"
  "bit (snd (mask_step doms n acc)) i \<longleftrightarrow>
     bit (snd acc) i \<or> i = n \<and> n < 8 \<and> dom_health (doms ! n) = kNominal"
  by (auto simp: mask_step_def Let_def split_beta bit_or_iff bit_u8_exp)

lemma mask_fold:
  "n \<le> 8 \<Longrightarrow> bit (fst (fold (mask_step doms) [0..<n] (0, 0))) i \<longleftrightarrow>
     i < n \<and> dom_health (doms ! i) = kFailed"
  "n \<le> 8 \<Longrightarrow> bit (snd (fold (mask_step doms) [0..<n] (0, 0))) i \<longleftrightarrow>
     i < n \<and> dom_health (doms ! i) = kNominal"
  by (induction n) (auto simp: mask_step_bits less_Suc_eq)

lemma UpdateBitmasks_bits:
  "bit (arb_faultBitmask (UpdateBitmasks a)) i \<longleftrightarrow> i < 8 \<and> dom_health (arb_domains a ! i) = kFailed"
  "bit (arb_activeBitmask (UpdateBitmasks a)) i \<longleftrightarrow> i < 8 \<and> dom_health (arb_domains a ! i) = kNominal"
  using mask_fold [of 8 "arb_domains a" i] by (simp_all add: UpdateBitmasks_def split_beta)

lemma UpdateBitmasks_frame [simp]:
  "arb_domains (UpdateBitmasks a) = arb_domains a"
  "arb_mandatoryMask (UpdateBitmasks a) = arb_mandatoryMask a"
  "arb_currentState (UpdateBitmasks a) = arb_currentState a"
  "arb_initialised (UpdateBitmasks a) = arb_initialised a"
  by (simp_all add: UpdateBitmasks_def split_beta)

lemma and_exp: "w AND (2 ^ i :: u8) \<noteq> 0 \<longleftrightarrow> i < 8 \<and> bit w i"
  unfolding bit_eq_iff [of "w AND 2 ^ i" 0] by (auto simp: bit_and_iff bit_u8_exp)

lemma IsFailed_bit: "d < 8 \<Longrightarrow> IsFailed faults d \<longleftrightarrow> bit faults (unat d)"
  by (simp add: IsFailed_def and_exp word_less_nat_alt)

lemma drop_bit_and_1: "drop_bit i (w :: u8) AND 1 \<noteq> 0 \<longleftrightarrow> bit w i"
  by (simp add: and_one_eq odd_iff_mod_2_eq_one [symmetric] bit_iff_odd_drop_bit)

lemma and_nonzero_iff: "(v :: u8) AND w \<noteq> 0 \<longleftrightarrow> (\<exists>i<8. bit v i \<and> bit w i)"
  unfolding bit_eq_iff [of "v AND w" 0] by (auto simp: bit_and_iff dest: bit_imp_le_length)

section \<open>The matrix as a table over the domains\<close>

text \<open>
  The degradation matrix of the header, read over the health of the domains: \<open>L R C G I\<close> are
  the five domains it names, \<open>M\<close> the mandatory escalation.
\<close>

definition degradation_matrix :: "bool \<Rightarrow> bool \<Rightarrow> bool \<Rightarrow> bool \<Rightarrow> bool \<Rightarrow> bool \<Rightarrow> SafeState" where
  "degradation_matrix M L R C G I =
     (if L \<and> R \<or> M then kMinimalRiskCondition
      else if L then kRadarCameraFallback
      else if R then kLidarCameraFallback
      else if C then kLidarRadarFallback
      else if I then kReducedDynamics
      else if G then kDeadReckoningMode
      else kFullOperation)"

definition failed :: "'l SafetyArbitrator \<Rightarrow> nat \<Rightarrow> bool" where
  "failed a i \<longleftrightarrow> dom_health (arb_domains a ! i) = kFailed"

definition mandatory_lost :: "'l SafetyArbitrator \<Rightarrow> bool" where
  "mandatory_lost a \<longleftrightarrow>
     (\<exists>i<8. bit (arb_mandatoryMask a) i \<and> failed a i) \<and>
     (\<exists>i<8. bit (arb_mandatoryMask a) i \<and> 3 \<le> unat (dom_faultCount (arb_domains a ! i)))"

lemma mandatory_over_threshold_iff:
  "mandatory_over_threshold a \<longleftrightarrow>
     (\<exists>i<8. bit (arb_mandatoryMask a) i \<and> 3 \<le> unat (dom_faultCount (arb_domains a ! i)))"
proof -
  have "(ucast (3 :: u8) :: u32) \<le> c \<longleftrightarrow> 3 \<le> unat c" for c :: u32
    by (simp add: word_le_nat_alt)
  then show ?thesis
    by (auto simp: mandatory_over_threshold_def list_ex_iff drop_bit_and_1 simp del: ucast_bintr)
qed

lemma ComputeRequiredState_matrix:
  "ComputeRequiredState (UpdateBitmasks a) =
     degradation_matrix (mandatory_lost a) (failed a 0) (failed a 1) (failed a 2) (failed a 3) (failed a 4)"
proof -
  let ?f = "arb_faultBitmask (UpdateBitmasks a)"
  have bits: "IsFailed ?f kLidar = failed a 0" "IsFailed ?f kRadar = failed a 1"
    "IsFailed ?f kCamera = failed a 2" "IsFailed ?f kGnss = failed a 3" "IsFailed ?f kImu = failed a 4"
    by (simp_all add: IsFailed_bit UpdateBitmasks_bits failed_def)
  have "?f AND arb_mandatoryMask a \<noteq> 0 \<longleftrightarrow> (\<exists>i<8. bit (arb_mandatoryMask a) i \<and> failed a i)"
    unfolding and_nonzero_iff by (auto simp: UpdateBitmasks_bits failed_def)
  then have mand: "?f AND arb_mandatoryMask a \<noteq> 0 \<and> mandatory_over_threshold (UpdateBitmasks a)
      \<longleftrightarrow> mandatory_lost a"
    by (simp add: mandatory_over_threshold_iff mandatory_lost_def)
  show ?thesis
    unfolding ComputeRequiredState_def Let_def bits degradation_matrix_def UpdateBitmasks_frame mand
    by simp
qed

end
