(* ===== verification/SafetyTransition.thy ===== *)
theory SafetyTransition
  imports SafetyMatrix
begin

text \<open>
  \<open>src/SafetyArbitrator.cpp\<close>, the output side: the command and its caps, its serialisation and
  transmission, the transition log, the listeners, \<open>ExecuteTransition\<close> and \<open>Arbitrate\<close>.
\<close>

section \<open>Transmission\<close>

text \<open>The 24 payload bytes, as the code writes them.\<close>

definition command_bytes :: "SafeStateCommand \<Rightarrow> u8 list" where
  "command_bytes cmd =
     [ucast (cmd_magic cmd AND 0xFF), ucast (drop_bit 8 (cmd_magic cmd) AND 0xFF),
      ucast (drop_bit 16 (cmd_magic cmd) AND 0xFF), ucast (drop_bit 24 (cmd_magic cmd) AND 0xFF),
      SafeState_num (cmd_state cmd), cmd_activeDomains cmd, cmd_faultBitmask cmd, 0] @
     le32 (cmd_maxSpeedKph cmd) @ le32 (cmd_maxDecelMps2 cmd) @
     [ucast (cmd_transitionMs cmd AND 0xFF), ucast (drop_bit 8 (cmd_transitionMs cmd) AND 0xFF),
      ucast (drop_bit 16 (cmd_transitionMs cmd) AND 0xFF),
      ucast (drop_bit 24 (cmd_transitionMs cmd) AND 0xFF),
      ucast (cmd_sequenceNum cmd AND 0xFF), ucast (drop_bit 8 (cmd_sequenceNum cmd) AND 0xFF),
      ucast (drop_bit 16 (cmd_sequenceNum cmd) AND 0xFF),
      ucast (drop_bit 24 (cmd_sequenceNum cmd) AND 0xFF)]"

definition command_event :: "SafeStateCommand \<Rightarrow> SoaEvent" where
  "command_event cmd =
     SoaEvent_default\<lparr>ev_serviceId := 0xFF00, ev_eventId := 0xFF01,
       ev_sessionId := cmd_sequenceNum cmd, ev_payloadLen := 24,
       ev_payload := memcpy (ev_payload SoaEvent_default) (command_bytes cmd) 24\<rparr>"

definition SendCommandToM7 :: "SafeStateCommand \<Rightarrow> 'l SafetyArbitrator \<Rightarrow> VoidResult \<times> 'l SafetyArbitrator" where
  "SendCommandToM7 cmd a =
     (case arb_ipc a of
        None \<Rightarrow> (Err kNullPointer, a)
      | Some ipc \<Rightarrow>
          let (r, ipc') = IpcBridge_Send (command_event cmd) ipc
          in (r, a\<lparr>arb_ipc := Some ipc'\<rparr>))"

section \<open>Transition log and listeners\<close>

definition LogTransition :: "SafeState \<Rightarrow> SafeState \<Rightarrow> SensorDomain \<Rightarrow> u32 \<Rightarrow> u64 \<Rightarrow>
    'l SafetyArbitrator \<Rightarrow> 'l SafetyArbitrator" where
  "LogTransition frm to trigger latencyMs nowMs a =
     (let head = arb_logHead a; nextHead = u8_next 32 head
      in a\<lparr>arb_transitionLog := (arb_transitionLog a)[unat head :=
             \<lparr>tr_fromState = frm, tr_toState = to, tr_triggerDomain = trigger,
              tr_timestampMs = nowMs, tr_transitionMs = latencyMs,
              tr_sequenceNum = arb_transitionCount a\<rparr>],
           arb_logHead := nextHead\<rparr>)"

text \<open>
  A listener is code outside the class; \<open>call l cmd (a, w)\<close> is its effect on the arbitrator and
  on the rest of the world. The bound \<open>listenerCount_\<close> is read at each iteration.
\<close>

function notify_listeners ::
    "('l \<Rightarrow> SafeStateCommand \<Rightarrow> 'l SafetyArbitrator \<times> 'w \<Rightarrow> 'l SafetyArbitrator \<times> 'w) \<Rightarrow>
     SafeStateCommand \<Rightarrow> nat \<Rightarrow> 'l SafetyArbitrator \<times> 'w \<Rightarrow> 'l SafetyArbitrator \<times> 'w" where
  "notify_listeners call cmd i s =
     (if i < unat (arb_listenerCount (fst s))
      then notify_listeners call cmd (Suc i)
             (case arb_listeners (fst s) ! i of None \<Rightarrow> s | Some l \<Rightarrow> call l cmd s)
      else s)"
  by auto
termination
proof (relation "measure (\<lambda>(call, cmd, i, s). 256 - i)")
  fix i :: nat and s :: "'l SafetyArbitrator \<times> 'w"
    and call :: "'l \<Rightarrow> SafeStateCommand \<Rightarrow> 'l SafetyArbitrator \<times> 'w \<Rightarrow> 'l SafetyArbitrator \<times> 'w" and cmd
  assume "i < unat (arb_listenerCount (fst s))"
  then have "i < 256" using unat_u8_less by (rule less_trans)
  then show "((call, cmd, Suc i, case arb_listeners (fst s) ! i of None \<Rightarrow> s | Some l \<Rightarrow> call l cmd s),
      call, cmd, i, s) \<in> measure (\<lambda>(call, cmd, i, s). 256 - i)" by simp
qed simp

declare notify_listeners.simps [simp del]

section \<open>Execution of a transition\<close>

text \<open>\<open>maxSpeedKph\<close> and \<open>maxDecelMps2\<close> of a target state.\<close>

fun state_caps :: "SafeState \<Rightarrow> float32 \<times> float32" where
  "state_caps kFullOperation = (f32_130, kMaxLongitudinalDecelMps2)"
| "state_caps kRadarCameraFallback = (f32_100, kMaxLongitudinalDecelMps2)"
| "state_caps kLidarCameraFallback = (f32_100, kMaxLongitudinalDecelMps2)"
| "state_caps kLidarRadarFallback = (kDegradedMaxSpeedKph, kMaxLongitudinalDecelMps2)"
| "state_caps kDeadReckoningMode = (kDegradedMaxSpeedKph, f32_mul_pos kMaxLongitudinalDecelMps2 f32_0_7)"
| "state_caps kReducedDynamics = (kDegradedMaxSpeedKph, f32_mul_pos kMaxLongitudinalDecelMps2 f32_0_5)"
| "state_caps kMinimalRiskCondition = (kMrcMaxSpeedKph, f32_mul_pos kMaxLongitudinalDecelMps2 f32_0_3)"
| "state_caps kEmergencyStop = (f32_zero, kMaxLongitudinalDecelMps2)"

definition build_command :: "SafeState \<Rightarrow> u32 \<Rightarrow> 'l SafetyArbitrator \<Rightarrow> SafeStateCommand" where
  "build_command target seq a =
     SafeStateCommand_default\<lparr>cmd_magic := kArbitratorMagic, cmd_state := target,
       cmd_activeDomains := arb_activeBitmask a, cmd_faultBitmask := arb_faultBitmask a,
       cmd_reserved := 0, cmd_sequenceNum := seq + 1,
       cmd_maxSpeedKph := fst (state_caps target), cmd_maxDecelMps2 := snd (state_caps target)\<rparr>"

definition trigger_domain :: "u8 \<Rightarrow> SensorDomain" where
  "trigger_domain fb =
     (case first_index (\<lambda>i. drop_bit i fb AND 0x01 \<noteq> 0) kMaxSensorDomains of
        None \<Rightarrow> kInvalid | Some i \<Rightarrow> word_of_nat i)"

text \<open>The clock readings of one arbitration cycle, in the order they are made.\<close>

record cycle_times =
  ct_scan :: u64
  ct_start :: u64
  ct_end :: u64
  ct_log :: u64

definition latency :: "cycle_times \<Rightarrow> u32" where
  "latency ct = (if ct_end ct \<ge> ct_start ct then ucast (ct_end ct - ct_start ct) else 0)"

definition ExecuteTransition ::
    "('l \<Rightarrow> SafeStateCommand \<Rightarrow> 'l SafetyArbitrator \<times> 'w \<Rightarrow> 'l SafetyArbitrator \<times> 'w) \<Rightarrow> cycle_times \<Rightarrow>
     SafeState \<Rightarrow> 'l SafetyArbitrator \<times> 'w \<Rightarrow> VoidResult \<times> 'l SafetyArbitrator \<times> 'w" where
  "ExecuteTransition call ct target s =
     (let (a, w) = s;
          frm = arb_currentState a;
          seq = arb_sequenceNum a;
          a1 = a\<lparr>arb_sequenceNum := seq + 1\<rparr>;
          cmd = build_command target seq a1;
          trigger = trigger_domain (arb_faultBitmask a1);
          (sendResult, a2) = SendCommandToM7 cmd a1;
          latencyMs = latency ct;
          cmd' = cmd\<lparr>cmd_transitionMs := latencyMs\<rparr>;
          a3 = a2\<lparr>arb_currentState := target, arb_lastCommand := cmd',
                  arb_transitionCount := arb_transitionCount a2 + 1\<rparr>;
          a4 = LogTransition frm target trigger latencyMs (ct_log ct) a3;
          s' = notify_listeners call cmd' 0 (a4, w);
          r = (if latencyMs > kSafeStateTransitionMs then Err kTimeout
               else if \<not> res_ok sendResult then Err kE2eViolation
               else Ok ())
      in (r, s'))"

definition Arbitrate ::
    "('l \<Rightarrow> SafeStateCommand \<Rightarrow> 'l SafetyArbitrator \<times> 'w \<Rightarrow> 'l SafetyArbitrator \<times> 'w) \<Rightarrow> cycle_times \<Rightarrow>
     'l SafetyArbitrator \<times> 'w \<Rightarrow> VoidResult \<times> 'l SafetyArbitrator \<times> 'w" where
  "Arbitrate call ct s =
     (let (a, w) = s
      in if \<not> arb_initialised a then (Err kNotInitialized, s)
         else
           let a1 = ScanTimeouts (ct_scan ct) a;
               a2 = UpdateBitmasks a1;
               required = ComputeRequiredState a2;
               current = arb_currentState a2
           in if required = current then (Ok (), a2, w)
              else if current = kEmergencyStop then (Ok (), a2, w)
              else ExecuteTransition call ct required (a2, w))"

section \<open>Draining the log\<close>

definition drain_index :: "u8 \<Rightarrow> nat \<Rightarrow> nat" where
  "drain_index head i = unat ((ucast head + 32 - 1 - word_of_nat i) mod 32 :: u32)"

definition DrainTransitionLog :: "SafeStateTransition list option \<Rightarrow> u8 \<Rightarrow> 'l SafetyArbitrator \<Rightarrow>
    u8 \<times> SafeStateTransition list option" where
  "DrainTransitionLog buffer bufferSize a =
     (case buffer of
        None \<Rightarrow> (0, None)
      | Some buf \<Rightarrow>
          if bufferSize = 0 then (0, Some buf)
          else
            let head = arb_logHead a;
                count = (if arb_transitionCount a > 32 then 32 else ucast (arb_transitionCount a)) :: u8;
                toCopy = (if count < bufferSize then count else bufferSize)
            in (toCopy, Some (fold (\<lambda>i b. b[i := arb_transitionLog a ! drain_index head i])
                                   [0..<unat toCopy] buf)))"

section \<open>The global instance\<close>

text \<open>
  \<open>g_arbitratorInstance\<close> points to at most one arbitrator; the state it points to is the
  option's content.
\<close>

definition SetGlobalArbitrator :: "'l SafetyArbitrator option \<Rightarrow> 'l SafetyArbitrator option" where
  "SetGlobalArbitrator arb = arb"

definition SoaArbitratorEventHandler :: "SoaEvent \<Rightarrow> u64 \<Rightarrow> 'l SafetyArbitrator option \<Rightarrow> 'l SafetyArbitrator option" where
  "SoaArbitratorEventHandler event nowMs g =
     (case g of None \<Rightarrow> None | Some a \<Rightarrow> Some (snd (IngestSoaEvent event nowMs a)))"

end
