(* ===== verification/SafetyFacts.thy ===== *)
theory SafetyFacts
  imports SafetyTransition
begin

text \<open>
  What one operation of the arbitrator does: the command round trip over the link, the effect
  of a transition and of a whole arbitration cycle, and the well-formedness that every
  operation keeps.
\<close>

section \<open>Commands on the wire\<close>

lemma length_command_bytes [simp]: "length (command_bytes cmd) = 24"
  by (simp add: command_bytes_def)

lemma command_event_fields [simp]:
  "ev_payloadLen (command_event cmd) = 24" "ev_serviceId (command_event cmd) = 0xFF00"
  "ev_eventId (command_event cmd) = 0xFF01" "ev_sessionId (command_event cmd) = cmd_sequenceNum cmd"
  by (simp_all add: command_event_def)

lemma event_wf_command [simp]: "event_wf (command_event cmd)"
  by (simp add: command_event_def event_wf_def SoaEvent_default_def)

definition SafeState_of_num :: "u8 \<Rightarrow> SafeState option" where
  "SafeState_of_num n =
     List.find (\<lambda>s. SafeState_num s = n)
       [kFullOperation, kRadarCameraFallback, kLidarCameraFallback, kLidarRadarFallback,
        kDeadReckoningMode, kReducedDynamics, kMinimalRiskCondition, kEmergencyStop]"

lemma SafeState_of_num_num [simp]: "SafeState_of_num (SafeState_num s) = Some s"
  by (cases s) (simp_all add: SafeState_of_num_def)

text \<open>The receiver's reading of a payload, by the layout comment of \<open>SendCommandToM7\<close>.\<close>

definition decode_command :: "u8 list \<Rightarrow> SafeStateCommand option" where
  "decode_command p =
     (case SafeState_of_num (p ! 4) of
        None \<Rightarrow> None
      | Some st \<Rightarrow> Some
          \<lparr>cmd_magic = read_le32 (p ! 0) (p ! 1) (p ! 2) (p ! 3), cmd_state = st,
           cmd_activeDomains = p ! 5, cmd_faultBitmask = p ! 6, cmd_reserved = p ! 7,
           cmd_maxSpeedKph = read_le32 (p ! 8) (p ! 9) (p ! 10) (p ! 11),
           cmd_maxDecelMps2 = read_le32 (p ! 12) (p ! 13) (p ! 14) (p ! 15),
           cmd_transitionMs = read_le32 (p ! 16) (p ! 17) (p ! 18) (p ! 19),
           cmd_sequenceNum = read_le32 (p ! 20) (p ! 21) (p ! 22) (p ! 23)\<rparr>)"

lemma decode_command_bytes:
  "decode_command (command_bytes cmd @ rest) = Some (cmd\<lparr>cmd_reserved := 0\<rparr>)"
  by (simp add: decode_command_def command_bytes_def le32_def read_le32_le32)

lemma payload_of_command: "ipc_payload (command_event cmd) = command_bytes cmd @ replicate 104 0"
  by (simp add: ipc_payload_def command_event_def memcpy_def)

lemma decode_command_slot:
  "decode_command (sl_payload (ipc_slot c (command_event cmd))) = Some (cmd\<lparr>cmd_reserved := 0\<rparr>)"
  by (simp add: payload_of_command decode_command_bytes)

section \<open>Fault events on the wire\<close>

text \<open>The payload layout that \<open>IngestSoaEvent\<close> documents, as a sensor service writes it.\<close>

definition encode_fault :: "SensorFaultEvent \<Rightarrow> u8 list" where
  "encode_fault e = [fe_domain e, fe_health e, 0, 0] @ le32 (fe_faultCode e) @ le32 (fe_timestampMs e)"

lemma length_encode_fault [simp]: "length (encode_fault e) = 12"
  by (simp add: encode_fault_def)

lemma decode_encode_fault: "decode_fault (encode_fault e @ rest) = e"
  by (simp add: decode_fault_def encode_fault_def le32_def read_le32_le32)

section \<open>Well-formed arbitrators\<close>

definition ipc_wf :: "IpcBridge option \<Rightarrow> bool" where
  "ipc_wf ipc \<longleftrightarrow> (case ipc of None \<Rightarrow> True | Some b \<Rightarrow> bridge_wf b)"

definition arb_wf :: "'l SafetyArbitrator \<Rightarrow> bool" where
  "arb_wf a \<longleftrightarrow> length (arb_domains a) = 8 \<and> length (arb_transitionLog a) = 32 \<and>
     unat (arb_logHead a) < 32 \<and> length (arb_listeners a) = 8 \<and> unat (arb_listenerCount a) \<le> 8 \<and>
     ipc_wf (arb_ipc a)"

lemma arb_wf_new: "ipc_wf ipc \<Longrightarrow> arb_wf (SafetyArbitrator_new ipc)"
  by (simp add: arb_wf_def SafetyArbitrator_new_def)

lemma arb_wf_Init: "arb_wf a \<Longrightarrow> arb_wf (snd (SafetyArbitrator_Init m t a))"
  by (auto simp: arb_wf_def SafetyArbitrator_Init_def)

lemma arb_wf_RegisterListener: "arb_wf a \<Longrightarrow> arb_wf (snd (RegisterListener l a))"
  by (auto simp: arb_wf_def RegisterListener_def unat_word_ariths)

lemma arb_wf_update_domain [simp]: "arb_wf (update_domain i f a) = arb_wf a"
  by (simp add: arb_wf_def update_domain_def)

lemma arb_wf_IngestFault: "arb_wf a \<Longrightarrow> arb_wf (snd (IngestFault e t a))"
  by (simp add: IngestFault_def Let_def)

lemma arb_wf_RecordHeartbeat: "arb_wf a \<Longrightarrow> arb_wf (snd (RecordHeartbeat d t a))"
  by (simp add: RecordHeartbeat_def Let_def)

lemma arb_wf_IngestSoaEvent: "arb_wf a \<Longrightarrow> arb_wf (snd (IngestSoaEvent ev t a))"
  by (simp add: IngestSoaEvent_def arb_wf_IngestFault)

section \<open>Sending, logging, notifying\<close>

lemma SendCommandToM7_cases:
  assumes "arb_wf a"
  obtains (null) "arb_ipc a = None" "SendCommandToM7 cmd a = (Err kNullPointer, a)"
  | (sent) b b' where "arb_ipc a = Some b" "SendCommandToM7 cmd a = (Ok (), a\<lparr>arb_ipc := Some b'\<rparr>)"
      "br_pending b' = br_pending b @ [ipc_slot (br_seqCounter b) (command_event cmd)]" "bridge_wf b'"
  | (refused) e where "SendCommandToM7 cmd a = (Err e, a)"
proof (cases "arb_ipc a")
  case None
  then show ?thesis using null by (simp add: SendCommandToM7_def)
next
  case (Some b)
  then have wf: "bridge_wf b" using assms by (simp add: arb_wf_def ipc_wf_def)
  obtain r b' where s: "IpcBridge_Send (command_event cmd) b = (r, b')" by fastforce
  show ?thesis
  proof (cases r)
    case (Ok u)
    then show ?thesis
      using sent [of b b'] Some s ipc_channel.send_Ok [of b "command_event cmd" b']
        Send_Ok(7) [of b "command_event cmd" b'] wf
      by (simp add: SendCommandToM7_def)
  next
    case (Err e)
    then have "b' = b" using ipc_channel.send_Err s by blast
    then show ?thesis using refused [of e] Some Err s by (simp add: SendCommandToM7_def)
  qed
qed

lemma SendCommandToM7_sent:
  assumes "arb_wf a" "arb_ipc a = Some b" "br_initialised b" "length (br_pending b) < 31"
  shows "\<exists>b'. SendCommandToM7 cmd a = (Ok (), a\<lparr>arb_ipc := Some b'\<rparr>) \<and>
    br_pending b' = br_pending b @ [ipc_slot (br_seqCounter b) (command_event cmd)] \<and> bridge_wf b'"
proof -
  have wf: "bridge_wf b" using assms by (simp add: arb_wf_def ipc_wf_def)
  have "fst (IpcBridge_Send (command_event cmd) b) = Ok ()"
    using assms by (simp add: Send_result [OF wf])
  then obtain b' where s: "IpcBridge_Send (command_event cmd) b = (Ok (), b')"
    by (cases "IpcBridge_Send (command_event cmd) b") simp
  then show ?thesis
    using assms ipc_channel.send_Ok [OF wf event_wf_command s] Send_Ok(7) [OF wf event_wf_command s]
    by (intro exI [of _ b']) (simp add: SendCommandToM7_def)
qed

lemma SendCommandToM7_full:
  assumes "arb_wf a" "arb_ipc a = Some b" "br_initialised b" "length (br_pending b) = 31"
  shows "SendCommandToM7 cmd a = (Err kIpcBufferFull, a)"
proof -
  have wf: "bridge_wf b" using assms by (simp add: arb_wf_def ipc_wf_def)
  have "fst (IpcBridge_Send (command_event cmd) b) = Err kIpcBufferFull"
    using assms by (simp add: Send_result [OF wf])
  then have "IpcBridge_Send (command_event cmd) b = (Err kIpcBufferFull, b)"
    using Send_error_unchanged by (metis prod.collapse)
  then show ?thesis using assms(2) by (simp add: SendCommandToM7_def)
qed

lemma SendCommandToM7_frame:
  "arb_currentState (snd (SendCommandToM7 cmd a)) = arb_currentState a"
  "arb_sequenceNum (snd (SendCommandToM7 cmd a)) = arb_sequenceNum a"
  "arb_transitionCount (snd (SendCommandToM7 cmd a)) = arb_transitionCount a"
  "arb_domains (snd (SendCommandToM7 cmd a)) = arb_domains a"
  "arb_mandatoryMask (snd (SendCommandToM7 cmd a)) = arb_mandatoryMask a"
  "arb_faultBitmask (snd (SendCommandToM7 cmd a)) = arb_faultBitmask a"
  "arb_activeBitmask (snd (SendCommandToM7 cmd a)) = arb_activeBitmask a"
  "arb_transitionLog (snd (SendCommandToM7 cmd a)) = arb_transitionLog a"
  "arb_logHead (snd (SendCommandToM7 cmd a)) = arb_logHead a"
  "arb_listeners (snd (SendCommandToM7 cmd a)) = arb_listeners a"
  "arb_listenerCount (snd (SendCommandToM7 cmd a)) = arb_listenerCount a"
  "arb_initialised (snd (SendCommandToM7 cmd a)) = arb_initialised a"
  by (simp_all add: SendCommandToM7_def split: option.split prod.split)

lemma arb_wf_SendCommandToM7:
  assumes "arb_wf a"
  shows "arb_wf (snd (SendCommandToM7 cmd a))"
  by (rule SendCommandToM7_cases [OF assms, of cmd]) (use assms in \<open>auto simp: arb_wf_def ipc_wf_def\<close>)

interpretation log_ring: ring_index 32 "u8_next 32" unat
  by unfold_locales (simp_all add: unat_u8_next word_unat_eq_iff)

text \<open>Listeners that leave the arbitrator alone are called once each, in order of registration.\<close>

definition plain_listener :: "('l \<Rightarrow> SafeStateCommand \<Rightarrow> 'w \<Rightarrow> 'w) \<Rightarrow> 'l \<Rightarrow> SafeStateCommand \<Rightarrow>
    'l SafetyArbitrator \<times> 'w \<Rightarrow> 'l SafetyArbitrator \<times> 'w" where
  "plain_listener eff l cmd s = (fst s, eff l cmd (snd s))"

definition notify_all :: "('l \<Rightarrow> SafeStateCommand \<Rightarrow> 'w \<Rightarrow> 'w) \<Rightarrow> SafeStateCommand \<Rightarrow> 'l option list \<Rightarrow> 'w \<Rightarrow> 'w" where
  "notify_all eff cmd ls w = fold (\<lambda>l w. eff l cmd w) (List.map_filter id ls) w"

lemma notify_from:
  assumes "unat (arb_listenerCount a) \<le> length (arb_listeners a)"
  shows "notify_listeners (plain_listener eff) cmd i (a, w) =
    (a, notify_all eff cmd (drop i (take (unat (arb_listenerCount a)) (arb_listeners a))) w)"
proof (induction "unat (arb_listenerCount a) - i" arbitrary: i w)
  case 0
  then show ?case
    by (subst notify_listeners.simps) (simp add: notify_all_def map_filter_simps)
next
  case (Suc n)
  let ?ls = "take (unat (arb_listenerCount a)) (arb_listeners a)"
  have i: "i < unat (arb_listenerCount a)" using Suc.hyps(2) by simp
  then have d: "drop i ?ls = arb_listeners a ! i # drop (Suc i) ?ls"
    using assms by (metis Cons_nth_drop_Suc length_take min.absorb2 nth_take)
  have IH: "notify_listeners (plain_listener eff) cmd (Suc i) (a, w') =
      (a, notify_all eff cmd (drop (Suc i) ?ls) w')" for w'
    using Suc.hyps by simp
  show ?case
    using i by (subst notify_listeners.simps)
      (simp add: d IH plain_listener_def notify_all_def map_filter_simps split: option.split)
qed

lemma notify_plain:
  "arb_wf a \<Longrightarrow> notify_listeners (plain_listener eff) cmd 0 (a, w) =
    (a, notify_all eff cmd (take (unat (arb_listenerCount a)) (arb_listeners a)) w)"
  using notify_from [of a eff cmd 0 w] by (simp add: arb_wf_def)

section \<open>One transition\<close>

definition final_command :: "cycle_times \<Rightarrow> SafeState \<Rightarrow> 'l SafetyArbitrator \<Rightarrow> SafeStateCommand" where
  "final_command ct target a =
     (build_command target (arb_sequenceNum a) a)\<lparr>cmd_transitionMs := latency ct\<rparr>"

definition log_entry :: "cycle_times \<Rightarrow> SafeState \<Rightarrow> 'l SafetyArbitrator \<Rightarrow> SafeStateTransition" where
  "log_entry ct target a =
     \<lparr>tr_fromState = arb_currentState a, tr_toState = target,
      tr_triggerDomain = trigger_domain (arb_faultBitmask a), tr_timestampMs = ct_log ct,
      tr_transitionMs = latency ct, tr_sequenceNum = arb_transitionCount a + 1\<rparr>"

definition executed :: "cycle_times \<Rightarrow> SafeState \<Rightarrow> 'l SafetyArbitrator \<Rightarrow> 'l SafetyArbitrator" where
  "executed ct target a =
     (snd (SendCommandToM7 (build_command target (arb_sequenceNum a) a) a))
       \<lparr>arb_sequenceNum := arb_sequenceNum a + 1, arb_currentState := target,
        arb_lastCommand := final_command ct target a,
        arb_transitionCount := arb_transitionCount a + 1,
        arb_transitionLog := (arb_transitionLog a)[unat (arb_logHead a) := log_entry ct target a],
        arb_logHead := u8_next 32 (arb_logHead a)\<rparr>"

lemma build_command_seq [simp]:
  "build_command target seq (a\<lparr>arb_sequenceNum := n\<rparr>) = build_command target seq a"
  by (simp add: build_command_def)

lemma Send_seq_commute:
  "SendCommandToM7 cmd (a\<lparr>arb_sequenceNum := n\<rparr>) =
     (fst (SendCommandToM7 cmd a), (snd (SendCommandToM7 cmd a))\<lparr>arb_sequenceNum := n\<rparr>)"
  by (simp add: SendCommandToM7_def split: option.split prod.split)

lemma arb_wf_executed:
  assumes "arb_wf a"
  shows "arb_wf (executed ct target a)"
  using arb_wf_SendCommandToM7 [OF assms] assms log_ring.pos_next_less [of "arb_logHead a"]
  by (simp add: arb_wf_def executed_def SendCommandToM7_frame)

lemma executed_frame [simp]:
  "arb_currentState (executed ct target a) = target"
  "arb_lastCommand (executed ct target a) = final_command ct target a"
  "arb_sequenceNum (executed ct target a) = arb_sequenceNum a + 1"
  "arb_transitionCount (executed ct target a) = arb_transitionCount a + 1"
  "arb_domains (executed ct target a) = arb_domains a"
  "arb_mandatoryMask (executed ct target a) = arb_mandatoryMask a"
  "arb_faultBitmask (executed ct target a) = arb_faultBitmask a"
  "arb_activeBitmask (executed ct target a) = arb_activeBitmask a"
  "arb_initialised (executed ct target a) = arb_initialised a"
  "arb_listeners (executed ct target a) = arb_listeners a"
  "arb_listenerCount (executed ct target a) = arb_listenerCount a"
  by (simp_all add: executed_def SendCommandToM7_frame)

definition transition_result :: "cycle_times \<Rightarrow> SafeState \<Rightarrow> 'l SafetyArbitrator \<Rightarrow> VoidResult" where
  "transition_result ct target a =
     (if latency ct > 50 then Err kTimeout
      else if \<not> res_ok (fst (SendCommandToM7 (build_command target (arb_sequenceNum a) a) a))
      then Err kE2eViolation else Ok ())"

lemma ExecuteTransition_plain:
  assumes "arb_wf a"
  shows "ExecuteTransition (plain_listener eff) ct target (a, w) =
    (transition_result ct target a, executed ct target a,
     notify_all eff (final_command ct target a)
       (take (unat (arb_listenerCount a)) (arb_listeners a)) w)"
proof -
  let ?cmd = "build_command target (arb_sequenceNum a) a"
  have a4: "LogTransition (arb_currentState a) target (trigger_domain (arb_faultBitmask a)) (latency ct) (ct_log ct)
      ((snd (SendCommandToM7 ?cmd a))\<lparr>arb_sequenceNum := arb_sequenceNum a + 1,
        arb_currentState := target, arb_lastCommand := final_command ct target a,
        arb_transitionCount := arb_transitionCount a + 1\<rparr>) = executed ct target a"
    by (simp add: LogTransition_def executed_def log_entry_def SendCommandToM7_frame Let_def)
  show ?thesis
    using notify_plain [OF arb_wf_executed [OF assms], of eff "final_command ct target a" ct target w]
    by (simp add: ExecuteTransition_def Let_def split_beta Send_seq_commute SendCommandToM7_frame a4
        transition_result_def final_command_def [symmetric])
qed

section \<open>One cycle\<close>

definition cycle_start :: "u64 \<Rightarrow> 'l SafetyArbitrator \<Rightarrow> 'l SafetyArbitrator" where
  "cycle_start now a = UpdateBitmasks (ScanTimeouts now a)"

definition required_state :: "u64 \<Rightarrow> 'l SafetyArbitrator \<Rightarrow> SafeState" where
  "required_state now a = ComputeRequiredState (cycle_start now a)"

lemma cycle_start_frame [simp]:
  assumes "length (arb_domains a) = 8"
  shows "arb_currentState (cycle_start now a) = arb_currentState a"
    "arb_mandatoryMask (cycle_start now a) = arb_mandatoryMask a"
    "arb_initialised (cycle_start now a) = arb_initialised a"
    "arb_ipc (cycle_start now a) = arb_ipc a"
    "arb_sequenceNum (cycle_start now a) = arb_sequenceNum a"
    "arb_transitionCount (cycle_start now a) = arb_transitionCount a"
    "arb_lastCommand (cycle_start now a) = arb_lastCommand a"
    "arb_transitionLog (cycle_start now a) = arb_transitionLog a"
    "arb_logHead (cycle_start now a) = arb_logHead a"
    "arb_listeners (cycle_start now a) = arb_listeners a"
    "arb_listenerCount (cycle_start now a) = arb_listenerCount a"
    "arb_domains (cycle_start now a) = map (scan_domain now) (arb_domains a)"
  using assms by (simp_all add: cycle_start_def ScanTimeouts_eq UpdateBitmasks_def split_beta)

lemma arb_wf_cycle_start: "arb_wf a \<Longrightarrow> arb_wf (cycle_start now a)"
  by (simp add: arb_wf_def)

text \<open>An arbitration cycle, with its three outcomes.\<close>

lemma Arbitrate_plain:
  assumes "arb_wf a"
  shows "Arbitrate (plain_listener eff) ct (a, w) =
    (if \<not> arb_initialised a then (Err kNotInitialized, a, w)
     else let b = cycle_start (ct_scan ct) a; req = required_state (ct_scan ct) a in
       if req = arb_currentState a \<or> arb_currentState a = kEmergencyStop then (Ok (), b, w)
       else (transition_result ct req b, executed ct req b,
             notify_all eff (final_command ct req b)
               (take (unat (arb_listenerCount a)) (arb_listeners a)) w))"
proof -
  have len: "length (arb_domains a) = 8" using assms by (simp add: arb_wf_def)
  note ex = ExecuteTransition_plain [OF arb_wf_cycle_start [OF assms]]
  show ?thesis
    using cycle_start_frame [OF len, of "ct_scan ct"]
    by (simp add: Arbitrate_def Let_def ex del: UpdateBitmasks_frame
        flip: cycle_start_def required_state_def)
qed

lemma arb_wf_Arbitrate:
  assumes "arb_wf a" "Arbitrate (plain_listener eff) ct (a, w) = (r, a', w')"
  shows "arb_wf a'"
  using assms
  by (auto simp: Arbitrate_plain Let_def split: if_splits intro: arb_wf_executed arb_wf_cycle_start)

text \<open>The required state read off the domains as they are when the cycle starts.\<close>

definition lost :: "u64 \<Rightarrow> 'l SafetyArbitrator \<Rightarrow> nat \<Rightarrow> bool" where
  "lost now a i \<longleftrightarrow> dom_health (arb_domains a ! i) = kFailed \<or> timed_out now (arb_domains a ! i)"

definition fault_ticks :: "u64 \<Rightarrow> 'l SafetyArbitrator \<Rightarrow> nat \<Rightarrow> u32" where
  "fault_ticks now a i =
     (let d = arb_domains a ! i
      in if timed_out now d \<and> dom_health d \<noteq> kFailed then dom_faultCount d + 1 else dom_faultCount d)"

definition mandatory_escalation :: "u64 \<Rightarrow> 'l SafetyArbitrator \<Rightarrow> bool" where
  "mandatory_escalation now a \<longleftrightarrow>
     (\<exists>i<8. bit (arb_mandatoryMask a) i \<and> lost now a i) \<and>
     (\<exists>i<8. bit (arb_mandatoryMask a) i \<and> 3 \<le> unat (fault_ticks now a i))"

lemma failed_scan:
  assumes "length (arb_domains a) = 8" "i < 8"
  shows "failed (ScanTimeouts now a) i = lost now a i"
    "dom_faultCount (arb_domains (ScanTimeouts now a) ! i) = fault_ticks now a i"
  using assms by (auto simp: failed_def lost_def fault_ticks_def ScanTimeouts_eq scan_domain_eq Let_def)

lemma required_state_eq:
  assumes "arb_wf a"
  shows "required_state now a = degradation_matrix (mandatory_escalation now a)
    (lost now a 0) (lost now a 1) (lost now a 2) (lost now a 3) (lost now a 4)"
proof -
  have len: "length (arb_domains a) = 8" using assms by (simp add: arb_wf_def)
  have m: "arb_mandatoryMask (ScanTimeouts now a) = arb_mandatoryMask a"
    by (simp add: ScanTimeouts_eq [OF len])
  have "mandatory_lost (ScanTimeouts now a) = mandatory_escalation now a"
    unfolding mandatory_lost_def mandatory_escalation_def m
    by (simp add: failed_scan [OF len] cong: conj_cong)
  then show ?thesis
    unfolding required_state_def cycle_start_def ComputeRequiredState_matrix
    by (simp add: failed_scan [OF len])
qed

lemma degradation_matrix_not_stop: "degradation_matrix M L R C G I \<noteq> kEmergencyStop"
  by (simp add: degradation_matrix_def)

lemma required_state_not_stop: "arb_wf a \<Longrightarrow> required_state now a \<noteq> kEmergencyStop"
  by (simp add: required_state_eq degradation_matrix_not_stop)

text \<open>
  A lost LiDAR masks the loss of camera, GNSS and IMU: the state stays \<open>kRadarCameraFallback\<close> with
  its 100 kph cap, where each of those losses alone caps the speed at 30 kph. The most severe
  state does not win.
\<close>

lemma lidar_loss_masks:
  assumes "arb_wf a" "lost now a 0" "\<not> lost now a 1" "\<not> mandatory_escalation now a"
  shows "required_state now a = kRadarCameraFallback" "required_state now a < kLidarRadarFallback"
    "f32_lt (fst (state_caps kLidarRadarFallback)) (fst (state_caps (required_state now a)))"
proof -
  show st: "required_state now a = kRadarCameraFallback"
    using assms by (simp add: required_state_eq degradation_matrix_def)
  show "required_state now a < kLidarRadarFallback" unfolding st by (simp add: severity_simps)
  show "f32_lt (fst (state_caps kLidarRadarFallback)) (fst (state_caps (required_state now a)))"
    unfolding st by (simp add: f32_lt_def f32_is_nan_def f32_exp_def f32_man_def f32_val_def f32_mag_def
        f32_neg_sign_def kDegradedMaxSpeedKph_def f32_100_def)
qed

end
