(* ===== verification/SafetyRun.thy ===== *)
theory SafetyRun
  imports SafetyFacts
begin

text \<open>
  The arbitrator over time: arbitrary interleavings of fault events, heartbeats, listener
  registrations, arbitration cycles and other traffic on the link, with the history of
  executed transitions as a ghost; the invariant of every reachable state; and the runs in
  which no fault event arrives, where a lost sensor is seen by its silence alone.
\<close>

section \<open>Steps\<close>

record 'l safety_run =
  sr_arb :: "'l SafetyArbitrator"
  sr_hist :: "SafeStateTransition list"

text \<open>The effect of a cycle on the arbitrator; listeners act on the world outside only.\<close>

definition cycle :: "cycle_times \<Rightarrow> 'l SafetyArbitrator \<Rightarrow> 'l SafetyArbitrator" where
  "cycle ct a = fst (snd (Arbitrate (plain_listener (\<lambda>l c w. w)) ct (a, ())))"

lemma cycle_Arbitrate:
  assumes "arb_wf a"
  shows "fst (snd (Arbitrate (plain_listener eff) ct (a, w))) = cycle ct a"
  unfolding cycle_def by (simp add: Arbitrate_plain [OF assms] Let_def)

lemma cycle_cases:
  assumes "arb_wf a" "arb_initialised a" "arb_currentState a \<noteq> kEmergencyStop"
  shows "cycle ct a =
    (if required_state (ct_scan ct) a = arb_currentState a then cycle_start (ct_scan ct) a
     else executed ct (required_state (ct_scan ct) a) (cycle_start (ct_scan ct) a))"
  using assms by (simp add: cycle_def Arbitrate_plain Let_def)

lemma cycle_state:
  assumes "arb_wf a" "arb_initialised a" "arb_currentState a \<noteq> kEmergencyStop"
  shows "arb_currentState (cycle ct a) = required_state (ct_scan ct) a"
  using assms by (simp add: cycle_cases arb_wf_def)

text \<open>The slot that a cycle with a change of state puts on the link, and what it decodes to.\<close>

lemma cycle_command:
  assumes "arb_wf a" "arb_initialised a" "arb_currentState a \<noteq> kEmergencyStop"
    and "required_state (ct_scan ct) a \<noteq> arb_currentState a"
    and "arb_ipc a = Some b" "br_initialised b" "length (br_pending b) < 31"
  shows "\<exists>b' sl cmd. arb_ipc (cycle ct a) = Some b' \<and> br_pending b' = br_pending b @ [sl] \<and>
    VerifyE2e sl (br_seqCounter b) = Ok () \<and> decode_command (sl_payload sl) = Some cmd \<and>
    cmd = (arb_lastCommand (cycle ct a))\<lparr>cmd_transitionMs := 0\<rparr> \<and> cmd_magic cmd = kArbitratorMagic \<and>
    cmd_state cmd = arb_currentState (cycle ct a) \<and>
    (cmd_maxSpeedKph cmd, cmd_maxDecelMps2 cmd) = state_caps (arb_currentState (cycle ct a)) \<and>
    cmd_faultBitmask cmd = arb_faultBitmask (cycle ct a) \<and>
    cmd_activeDomains cmd = arb_activeBitmask (cycle ct a) \<and>
    cmd_sequenceNum cmd = arb_sequenceNum a + 1"
proof -
  let ?c = "cycle_start (ct_scan ct) a" and ?t = "required_state (ct_scan ct) a"
  let ?cmd = "build_command ?t (arb_sequenceNum a) ?c"
  have len: "length (arb_domains a) = 8" using assms(1) by (simp add: arb_wf_def)
  note fr = cycle_start_frame [OF len, of "ct_scan ct"]
  have a': "cycle ct a = executed ct ?t ?c"
    using assms(4) unfolding cycle_cases [OF assms(1-3)] by simp
  have "arb_ipc ?c = Some b" using assms(5) fr by simp
  then obtain b' where b': "SendCommandToM7 ?cmd ?c = (Ok (), ?c\<lparr>arb_ipc := Some b'\<rparr>)"
    "br_pending b' = br_pending b @ [ipc_slot (br_seqCounter b) (command_event ?cmd)]"
    using SendCommandToM7_sent [OF arb_wf_cycle_start [OF assms(1)] _ assms(6,7)] by blast
  have ipc: "arb_ipc (executed ct ?t ?c) = Some b'" by (simp add: executed_def fr(5) b'(1))
  show ?thesis
    by (intro exI [of _ b'] exI [of _ "ipc_slot (br_seqCounter b) (command_event ?cmd)"] exI [of _ ?cmd])
      (simp add: ipc b'(2) VerifyE2e_ipc_slot decode_command_slot a' final_command_def fr(5)
        build_command_def SafeStateCommand_default_def del: ipc_slot_fields)
qed

lemma cycle_fault_mask:
  assumes "arb_wf a" "arb_initialised a"
  shows "bit (arb_faultBitmask (cycle ct a)) i \<longleftrightarrow> i < 8 \<and> lost (ct_scan ct) a i"
    "i < 8 \<Longrightarrow> failed (cycle ct a) i \<longleftrightarrow> lost (ct_scan ct) a i"
proof -
  have len: "length (arb_domains a) = 8" using assms(1) by (simp add: arb_wf_def)
  have same: "arb_faultBitmask (cycle ct a) = arb_faultBitmask (cycle_start (ct_scan ct) a)"
    "arb_domains (cycle ct a) = arb_domains (cycle_start (ct_scan ct) a)"
    using assms by (simp_all add: cycle_def Arbitrate_plain Let_def)
  show "i < 8 \<Longrightarrow> failed (cycle ct a) i \<longleftrightarrow> lost (ct_scan ct) a i"
    using failed_scan(1) [OF len] by (simp add: failed_def same cycle_start_def)
  show "bit (arb_faultBitmask (cycle ct a)) i \<longleftrightarrow> i < 8 \<and> lost (ct_scan ct) a i"
    unfolding same(1) cycle_start_def UpdateBitmasks_bits
    using failed_scan(1) [OF len, of i] by (auto simp: failed_def)
qed

definition hist_step :: "cycle_times \<Rightarrow> 'l SafetyArbitrator \<Rightarrow> SafeStateTransition list" where
  "hist_step ct a =
     (if arb_currentState (cycle ct a) = arb_currentState a then []
      else [log_entry ct (arb_currentState (cycle ct a)) (cycle_start (ct_scan ct) a)])"

inductive safety_step :: "'l safety_run \<Rightarrow> 'l safety_run \<Rightarrow> bool" where
  s_fault: "safety_step s (s\<lparr>sr_arb := snd (IngestFault e now (sr_arb s))\<rparr>)"
| s_inject: "safety_step s (s\<lparr>sr_arb := snd (InjectFault d h dtc stamp now (sr_arb s))\<rparr>)"
| s_event: "safety_step s (s\<lparr>sr_arb := snd (IngestSoaEvent ev now (sr_arb s))\<rparr>)"
| s_beat: "safety_step s (s\<lparr>sr_arb := snd (RecordHeartbeat d now (sr_arb s))\<rparr>)"
| s_listener: "safety_step s (s\<lparr>sr_arb := snd (RegisterListener l (sr_arb s))\<rparr>)"
| s_cycle: "safety_step s (s\<lparr>sr_arb := cycle ct (sr_arb s), sr_hist := sr_hist s @ hist_step ct (sr_arb s)\<rparr>)"
| s_init: "safety_step s (s\<lparr>sr_arb := snd (SafetyArbitrator_Init m now (sr_arb s))\<rparr>)"
| s_link: "ipc_wf ipc \<Longrightarrow> safety_step s (s\<lparr>sr_arb := (sr_arb s)\<lparr>arb_ipc := ipc\<rparr>\<rparr>)"

definition run_start :: "'l SafetyArbitrator \<Rightarrow> 'l safety_run" where
  "run_start a = \<lparr>sr_arb = a, sr_hist = []\<rparr>"

section \<open>The invariant\<close>

fun linked :: "SafeState \<Rightarrow> SafeStateTransition list \<Rightarrow> SafeState \<Rightarrow> bool" where
  "linked s [] t = (s = t)"
| "linked s (r # rs) t = (tr_fromState r = s \<and> tr_toState r \<noteq> s \<and> linked (tr_toState r) rs t)"

lemma linked_snoc:
  "linked s (rs @ [r]) t \<longleftrightarrow> linked s rs (tr_fromState r) \<and> tr_toState r \<noteq> tr_fromState r \<and> tr_toState r = t"
  by (induction rs arbitrary: s) auto

text \<open>The last 32 records of the history are in the log, record \<open>j\<close> in slot \<open>j mod 32\<close>.\<close>

definition log_holds :: "SafeStateTransition list \<Rightarrow> SafeStateTransition list \<Rightarrow> bool" where
  "log_holds log hist \<longleftrightarrow> (\<forall>j < length hist. length hist \<le> j + 32 \<longrightarrow> log ! (j mod 32) = hist ! j)"

lemma log_holds_snoc:
  assumes "log_holds log hist" "length log = 32"
  shows "log_holds (log[length hist mod 32 := r]) (hist @ [r])"
proof -
  have other: "j mod 32 \<noteq> length hist mod 32" if "j < length hist" "length hist < j + 32" for j
  proof
    assume "j mod 32 = length hist mod 32"
    then have "32 dvd length hist - j"
      using that(1) mod_eq_dvd_iff_nat [of j "length hist" 32] by simp
    then have "32 \<le> length hist - j" using that(1) by (simp add: dvd_imp_le)
    then show False using that(2) by linarith
  qed
  show ?thesis
    unfolding log_holds_def
  proof (intro allI impI)
    fix j
    assume j: "j < length (hist @ [r])" "length (hist @ [r]) \<le> j + 32"
    show "log[length hist mod 32 := r] ! (j mod 32) = (hist @ [r]) ! j"
      using assms j other [of j] by (cases "j = length hist") (auto simp: log_holds_def nth_append)
  qed
qed

definition command_ok :: "'l SafetyArbitrator \<Rightarrow> bool" where
  "command_ok a \<longleftrightarrow>
     (let c = arb_lastCommand a
      in cmd_magic c = kArbitratorMagic \<and> cmd_state c = arb_currentState a \<and>
         (cmd_maxSpeedKph c, cmd_maxDecelMps2 c) = state_caps (arb_currentState a) \<and>
         cmd_sequenceNum c = arb_sequenceNum a)"

definition run_inv :: "'l safety_run \<Rightarrow> bool" where
  "run_inv s \<longleftrightarrow>
     (let a = sr_arb s; hist = sr_hist s
      in arb_wf a \<and> arb_initialised a \<and> arb_currentState a \<noteq> kEmergencyStop \<and> command_ok a \<and>
         arb_transitionCount a = word_of_nat (length hist) \<and>
         arb_sequenceNum a = word_of_nat (length hist) \<and>
         unat (arb_logHead a) = length hist mod 32 \<and> log_holds (arb_transitionLog a) hist \<and>
         linked kFullOperation hist (arb_currentState a) \<and>
         (\<forall>j < length hist. tr_sequenceNum (hist ! j) = word_of_nat (Suc j)))"

lemma run_inv_start:
  assumes "SafetyArbitrator_Init m now a = (Ok (), a')" "arb_wf a"
  shows "run_inv (run_start a')"
  using assms arb_wf_Init [OF assms(2), of m now]
  by (auto simp: run_inv_def run_start_def SafetyArbitrator_Init_def command_ok_def log_holds_def
      split: if_splits)

lemma run_inv_wf: "run_inv s \<Longrightarrow> arb_wf (sr_arb s)"
  by (simp add: run_inv_def Let_def)

lemma arb_wf_InjectFault: "arb_wf a \<Longrightarrow> arb_wf (snd (InjectFault d h dtc stamp now a))"
  by (simp add: InjectFault_def arb_wf_IngestFault)

lemmas ingest_wf = arb_wf_IngestFault arb_wf_InjectFault arb_wf_IngestSoaEvent
  arb_wf_RecordHeartbeat arb_wf_RegisterListener

text \<open>The part of the arbitrator the invariant looks at, apart from well-formedness.\<close>

definition same_core :: "'l SafetyArbitrator \<Rightarrow> 'l SafetyArbitrator \<Rightarrow> bool" where
  "same_core a b \<longleftrightarrow>
     arb_initialised b = arb_initialised a \<and> arb_currentState b = arb_currentState a \<and>
     arb_lastCommand b = arb_lastCommand a \<and> arb_transitionCount b = arb_transitionCount a \<and>
     arb_sequenceNum b = arb_sequenceNum a \<and> arb_logHead b = arb_logHead a \<and>
     arb_transitionLog b = arb_transitionLog a"

lemma run_inv_same_core:
  "run_inv s \<Longrightarrow> same_core (sr_arb s) b \<Longrightarrow> arb_wf b \<Longrightarrow> run_inv (s\<lparr>sr_arb := b\<rparr>)"
  by (simp add: run_inv_def same_core_def command_ok_def Let_def)

lemma same_core_update_domain: "same_core a (update_domain i f a)"
  by (simp add: same_core_def update_domain_def)

lemma same_core_refl: "same_core a a"
  by (simp add: same_core_def)

lemma same_core_ingest:
  "same_core a (snd (IngestFault e now a))" "same_core a (snd (InjectFault d h dtc stamp now a))"
  "same_core a (snd (IngestSoaEvent ev now a))" "same_core a (snd (RecordHeartbeat d now a))"
  "same_core a (snd (RegisterListener l a))"
  by (simp_all add: IngestFault_def InjectFault_def IngestSoaEvent_def RecordHeartbeat_def Let_def
      same_core_update_domain same_core_refl) (simp add: RegisterListener_def same_core_def)

lemma run_inv_cycle:
  assumes "run_inv s"
  shows "run_inv (s\<lparr>sr_arb := cycle ct (sr_arb s), sr_hist := sr_hist s @ hist_step ct (sr_arb s)\<rparr>)"
proof -
  let ?a = "sr_arb s" and ?b = "cycle_start (ct_scan ct) (sr_arb s)"
  have inv: "arb_wf ?a" "arb_initialised ?a" "arb_currentState ?a \<noteq> kEmergencyStop"
    using assms by (simp_all add: run_inv_def Let_def)
  have len: "length (arb_domains ?a) = 8" using inv(1) by (simp add: arb_wf_def)
  note fr = cycle_start_frame [OF len, of "ct_scan ct"]
  note cyc = cycle_cases [OF inv, of ct]
  show ?thesis
  proof (cases "required_state (ct_scan ct) ?a = arb_currentState ?a")
    case True
    then have "same_core ?a (cycle ct ?a)" "arb_wf (cycle ct ?a)" "hist_step ct ?a = []"
      using inv(1) fr by (simp_all add: cyc same_core_def arb_wf_cycle_start hist_step_def)
    then show ?thesis using run_inv_same_core [OF assms] by simp
  next
    case False
    let ?r = "log_entry ct (required_state (ct_scan ct) ?a) ?b"
    have h: "hist_step ct ?a = [?r]"
      using False by (simp add: hist_step_def cyc)
    have log: "arb_transitionLog (cycle ct ?a) = (arb_transitionLog ?a)[unat (arb_logHead ?a) := ?r]"
      "arb_logHead (cycle ct ?a) = u8_next 32 (arb_logHead ?a)"
      using False fr by (simp_all add: cyc executed_def)
    have "unat (u8_next 32 (arb_logHead ?a)) = Suc (length (sr_hist s)) mod 32"
      using assms by (simp add: run_inv_def Let_def unat_u8_next mod_Suc_eq)
    then show ?thesis
      using assms False h log fr required_state_not_stop [OF inv(1)]
        arb_wf_executed [OF arb_wf_cycle_start [OF inv(1)]]
      by (auto simp: run_inv_def Let_def cyc command_ok_def final_command_def build_command_def
          log_holds_snoc linked_snoc log_entry_def nth_append less_Suc_eq arb_wf_def)
  qed
qed

lemma run_inv_step: "safety_step s s' \<Longrightarrow> run_inv s \<Longrightarrow> run_inv s'"
proof (induction rule: safety_step.induct)
  case (s_cycle s ct)
  then show ?case by (rule run_inv_cycle)
next
  case (s_init s m now)
  then have "snd (SafetyArbitrator_Init m now (sr_arb s)) = sr_arb s"
    by (simp add: SafetyArbitrator_Init_def run_inv_def Let_def)
  with s_init show ?case by simp
next
  case (s_link ipc s)
  then show ?case
    by (intro run_inv_same_core) (auto simp: same_core_def run_inv_def arb_wf_def Let_def)
qed (simp_all add: run_inv_same_core same_core_ingest ingest_wf run_inv_wf)

lemma run_inv_reachable:
  assumes "safety_step\<^sup>*\<^sup>* (run_start a') s" "SafetyArbitrator_Init m now a = (Ok (), a')" "arb_wf a"
  shows "run_inv s"
  using assms(1)
  by induction (use assms(2,3) in \<open>auto intro: run_inv_start run_inv_step\<close>)

end
