(* ===== verification/Interleave.thy ===== *)
theory Interleave
  imports Prelude
begin

text \<open>
  Interleavings of calls on a shared state. A call is a program counter with its locals; an access
  is one atomic step of a call on the state. A schedule names, for each access, the call that
  makes it; a call that has ended makes empty accesses.
\<close>

fun run_schedule :: "('p \<Rightarrow> 's \<Rightarrow> 'p \<times> 's) \<Rightarrow> nat list \<Rightarrow> 'p list \<times> 's \<Rightarrow> 'p list \<times> 's" where
  "run_schedule access [] x = x"
| "run_schedule access (i # is) (ps, s) =
     (if i < length ps
      then let (p, s1) = access (ps ! i) s in run_schedule access is (ps[i := p], s1)
      else run_schedule access is (ps, s))"

text \<open>
  An invariant of every schedule: it holds of the calls and the state together, with the number of
  accesses still to come.
\<close>

lemma run_schedule_invariant:
  assumes "I (length is) ps s"
    and "\<And>n i p s1 ps s. I (Suc n) ps s \<Longrightarrow> i < length ps \<Longrightarrow> access (ps ! i) s = (p, s1) \<Longrightarrow>
      I n (ps[i := p]) s1"
    and "\<And>n ps s. I (Suc n) ps s \<Longrightarrow> I n ps s"
  shows "case_prod (I 0) (run_schedule access is (ps, s))"
  using assms(1)
proof (induction "is" arbitrary: ps s)
  case (Cons i "is")
  show ?case
  proof (cases "i < length ps")
    case True
    obtain p s1 where a: "access (ps ! i) s = (p, s1)" by fastforce
    have "I (length is) (ps[i := p]) s1"
      using assms(2) Cons.prems True a by simp
    then show ?thesis using Cons.IH True a by simp
  next
    case False
    have "I (length is) ps s" using assms(3) Cons.prems by simp
    then show ?thesis using Cons.IH False by simp
  qed
qed simp

lemma run_schedule_append:
  "run_schedule access (xs @ ys) x = run_schedule access ys (run_schedule access xs x)"
  by (induction access xs x rule: run_schedule.induct) (auto simp: split_beta Let_def)

lemma run_schedule_replicate_Suc:
  "run_schedule access (replicate (Suc n) i) x = run_schedule access [i] (run_schedule access (replicate n i) x)"
  by (simp add: run_schedule_append [symmetric] replicate_append_same del: run_schedule.simps)

lemma replicate_numeral: "replicate (numeral k) x = x # replicate (pred_numeral k) x"
  by (simp add: numeral_eq_Suc)

lemma list_all_update: "list_all P xs \<Longrightarrow> P x \<Longrightarrow> list_all P (xs[i := x])"
  by (cases "i < length xs") (auto simp: list_all_length nth_list_update list_update_beyond)

end
