(* ===== verification/DomainRace.thy ===== *)
theory DomainRace
  imports SafetyMatrix Interleave
begin

text \<open>
  One row of the domain table of \<open>src/SafetyArbitrator.cpp\<close> under concurrency: \<open>IngestFault\<close> and
  \<open>RecordHeartbeat\<close> may run on any thread and beside the timeout scan of the safety loop. Each
  atomic load, store or \<open>fetch_add\<close> is one access; a schedule says whose access is next.
\<close>

section \<open>Accesses\<close>

text \<open>
  Where a call stands: \<open>In\<close> for \<open>IngestFault\<close> (with the event and the clock reading of a nominal
  report), \<open>Hb\<close> for \<open>RecordHeartbeat\<close>, \<open>Sc\<close> for one iteration of \<open>ScanTimeouts\<close>.
\<close>

datatype row_pc =
    RowDone
  | InHealth SensorFaultEvent u64 | InDtc SensorFaultEvent u64 | InCount SensorFaultEvent u64
  | InBeat u64
  | HbBeat u64 | HbLoad | HbStore
  | ScBeat u64 | ScHealth | ScStore | ScCount

text \<open>
  The accesses of each operation; a call that is not at one of its places makes an empty one.
\<close>

fun ingest_access :: "row_pc \<Rightarrow> DomainState \<Rightarrow> row_pc \<times> DomainState" where
  "ingest_access (InHealth e t) d = (InDtc e t, d\<lparr>dom_health := fe_health e\<rparr>)"
| "ingest_access (InDtc e t) d = (InCount e t, d\<lparr>dom_dtcCode := fe_faultCode e\<rparr>)"
| "ingest_access (InCount e t) d =
     (if fe_health e = kNominal then (InBeat t, d\<lparr>dom_faultCount := 0\<rparr>)
      else (RowDone, d\<lparr>dom_faultCount := dom_faultCount d + 1\<rparr>))"
| "ingest_access (InBeat t) d = (RowDone, d\<lparr>dom_lastHeartbeat := t\<rparr>)"
| "ingest_access p d = (p, d)"

fun heartbeat_access :: "row_pc \<Rightarrow> DomainState \<Rightarrow> row_pc \<times> DomainState" where
  "heartbeat_access (HbBeat t) d = (HbLoad, d\<lparr>dom_lastHeartbeat := t\<rparr>)"
| "heartbeat_access HbLoad d = (if dom_faultCount d = 0 then (HbStore, d) else (RowDone, d))"
| "heartbeat_access HbStore d = (RowDone, d\<lparr>dom_health := kNominal\<rparr>)"
| "heartbeat_access p d = (p, d)"

fun scan_access :: "row_pc \<Rightarrow> DomainState \<Rightarrow> row_pc \<times> DomainState" where
  "scan_access (ScBeat nowMs) d =
     (let lastBeat = dom_lastHeartbeat d
      in if nowMs < lastBeat then (RowDone, d)
         else if nowMs - lastBeat > ucast kSensorTimeoutMs then (ScHealth, d) else (RowDone, d))"
| "scan_access ScHealth d = (if dom_health d \<noteq> kFailed then (ScStore, d) else (RowDone, d))"
| "scan_access ScStore d = (ScCount, d\<lparr>dom_health := kFailed\<rparr>)"
| "scan_access ScCount d = (RowDone, d\<lparr>dom_faultCount := dom_faultCount d + 1\<rparr>)"
| "scan_access p d = (p, d)"

fun row_access :: "row_pc \<Rightarrow> DomainState \<Rightarrow> row_pc \<times> DomainState" where
  "row_access (HbBeat t) d = heartbeat_access (HbBeat t) d"
| "row_access HbLoad d = heartbeat_access HbLoad d"
| "row_access HbStore d = heartbeat_access HbStore d"
| "row_access (ScBeat t) d = scan_access (ScBeat t) d"
| "row_access ScHealth d = scan_access ScHealth d"
| "row_access ScStore d = scan_access ScStore d"
| "row_access ScCount d = scan_access ScCount d"
| "row_access p d = ingest_access p d"

abbreviation race :: "nat list \<Rightarrow> row_pc list \<times> DomainState \<Rightarrow> row_pc list \<times> DomainState" where
  "race \<equiv> run_schedule row_access"

section \<open>Without interference\<close>

definition row_alone :: "row_pc \<Rightarrow> DomainState \<Rightarrow> DomainState" where
  "row_alone p d = snd (race [0, 0, 0, 0] ([p], d))"

text \<open>The accesses of one call in sequence have the effect of the operation modelled as one step.\<close>

lemma ingest_alone:
  "arb_initialised a \<Longrightarrow> fe_domain e < kNumSensorDomains \<Longrightarrow>
     IngestFault e t a = (Ok (), update_domain (unat (fe_domain e)) (row_alone (InHealth e t)) a)"
  by (simp add: IngestFault_def row_alone_def Let_def not_le update_domain_def)

lemma heartbeat_alone:
  "arb_initialised a \<Longrightarrow> dm < kNumSensorDomains \<Longrightarrow>
     RecordHeartbeat dm t a = (Ok (), update_domain (unat dm) (row_alone (HbBeat t)) a)"
  by (simp add: RecordHeartbeat_def row_alone_def Let_def not_le update_domain_def)

lemma scan_alone: "scan_domain t d = row_alone (ScBeat t) d"
  by (simp add: scan_domain_def row_alone_def Let_def)

section \<open>A complete failure report persists\<close>

text \<open>Calls that cannot make the row nominal while its counter is not zero.\<close>

fun no_recovery :: "row_pc \<Rightarrow> bool" where
  "no_recovery (InHealth e _) \<longleftrightarrow> fe_health e \<noteq> kNominal"
| "no_recovery (InDtc e _) \<longleftrightarrow> fe_health e \<noteq> kNominal"
| "no_recovery (InCount e _) \<longleftrightarrow> fe_health e \<noteq> kNominal"
| "no_recovery HbStore \<longleftrightarrow> False"
| "no_recovery _ \<longleftrightarrow> True"

lemma count_up:
  fixes c :: u32
  assumes "Suc (unat c) < 2 ^ 32"
  shows "unat (c + 1) = Suc (unat c)" "c + 1 \<noteq> 0"
proof -
  show "unat (c + 1) = Suc (unat c)" using assms by (simp add: unat_word_ariths)
  then show "c + 1 \<noteq> 0" by (metis nat.distinct(1) unat_0)
qed

lemma no_recovery_access:
  assumes "no_recovery p" "row_access p d = (p', d')"
    and "dom_health d \<noteq> kNominal" "dom_faultCount d \<noteq> 0"
    and "Suc (unat (dom_faultCount d)) < 2 ^ 32"
  shows "no_recovery p'" "dom_health d' \<noteq> kNominal" "dom_faultCount d' \<noteq> 0"
    "unat (dom_faultCount d') \<le> Suc (unat (dom_faultCount d))"
  using assms count_up [of "dom_faultCount d"]
  by (cases p; auto simp: Let_def split: if_splits)+

text \<open>Each access adds at most one, so the counter does not wrap within the schedule.\<close>

definition standing :: "nat \<Rightarrow> row_pc list \<Rightarrow> DomainState \<Rightarrow> bool" where
  "standing n ps d \<longleftrightarrow> list_all no_recovery ps \<and> dom_health d \<noteq> kNominal \<and> dom_faultCount d \<noteq> 0 \<and>
     unat (dom_faultCount d) + n < 2 ^ 32"

lemma standing_access:
  assumes "standing (Suc n) ps d" "i < length ps" "row_access (ps ! i) d = (p, d1)"
  shows "standing n (ps[i := p]) d1"
proof -
  have "no_recovery (ps ! i)"
    using assms(1,2) by (simp add: standing_def list_all_length)
  then have "no_recovery p" "dom_health d1 \<noteq> kNominal" "dom_faultCount d1 \<noteq> 0"
    "unat (dom_faultCount d1) \<le> Suc (unat (dom_faultCount d))"
    using no_recovery_access [OF _ assms(3)] assms(1) by (simp_all add: standing_def)
  then show ?thesis
    using assms(1) by (simp add: standing_def list_all_update)
qed

lemma no_recovery_race:
  assumes "list_all no_recovery ps" "dom_health d \<noteq> kNominal" "dom_faultCount d \<noteq> 0"
    and "unat (dom_faultCount d) + length is < 2 ^ 32"
  shows "dom_health (snd (race is (ps, d))) \<noteq> kNominal \<and> dom_faultCount (snd (race is (ps, d))) \<noteq> 0"
proof -
  have "case_prod (standing 0) (race is (ps, d))"
  proof (rule run_schedule_invariant [where I = standing])
    show "standing (length is) ps d" using assms by (simp add: standing_def)
  qed (erule (2) standing_access | simp add: standing_def)+
  then show ?thesis by (simp add: standing_def split_beta)
qed

section \<open>A heartbeat that overlaps a failure report\<close>

text \<open>
  The accesses of a failure report are \<open>0\<close>, those of a heartbeat \<open>1\<close>; the row starts nominal with
  its counter at zero. The report stands if the heartbeat is over before it begins, or if the
  heartbeat reads the counter after it has been raised.
\<close>

definition report_stands :: "nat list \<Rightarrow> bool" where
  "report_stands xs \<longleftrightarrow> take 3 xs = [1, 1, 1] \<or> drop 4 xs = [1, 1]"

lemma race_outcome:
  assumes "xs \<in> shuffles [0, 0, 0] [1, 1, 1]"
    and "dom_faultCount d = 0" "fe_health e \<noteq> kNominal"
  shows "race xs ([InHealth e t, HbBeat t], d) = ([RowDone, RowDone],
    d\<lparr>dom_health := (if report_stands xs then fe_health e else kNominal),
      dom_dtcCode := fe_faultCode e, dom_faultCount := 1, dom_lastHeartbeat := t\<rparr>)"
  using assms by (auto simp: report_stands_def)

end
