(* ===== verification/SafetyRows.thy ===== *)
theory SafetyRows
  imports SafetyRun DomainRace
begin

text \<open>
  Invariants of single rows of the domain table of \<open>src/SafetyArbitrator.cpp\<close>, over runs whose fault
  reports satisfy a condition: the locale \<open>row_invariant\<close> asks for the laws of one row, its lemmas
  give the table in every run. \<open>health_typed\<close>: the health of a row is an enumerator of
  \<open>SensorHealth\<close> as long as every report carries one.
\<close>

section \<open>Runs with admissible reports\<close>

inductive reported_step ::
  "(SensorFaultEvent \<Rightarrow> bool) \<Rightarrow> 'l SafetyArbitrator \<Rightarrow> 'l SafetyArbitrator \<Rightarrow> bool" for allowed where
  r_fault: "allowed e \<Longrightarrow> reported_step allowed a (snd (IngestFault e now a))"
| r_inject: "allowed \<lparr>fe_domain = d, fe_health = h, fe_timestampMs = ucast stamp, fe_faultCode = dtc\<rparr> \<Longrightarrow>
    reported_step allowed a (snd (InjectFault d h dtc stamp now a))"
| r_event: "allowed (decode_fault (ev_payload ev)) \<Longrightarrow> reported_step allowed a (snd (IngestSoaEvent ev now a))"
| r_beat: "reported_step allowed a (snd (RecordHeartbeat d now a))"
| r_listener: "reported_step allowed a (snd (RegisterListener l a))"
| r_cycle: "reported_step allowed a (cycle ct a)"
| r_link: "ipc_wf ipc \<Longrightarrow> reported_step allowed a (a\<lparr>arb_ipc := ipc\<rparr>)"

lemma domains_cycle:
  assumes "arb_wf a" "arb_initialised a"
  shows "arb_domains (cycle ct a) = map (scan_domain (ct_scan ct)) (arb_domains a)"
    "arb_initialised (cycle ct a)" "arb_wf (cycle ct a)"
proof -
  have len: "length (arb_domains a) = 8" using assms(1) by (simp add: arb_wf_def)
  have "cycle ct a = cycle_start (ct_scan ct) a \<or>
      cycle ct a = executed ct (required_state (ct_scan ct) a) (cycle_start (ct_scan ct) a)"
    using assms by (simp add: cycle_def Arbitrate_plain Let_def)
  then show "arb_domains (cycle ct a) = map (scan_domain (ct_scan ct)) (arb_domains a)"
    "arb_initialised (cycle ct a)" "arb_wf (cycle ct a)"
    using cycle_start_frame [OF len, of "ct_scan ct"] arb_wf_cycle_start [OF assms(1)] assms(2)
    by (auto simp: arb_wf_executed)
qed

section \<open>Invariants of a row\<close>

locale row_invariant =
  fixes P :: "DomainState \<Rightarrow> bool" and allowed :: "SensorFaultEvent \<Rightarrow> bool"
  assumes row_init: "P (init_domain m now i)"
    and row_ingest: "allowed e \<Longrightarrow> P d \<Longrightarrow> P (row_alone (InHealth e t) d)"
    and row_beat: "P d \<Longrightarrow> P (row_alone (HbBeat t) d)"
    and row_scan: "P d \<Longrightarrow> P (row_alone (ScBeat t) d)"
begin

definition rows :: "'l SafetyArbitrator \<Rightarrow> bool" where
  "rows a \<longleftrightarrow> arb_wf a \<and> arb_initialised a \<and> list_all P (arb_domains a)"

lemma rows_nth: "rows a \<Longrightarrow> i < 8 \<Longrightarrow> P (arb_domains a ! i)"
  by (simp add: rows_def arb_wf_def list_all_length)

lemma rows_initialised: "rows a \<Longrightarrow> arb_initialised a"
  by (simp add: rows_def)

lemma rows_start:
  assumes "SafetyArbitrator_Init m now a = (Ok (), a')" "arb_wf a"
  shows "rows a'"
  using assms arb_wf_Init [OF assms(2), of m now] row_init
  by (auto simp: rows_def SafetyArbitrator_Init_def list_all_iff split: if_splits)

lemma rows_update:
  assumes "rows a" "i < 8" "P (f (arb_domains a ! i))"
  shows "rows (update_domain i f a)"
  using assms by (simp add: rows_def update_domain_def list_all_update arb_wf_def)

lemma rows_IngestFault:
  assumes "rows a" "allowed e"
  shows "rows (snd (IngestFault e now a))"
proof (cases "fe_domain e < kNumSensorDomains")
  case True
  then have "unat (fe_domain e) < 8" by (simp add: word_less_nat_alt)
  then have "rows (update_domain (unat (fe_domain e)) (row_alone (InHealth e now)) a)"
    using rows_update [OF assms(1)] row_ingest [OF assms(2) rows_nth [OF assms(1)]] by blast
  then show ?thesis
    using ingest_alone [OF rows_initialised [OF assms(1)] True, of now] by simp
next
  case False
  then show ?thesis using assms(1) by (simp add: IngestFault_def Let_def not_less)
qed

lemma rows_RecordHeartbeat:
  assumes "rows a"
  shows "rows (snd (RecordHeartbeat d now a))"
proof (cases "d < kNumSensorDomains")
  case True
  then have "unat d < 8" by (simp add: word_less_nat_alt)
  then have "rows (update_domain (unat d) (row_alone (HbBeat now)) a)"
    using rows_update [OF assms] row_beat [OF rows_nth [OF assms]] by blast
  then show ?thesis
    using heartbeat_alone [OF rows_initialised [OF assms] True, of now] by simp
next
  case False
  then show ?thesis using assms by (simp add: RecordHeartbeat_def Let_def not_less)
qed

lemma rows_step: "reported_step allowed a b \<Longrightarrow> rows a \<Longrightarrow> rows b"
proof (induction rule: reported_step.induct)
  case (r_event ev a now)
  then show ?case by (simp add: IngestSoaEvent_def rows_IngestFault)
next
  case (r_listener a l)
  then show ?case using arb_wf_RegisterListener [of a l] by (auto simp: rows_def RegisterListener_def)
next
  case (r_cycle a ct)
  then show ?case
    using domains_cycle [of a ct] row_scan by (auto simp: rows_def list_all_iff scan_alone)
next
  case (r_link ipc a)
  then show ?case by (simp add: rows_def arb_wf_def)
qed (simp_all add: InjectFault_def rows_IngestFault rows_RecordHeartbeat)

lemma rows_reachable:
  assumes "(reported_step allowed)\<^sup>*\<^sup>* a' b" "SafetyArbitrator_Init m now a = (Ok (), a')" "arb_wf a"
  shows "rows b"
  using assms(1)
  by induction (use assms(2,3) in \<open>auto intro: rows_start rows_step\<close>)

end

section \<open>Health bytes\<close>

definition health_typed :: "SensorHealth \<Rightarrow> bool" where
  "health_typed h \<longleftrightarrow> h \<in> {kNominal, kDegraded, kFailed, kHealthUnknown}"

interpretation typed_rows: row_invariant "\<lambda>d. health_typed (dom_health d)" "\<lambda>e. health_typed (fe_health e)"
  by unfold_locales (auto simp: health_typed_def init_domain_def row_alone_def Let_def)

section \<open>Rows lost by silence alone\<close>

text \<open>With no fault report at all, a counter passes 1 never, and is not zero exactly for failed rows.\<close>

definition quiet_row :: "DomainState \<Rightarrow> bool" where
  "quiet_row d \<longleftrightarrow> unat (dom_faultCount d) \<le> 1 \<and> (dom_faultCount d \<noteq> 0 \<longleftrightarrow> dom_health d = kFailed)"

interpretation quiet_rows: row_invariant quiet_row "\<lambda>e. False"
  by unfold_locales (auto simp: quiet_row_def init_domain_def row_alone_def Let_def)

abbreviation quiet_step :: "'l SafetyArbitrator \<Rightarrow> 'l SafetyArbitrator \<Rightarrow> bool" where
  "quiet_step \<equiv> reported_step (\<lambda>e. False)"

end
