(* ===== verification/SafetyAudit.thy ===== *)
theory SafetyAudit
  imports SafetyRows
begin

text \<open>
  Consequences of the run invariant: what \<open>DrainTransitionLog\<close> returns; and the runs in which
  sensors are lost by silence alone (heartbeats and cycles, no fault event): the fault
  counters then never pass 1, and the eighth domain row, which no event can reach, times out
  for good.
\<close>

section \<open>Draining the transition log\<close>

lemma unat_drain_index:
  assumes "unat h < 32" "i < 32"
  shows "drain_index h i = (unat h + 31 - i) mod 32"
proof -
  have i: "unat (word_of_nat i :: u32) = i"
    using assms(2) by (simp add: unat_of_nat)
  have s: "unat (ucast h + 32 - 1 :: u32) = unat h + 31"
  proof -
    have "(ucast h + 32 - 1 :: u32) = ucast h + 31" by simp
    moreover have "unat (ucast h + 31 :: u32) = unat h + 31"
      using assms(1) by (simp add: unat_word_ariths)
    ultimately show ?thesis by (simp only:)
  qed
  have "unat (ucast h + 32 - 1 - word_of_nat i :: u32) = unat h + 31 - i"
    using assms unat_sub [of "word_of_nat i" "ucast h + 32 - 1 :: u32"]
    unfolding word_le_nat_alt i s by simp
  then show ?thesis
    by (simp only: drain_index_def unat_mod) simp
qed

lemma drain_slot:
  fixes n i :: nat
  assumes "i < n" "i < 32"
  shows "(n mod 32 + 31 - i) mod 32 = (n - 1 - i) mod 32"
proof -
  have "n mod 32 + 31 - i = n mod 32 + (31 - i)" using assms by simp
  then have "(n mod 32 + 31 - i) mod 32 = (n + (31 - i)) mod 32"
    by (simp add: mod_add_left_eq)
  also have "n + (31 - i) = (n - 1 - i) + 32" using assms by simp
  finally show ?thesis by simp
qed

lemma log_read:
  assumes "log_holds log hist" "unat h = length hist mod 32" "i < length hist" "i < 32"
  shows "log ! drain_index h i = rev hist ! i"
proof -
  let ?n = "length hist"
  have "drain_index h i = (?n - 1 - i) mod 32"
    using unat_drain_index [of h i] assms(2-4) by (simp add: drain_slot)
  moreover have "log ! ((?n - 1 - i) mod 32) = hist ! (?n - 1 - i)"
    using assms(1,3,4) unfolding log_holds_def by (elim allE [of _ "?n - 1 - i"]) simp
  ultimately show ?thesis
    using assms(3) by (simp add: rev_nth)
qed

lemma drain_record:
  "run_inv s \<Longrightarrow> i < length (sr_hist s) \<Longrightarrow> i < 32 \<Longrightarrow>
     arb_transitionLog (sr_arb s) ! drain_index (arb_logHead (sr_arb s)) i = rev (sr_hist s) ! i"
  by (rule log_read) (simp_all add: run_inv_def Let_def)

lemma fold_update_prefix:
  assumes "n \<le> length buf" "n \<le> length xs" "\<And>i. i < n \<Longrightarrow> f i = xs ! i"
  shows "fold (\<lambda>i b. b[i := f i]) [0..<n] buf = take n xs @ drop n buf"
  using assms
proof (induction n)
  case (Suc n)
  then have "fold (\<lambda>i b. b[i := f i]) [0..<n] buf = take n xs @ drop n buf" by simp
  then show ?case
    using Suc.prems by (simp add: list_update_append take_Suc_conv_app_nth Cons_nth_drop_Suc [symmetric])
qed simp

text \<open>
  With fewer than \<open>2 ^ 32\<close> transitions behind it, the drain returns the newest records first,
  as many as were made, at most 32 and at most the buffer's size.
\<close>

lemma Drain_newest_first:
  assumes "run_inv s" "length (sr_hist s) < 2 ^ 32" "unat sz \<le> length buf"
  shows "DrainTransitionLog (Some buf) sz (sr_arb s) =
    (let k = min (min (length (sr_hist s)) 32) (unat sz)
     in (word_of_nat k, Some (take k (rev (sr_hist s)) @ drop k buf)))"
proof -
  let ?n = "length (sr_hist s)" and ?a = "sr_arb s"
  have c: "unat (arb_transitionCount ?a) = ?n"
    using assms(1,2) by (simp add: run_inv_def Let_def unat_of_nat)
  define count :: u8 where "count = (if arb_transitionCount ?a > 32 then 32 else ucast (arb_transitionCount ?a))"
  have count: "unat count = min ?n 32"
    using c by (auto simp: count_def word_less_nat_alt unat_ucast_u32_u8)
  define k where "k = min (min ?n 32) (unat sz)"
  have toCopy: "unat (if count < sz then count else sz) = k"
    by (simp add: k_def word_less_nat_alt count min_def)
  then have w: "(if count < sz then count else sz) = word_of_nat k"
    by (metis of_nat_unat ucast_id)
  have fold: "fold (\<lambda>i b. b[i := arb_transitionLog ?a ! drain_index (arb_logHead ?a) i]) [0..<k] buf
      = take k (rev (sr_hist s)) @ drop k buf"
    using assms by (intro fold_update_prefix drain_record) (simp_all add: k_def)
  show ?thesis
  proof (cases "sz = 0")
    case True
    then show ?thesis by (simp add: DrainTransitionLog_def Let_def)
  next
    case False
    then show ?thesis
      unfolding DrainTransitionLog_def Let_def count_def [symmetric] k_def [symmetric]
      using fold w toCopy by simp
  qed
qed

section \<open>Losses seen by silence\<close>

definition quiet_inv :: "'l SafetyArbitrator \<Rightarrow> bool" where
  "quiet_inv a \<longleftrightarrow> quiet_rows.rows a \<and> arb_currentState a \<noteq> kEmergencyStop \<and>
     (arb_currentState a = kMinimalRiskCondition \<longrightarrow> failed a 0 \<and> failed a 1)"

lemma quiet_ticks: "quiet_rows.rows a \<Longrightarrow> i < 8 \<Longrightarrow> unat (fault_ticks now a i) \<le> 1"
  using quiet_rows.rows_nth [of a i] by (auto simp: fault_ticks_def Let_def quiet_row_def)

lemma quiet_no_escalation: "quiet_rows.rows a \<Longrightarrow> \<not> mandatory_escalation now a"
  using quiet_ticks [of a _ now] unfolding mandatory_escalation_def by fastforce

text \<open>A heartbeat does not revive a failed row, whose counter is not zero.\<close>

lemma quiet_beat_failed:
  assumes "quiet_rows.rows a" "i < 8" "failed a i"
  shows "failed (snd (RecordHeartbeat d now a)) i"
  using assms quiet_rows.rows_nth [OF assms(1,2)]
  by (auto simp: RecordHeartbeat_def Let_def failed_def update_domain_nth quiet_row_def
      quiet_rows.rows_def arb_wf_def)

lemma quiet_inv_cycle:
  assumes "quiet_inv a"
  shows "quiet_inv (cycle ct a)"
proof -
  have rows: "quiet_rows.rows a" using assms by (simp add: quiet_inv_def)
  then have inv: "arb_wf a" "arb_initialised a" "arb_currentState a \<noteq> kEmergencyStop"
    using assms by (simp_all add: quiet_rows.rows_def quiet_inv_def)
  have st: "arb_currentState (cycle ct a) = degradation_matrix False (lost (ct_scan ct) a 0)
      (lost (ct_scan ct) a 1) (lost (ct_scan ct) a 2) (lost (ct_scan ct) a 3) (lost (ct_scan ct) a 4)"
    using quiet_no_escalation [OF rows] by (simp add: cycle_state [OF inv] required_state_eq [OF inv(1)])
  have "lost (ct_scan ct) a 0 \<and> lost (ct_scan ct) a 1"
    if "arb_currentState (cycle ct a) = kMinimalRiskCondition"
    using that unfolding st by (auto simp: degradation_matrix_def split: if_splits)
  moreover have "arb_currentState (cycle ct a) \<noteq> kEmergencyStop"
    unfolding st by (rule degradation_matrix_not_stop)
  ultimately show ?thesis
    using quiet_rows.rows_step [OF r_cycle rows] cycle_fault_mask(2) [OF inv(1,2)]
    by (simp add: quiet_inv_def)
qed

lemma quiet_inv_step: "quiet_step a b \<Longrightarrow> quiet_inv a \<Longrightarrow> quiet_inv b"
proof -
  assume step: "quiet_step a b" and a: "quiet_inv a"
  then have rows: "quiet_rows.rows a" "quiet_rows.rows b"
    using quiet_rows.rows_step [OF step] by (simp_all add: quiet_inv_def)
  from step show ?thesis
  proof cases
    case (r_beat d now)
    then show ?thesis
      using a rows quiet_beat_failed [OF rows(1)] same_core_ingest(4) [of a d now]
      by (simp add: quiet_inv_def same_core_def)
  next
    case (r_cycle ct)
    then show ?thesis using quiet_inv_cycle [OF a] by simp
  qed (use a rows in \<open>auto simp: quiet_inv_def failed_def RegisterListener_def\<close>)
qed

lemma quiet_inv_reachable:
  assumes "quiet_step\<^sup>*\<^sup>* a' b" "SafetyArbitrator_Init m now a = (Ok (), a')" "arb_wf a"
  shows "quiet_inv b"
  using assms(1)
proof induction
  case base
  have "arb_currentState a' = kFullOperation"
    using assms(2) by (auto simp: SafetyArbitrator_Init_def split: if_splits)
  then show ?case using quiet_rows.rows_start [OF assms(2,3)] by (simp add: quiet_inv_def)
qed (rule quiet_inv_step)

lemma unat_less_7: "\<not> (d :: u8) \<ge> kNumSensorDomains \<Longrightarrow> unat d < 7"
  by (simp add: word_le_nat_alt)

section \<open>The unreachable eighth row\<close>

text \<open>Row 7 has no sensor: events and heartbeats for it are refused, so its age only grows.\<close>

definition row7_inv :: "u64 \<Rightarrow> 'l SafetyArbitrator \<Rightarrow> bool" where
  "row7_inv t0 a \<longleftrightarrow> arb_wf a \<and> arb_initialised a \<and> dom_lastHeartbeat (arb_domains a ! 7) = t0 \<and>
     dom_health (arb_domains a ! 7) \<in> {kHealthUnknown, kFailed}"

lemma row7_update_domain: "i < 7 \<Longrightarrow> row7_inv t0 (update_domain i f a) = row7_inv t0 a"
  by (simp add: row7_inv_def update_domain_def arb_wf_def)

lemma row7_IngestFault: "row7_inv t0 a \<Longrightarrow> row7_inv t0 (snd (IngestFault e now a))"
  using unat_less_7 [of "fe_domain e"] by (simp add: IngestFault_def Let_def row7_update_domain)

lemma row7_RecordHeartbeat: "row7_inv t0 a \<Longrightarrow> row7_inv t0 (snd (RecordHeartbeat d now a))"
  using unat_less_7 [of d] by (simp add: RecordHeartbeat_def Let_def row7_update_domain)

lemma row7_cycle: "row7_inv t0 a \<Longrightarrow> row7_inv t0 (cycle ct a)"
  using domains_cycle [of a ct] by (auto simp: row7_inv_def arb_wf_def scan_domain_eq)

lemma row7_lost:
  assumes "row7_inv t0 a" "unat t0 + 100 < unat (ct_scan ct)"
  shows "bit (arb_faultBitmask (cycle ct a)) 7" "failed (cycle ct a) 7"
  using assms cycle_fault_mask [where a = a and ct = ct and i = 7]
  by (auto simp: row7_inv_def lost_def timed_out_def)

lemma row7_start:
  assumes "SafetyArbitrator_Init m t0 a = (Ok (), a')" "arb_wf a"
  shows "row7_inv t0 a'"
  using assms arb_wf_Init [OF assms(2), of m t0]
  by (auto simp: row7_inv_def SafetyArbitrator_Init_def init_domain_def split: if_splits)

lemma row7_step: "safety_step s s' \<Longrightarrow> row7_inv t0 (sr_arb s) \<Longrightarrow> row7_inv t0 (sr_arb s')"
proof (induction rule: safety_step.induct)
  case (s_listener s l)
  then show ?case
    using arb_wf_RegisterListener [of "sr_arb s" l] by (auto simp: row7_inv_def RegisterListener_def)
next
  case (s_init s m now)
  then show ?case by (simp add: SafetyArbitrator_Init_def row7_inv_def)
next
  case (s_link ipc s)
  then show ?case by (simp add: row7_inv_def arb_wf_def)
qed (simp_all add: row7_IngestFault row7_RecordHeartbeat row7_cycle InjectFault_def IngestSoaEvent_def)

lemma row7_reachable:
  assumes "safety_step\<^sup>*\<^sup>* (run_start a') s" "SafetyArbitrator_Init m t0 a = (Ok (), a')" "arb_wf a"
  shows "row7_inv t0 (sr_arb s)"
  using assms(1)
  by induction (use row7_start [OF assms(2,3)] in \<open>auto simp: run_start_def intro: row7_step\<close>)

end
