(* ===== verification/Registry.thy ===== *)
theory Registry
  imports SoaTypes
begin

text \<open>
  The fixed-capacity tables of the gateway (services, access policies, identities, topics)
  share one contract: rows are appended in order of registration, a row whose key is already
  there is refused, and a refused operation changes nothing. The locale states it; the client
  lemmas are the ones every table's properties use.
\<close>

locale registry =
  fixes rows :: "'s \<Rightarrow> 'r list"
    and key :: "'r \<Rightarrow> 'k"
    and add :: "'r \<Rightarrow> 's \<Rightarrow> VoidResult \<times> 's"
    and stored :: "'r \<Rightarrow> 'r"
    and wf :: "'s \<Rightarrow> bool"
    and cap :: nat
  assumes key_stored: "key (stored r) = key r"
    and rows_cap: "wf s \<Longrightarrow> length (rows s) \<le> cap"
    and add_wf: "wf s \<Longrightarrow> wf (snd (add r s))"
    and add_Ok: "wf s \<Longrightarrow> add r s = (Ok (), s') \<Longrightarrow>
      key r \<notin> key ` set (rows s) \<and> rows s' = rows s @ [stored r]"
    and add_Err: "add r s = (Err e, s') \<Longrightarrow> s' = s"
begin

definition keys :: "'s \<Rightarrow> 'k list" where
  "keys s = map key (rows s)"

lemma add_rows:
  assumes "wf s"
  shows "rows (snd (add r s)) = rows s @ (if res_ok (fst (add r s)) then [stored r] else [])"
proof (cases "add r s")
  case (Pair x s')
  then show ?thesis
    using assms add_Ok [of s r s'] add_Err [of r s _ s'] by (cases x) auto
qed

lemma keys_distinct_add: "wf s \<Longrightarrow> distinct (keys s) \<Longrightarrow> distinct (keys (snd (add r s)))"
proof (cases "add r s")
  case (Pair x s')
  assume "wf s" "distinct (keys s)"
  with Pair show ?thesis
    using add_Ok [of s r s'] add_Err [of r s _ s'] by (cases x) (auto simp: keys_def key_stored)
qed

text \<open>Lookups of other rows are not disturbed, and the new row is found.\<close>

lemma rows_old: "wf s \<Longrightarrow> i < length (rows s) \<Longrightarrow> rows (snd (add r s)) ! i = rows s ! i"
  by (simp add: add_rows nth_append)

lemma add_again: "wf s \<Longrightarrow> add r s = (Ok (), s') \<Longrightarrow> fst (add r' s') = Ok () \<Longrightarrow> key r' \<noteq> key r"
proof
  assume a: "wf s" "add r s = (Ok (), s')" "fst (add r' s') = Ok ()" "key r' = key r"
  have wf': "wf s'" using add_wf [OF a(1), of r] a(2) by simp
  obtain s'' where "add r' s' = (Ok (), s'')" using a(3) by (cases "add r' s'") simp
  then have "key r' \<notin> key ` set (rows s')" using add_Ok [OF wf'] by blast
  moreover have "rows s' = rows s @ [stored r]" using add_Ok [OF a(1,2)] by blast
  ultimately show False by (simp add: a(4) key_stored)
qed

lemma add_full:
  assumes "wf s" "length (rows s) = cap"
  shows "fst (add r s) \<noteq> Ok ()"
proof
  assume "fst (add r s) = Ok ()"
  then have "length (rows (snd (add r s))) = Suc cap"
    using assms by (simp add: add_rows)
  then show False using rows_cap [OF add_wf [OF assms(1), of r]] by simp
qed

end

text \<open>
  A table that also accepts whatever it has no reason to refuse: once it is initialised, a new
  key finds a row as long as there is one, so the table takes exactly \<open>cap\<close> distinct keys.
\<close>

locale accepting_registry = registry rows key add stored wf cap
  for rows :: "'s \<Rightarrow> 'r list"
    and key :: "'r \<Rightarrow> 'k"
    and add :: "'r \<Rightarrow> 's \<Rightarrow> VoidResult \<times> 's"
    and stored :: "'r \<Rightarrow> 'r"
    and wf :: "'s \<Rightarrow> bool"
    and cap :: nat +
  fixes ready :: "'s \<Rightarrow> bool"
  assumes add_ready: "ready s \<Longrightarrow> ready (snd (add r s))"
    and add_accepts: "wf s \<Longrightarrow> ready s \<Longrightarrow> key r \<notin> key ` set (rows s) \<Longrightarrow> length (rows s) < cap \<Longrightarrow>
      fst (add r s) = Ok ()"
begin

lemma add_fresh:
  assumes "wf s" "ready s" "key r \<notin> key ` set (rows s)" "length (rows s) < cap"
  shows "fst (add r s) = Ok ()" "rows (snd (add r s)) = rows s @ [stored r]"
    "wf (snd (add r s))" "ready (snd (add r s))"
  using add_accepts [OF assms] add_rows [OF assms(1), of r] add_wf [OF assms(1)] add_ready [OF assms(2)]
  by simp_all

lemma fill:
  assumes "wf s" "ready s" "distinct (map key rs)" "\<forall>r\<in>set rs. key r \<notin> key ` set (rows s)"
    and "length (rows s) + length rs \<le> cap"
  shows "fst (call_all (map add rs) s) = replicate (length rs) (Ok ()) \<and>
    rows (snd (call_all (map add rs) s)) = rows s @ map stored rs \<and>
    wf (snd (call_all (map add rs) s)) \<and> ready (snd (call_all (map add rs) s))"
  using assms
proof (induction rs arbitrary: s)
  case (Cons r rs)
  have "length (rows s) < cap" "key r \<notin> key ` set (rows s)" using Cons.prems by simp_all
  note new = add_fresh [OF Cons.prems(1,2) this(2,1)]
  have "\<forall>r'\<in>set rs. key r' \<notin> key ` set (rows (snd (add r s)))"
    using Cons.prems(3,4) by (auto simp: new(2) key_stored) (metis image_eqI)
  then show ?case
    using Cons.IH [of "snd (add r s)"] Cons.prems(3,5) by (simp add: new)
qed simp

lemma fill_refuse:
  assumes "wf s" "ready s" "rows s = []" "distinct (map key rs)" "length rs = cap"
  shows "fst (call_all (map add rs) s) = replicate cap (Ok ())"
    "fst (add r (snd (call_all (map add rs) s))) \<noteq> Ok ()"
proof -
  have f: "fst (call_all (map add rs) s) = replicate (length rs) (Ok ()) \<and>
      rows (snd (call_all (map add rs) s)) = rows s @ map stored rs \<and> wf (snd (call_all (map add rs) s)) \<and>
      ready (snd (call_all (map add rs) s))"
    using fill [of s rs] assms by simp
  then show "fst (call_all (map add rs) s) = replicate cap (Ok ())"
    "fst (add r (snd (call_all (map add rs) s))) \<noteq> Ok ()"
    using add_full [of "snd (call_all (map add rs) s)" r] assms(3,5) by simp_all
qed

end

end
