(* ===== verification/ServiceManager.thy ===== *)
theory ServiceManager
  imports Registry Ring Channel
begin

text \<open>
  \<open>include/SoaServiceManager.hpp\<close>, class \<open>SoaServiceManager\<close>, and \<open>src/SoaServiceManager.cpp\<close>:
  the service registry with its offer/stop state machine, the subscriber table, the event
  queue and its dispatcher. \<open>'h\<close> is the type of handler addresses. The atomics are plain
  fields: the operations are modelled one at a time, as the single-threaded event loop runs
  them.
\<close>

section \<open>State\<close>

record 'h SoaServiceManager =
  sm_registry :: "ServiceDescriptor list"
  sm_registryCount :: u8
  sm_subscribers :: "'h SubscriberEntry list"
  sm_subscriberCount :: u8
  sm_eventQueue :: "SoaEvent list"
  sm_queueHead :: u8
  sm_queueTail :: u8
  sm_initialised :: bool

definition SoaServiceManager_new :: "'h SoaServiceManager" where
  "SoaServiceManager_new =
     \<lparr>sm_registry = replicate kMaxServices ServiceDescriptor_default, sm_registryCount = 0,
      sm_subscribers = replicate kMaxSubscribers SubscriberEntry_default, sm_subscriberCount = 0,
      sm_eventQueue = replicate kMaxPendingEvents SoaEvent_default, sm_queueHead = 0,
      sm_queueTail = 0, sm_initialised = False\<rparr>"

definition SoaServiceManager_Init :: "'h SoaServiceManager \<Rightarrow> VoidResult \<times> 'h SoaServiceManager" where
  "SoaServiceManager_Init m =
     (if sm_initialised m then (Err kAlreadyRegistered, m)
      else (Ok (), m\<lparr>sm_initialised := True, sm_registryCount := 0, sm_subscriberCount := 0,
                     sm_queueHead := 0, sm_queueTail := 0\<rparr>))"

definition IsInitialised :: "'h SoaServiceManager \<Rightarrow> bool" where
  "IsInitialised m = sm_initialised m"

section \<open>Registry\<close>

definition FindServiceIndex :: "u16 \<Rightarrow> u16 \<Rightarrow> 'h SoaServiceManager \<Rightarrow> nat option" where
  "FindServiceIndex serviceId instanceId m =
     first_index (\<lambda>i. sd_serviceId (sm_registry m ! i) = serviceId \<and>
                      sd_instanceId (sm_registry m ! i) = instanceId) (unat (sm_registryCount m))"

definition RegisterService :: "ServiceDescriptor \<Rightarrow> 'h SoaServiceManager \<Rightarrow> VoidResult \<times> 'h SoaServiceManager" where
  "RegisterService desc m =
     (if \<not> IsInitialised m then (Err kNotInitialized, m)
      else if FindServiceIndex (sd_serviceId desc) (sd_instanceId desc) m \<noteq> None
        then (Err kAlreadyRegistered, m)
      else
        let idx = sm_registryCount m
        in if unat idx \<ge> kMaxServices then (Err kRegistryFull, m)
           else
             let reg1 = (sm_registry m)[unat idx := desc];
                 reg2 = reg1[unat idx := (reg1 ! unat idx)\<lparr>sd_state := kDown\<rparr>]
             in (Ok (), m\<lparr>sm_registry := reg2, sm_registryCount := idx + 1\<rparr>))"

definition set_service_state :: "nat \<Rightarrow> ServiceState \<Rightarrow> 'h SoaServiceManager \<Rightarrow> 'h SoaServiceManager" where
  "set_service_state idx st m =
     m\<lparr>sm_registry := (sm_registry m)[idx := (sm_registry m ! idx)\<lparr>sd_state := st\<rparr>]\<rparr>"

definition OfferService :: "u16 \<Rightarrow> u16 \<Rightarrow> 'h SoaServiceManager \<Rightarrow> VoidResult \<times> 'h SoaServiceManager" where
  "OfferService serviceId instanceId m =
     (if \<not> IsInitialised m then (Err kNotInitialized, m)
      else case FindServiceIndex serviceId instanceId m of
        None \<Rightarrow> (Err kServiceNotFound, m)
      | Some idx \<Rightarrow>
          let current = sd_state (sm_registry m ! idx)
          in if current = kDown \<or> current = kRequested
             then (Ok (), set_service_state idx kAvailable m)
             else (Ok (), m))"

definition StopService :: "u16 \<Rightarrow> u16 \<Rightarrow> 'h SoaServiceManager \<Rightarrow> VoidResult \<times> 'h SoaServiceManager" where
  "StopService serviceId instanceId m =
     (if \<not> IsInitialised m then (Err kNotInitialized, m)
      else case FindServiceIndex serviceId instanceId m of
        None \<Rightarrow> (Err kServiceNotFound, m)
      | Some idx \<Rightarrow>
          if sd_state (sm_registry m ! idx) = kAvailable
            then (Ok (), set_service_state idx kStopping m)
          else if sd_state (sm_registry m ! idx) = kStopping
            then (Ok (), set_service_state idx kDown m)
          else (Ok (), m))"

text \<open>The pointer that \<open>FindService\<close> returns is the index of the row it points to.\<close>

definition FindService :: "u16 \<Rightarrow> u16 \<Rightarrow> 'h SoaServiceManager \<Rightarrow> nat Result" where
  "FindService serviceId instanceId m =
     (case FindServiceIndex serviceId instanceId m of
        None \<Rightarrow> Err kServiceNotFound
      | Some idx \<Rightarrow> Ok idx)"

section \<open>Subscriptions and events\<close>

definition Subscribe :: "u16 \<Rightarrow> u16 \<Rightarrow> 'h option \<Rightarrow> 'h SoaServiceManager \<Rightarrow> VoidResult \<times> 'h SoaServiceManager" where
  "Subscribe serviceId eventId handler m =
     (if \<not> IsInitialised m then (Err kNotInitialized, m)
      else if handler = None then (Err kNullPointer, m)
      else
        let idx = sm_subscriberCount m
        in if unat idx \<ge> kMaxSubscribers then (Err kSubscriberFull, m)
           else (Ok (), m\<lparr>sm_subscribers := (sm_subscribers m)[unat idx :=
                            \<lparr>sub_serviceId = serviceId, sub_eventId = eventId, sub_handler = handler\<rparr>],
                          sm_subscriberCount := idx + 1\<rparr>))"

definition PublishEvent :: "SoaEvent \<Rightarrow> 'h SoaServiceManager \<Rightarrow> VoidResult \<times> 'h SoaServiceManager" where
  "PublishEvent event m =
     (if \<not> IsInitialised m then (Err kNotInitialized, m)
      else
        let head = sm_queueHead m; tail = sm_queueTail m; nextHead = u8_next 64 head
        in if nextHead = tail then (Err kQueueFull, m)
           else (Ok (), m\<lparr>sm_eventQueue := (sm_eventQueue m)[unat head := event],
                          sm_queueHead := nextHead\<rparr>))"

section \<open>Dispatch\<close>

text \<open>
  A handler is code outside the class: \<open>call h ev (m, w)\<close> is its effect on the manager, which
  it may call back into, and on the rest of the world. The event and the subscriber rows are
  references, read again at each iteration.
\<close>

definition dispatch_one :: "('h \<Rightarrow> SoaEvent \<Rightarrow> 'h SoaServiceManager \<times> 'w \<Rightarrow> 'h SoaServiceManager \<times> 'w) \<Rightarrow>
    u8 \<Rightarrow> nat \<Rightarrow> 'h SoaServiceManager \<times> 'w \<Rightarrow> 'h SoaServiceManager \<times> 'w" where
  "dispatch_one call tail i s =
     (let m = fst s; ev = sm_eventQueue m ! unat tail; sub = sm_subscribers m ! i
      in if sub_serviceId sub = ev_serviceId ev \<and> sub_eventId sub = ev_eventId ev
         then (case sub_handler sub of None \<Rightarrow> s | Some h \<Rightarrow> call h ev s)
         else s)"

partial_function (option) process_loop ::
    "('h \<Rightarrow> SoaEvent \<Rightarrow> 'h SoaServiceManager \<times> 'w \<Rightarrow> 'h SoaServiceManager \<times> 'w) \<Rightarrow> nat \<Rightarrow>
     'h SoaServiceManager \<times> 'w \<Rightarrow> ('h SoaServiceManager \<times> 'w) option" where
  "process_loop call subCount s =
     (let tail = sm_queueTail (fst s); head = sm_queueHead (fst s)
      in if tail = head then Some s
         else
           let s' = fold (dispatch_one call tail) [0..<subCount] s
           in process_loop call subCount ((fst s')\<lparr>sm_queueTail := u8_next 64 tail\<rparr>, snd s'))"

declare process_loop.simps [code]

definition ProcessEvents :: "('h \<Rightarrow> SoaEvent \<Rightarrow> 'h SoaServiceManager \<times> 'w \<Rightarrow> 'h SoaServiceManager \<times> 'w) \<Rightarrow>
    'h SoaServiceManager \<times> 'w \<Rightarrow> ('h SoaServiceManager \<times> 'w) option" where
  "ProcessEvents call s =
     (if \<not> IsInitialised (fst s) then Some s
      else process_loop call (unat (sm_subscriberCount (fst s))) s)"

section \<open>Well-formed managers\<close>

definition mgr_wf :: "'h SoaServiceManager \<Rightarrow> bool" where
  "mgr_wf m \<longleftrightarrow>
     length (sm_registry m) = 32 \<and> unat (sm_registryCount m) \<le> 32 \<and>
     length (sm_subscribers m) = 16 \<and> unat (sm_subscriberCount m) \<le> 16 \<and>
     length (sm_eventQueue m) = 64 \<and> unat (sm_queueHead m) < 64 \<and> unat (sm_queueTail m) < 64"

definition services :: "'h SoaServiceManager \<Rightarrow> ServiceDescriptor list" where
  "services m = take (unat (sm_registryCount m)) (sm_registry m)"

definition service_key :: "ServiceDescriptor \<Rightarrow> u16 \<times> u16" where
  "service_key d = (sd_serviceId d, sd_instanceId d)"

definition subscriptions :: "'h SoaServiceManager \<Rightarrow> 'h SubscriberEntry list" where
  "subscriptions m = take (unat (sm_subscriberCount m)) (sm_subscribers m)"

interpretation mgr_ring: ring_index 64 "u8_next 64" unat
  by unfold_locales (simp_all add: unat_u8_next word_unat_eq_iff)

definition pending_events :: "'h SoaServiceManager \<Rightarrow> SoaEvent list" where
  "pending_events m =
     ring_list 64 (sm_eventQueue m) (unat (sm_queueTail m)) (unat (sm_queueHead m))"

lemma pending_events_queue:
  "pending_events m = mgr_ring.queue (sm_eventQueue m) (sm_queueTail m) (sm_queueHead m)"
  by (simp add: pending_events_def mgr_ring.queue_def)

lemma mgr_wf_new: "mgr_wf SoaServiceManager_new"
  by (simp add: mgr_wf_def SoaServiceManager_new_def)

lemma mgr_wf_Init: "mgr_wf m \<Longrightarrow> mgr_wf (snd (SoaServiceManager_Init m))"
  by (simp add: mgr_wf_def SoaServiceManager_Init_def)

lemma Init_Ok_empty:
  "SoaServiceManager_Init m = (Ok (), m') \<Longrightarrow>
     services m' = [] \<and> subscriptions m' = [] \<and> pending_events m' = [] \<and> sm_initialised m'"
  by (auto simp: SoaServiceManager_Init_def services_def subscriptions_def pending_events_def
      ring_list_def split: if_splits)

section \<open>Looking up a service\<close>

lemma length_services: "mgr_wf m \<Longrightarrow> length (services m) = unat (sm_registryCount m)"
  by (simp add: services_def mgr_wf_def)

lemma services_nth: "mgr_wf m \<Longrightarrow> i < length (services m) \<Longrightarrow> services m ! i = sm_registry m ! i"
  by (simp add: services_def)

lemma FindServiceIndex_None_iff:
  assumes "mgr_wf m"
  shows "FindServiceIndex sid iid m = None \<longleftrightarrow> (sid, iid) \<notin> service_key ` set (services m)"
proof -
  have "FindServiceIndex sid iid m = None \<longleftrightarrow>
      (\<forall>i<length (services m). service_key (services m ! i) \<noteq> (sid, iid))"
    using assms
    by (auto simp: FindServiceIndex_def first_index_None_iff length_services services_nth service_key_def)
  also have "\<dots> \<longleftrightarrow> (sid, iid) \<notin> service_key ` set (services m)"
    unfolding image_iff by (metis in_set_conv_nth)
  finally show ?thesis .
qed

lemma FindServiceIndex_SomeD:
  assumes "FindServiceIndex sid iid m = Some i" "mgr_wf m"
  shows "i < length (services m)" "i < 32" "services m ! i = sm_registry m ! i"
    "service_key (services m ! i) = (sid, iid)"
proof -
  show i: "i < length (services m)"
    using assms first_index_SomeD(1) by (fastforce simp: FindServiceIndex_def length_services)
  then show "i < 32" using assms(2) by (simp add: length_services mgr_wf_def)
  show "services m ! i = sm_registry m ! i" using i assms(2) by (rule services_nth [rotated])
  then show "service_key (services m ! i) = (sid, iid)"
    using assms(1) first_index_SomeD(2) by (fastforce simp: FindServiceIndex_def service_key_def)
qed

lemma FindServiceIndex_key:
  assumes "mgr_wf m" "i < length (services m)" "distinct (map service_key (services m))"
  shows "FindServiceIndex (sd_serviceId (services m ! i)) (sd_instanceId (services m ! i)) m = Some i"
proof -
  have "j = i" if "j < length (services m)" "service_key (services m ! j) = service_key (services m ! i)" for j
    using assms that by (simp add: distinct_conv_nth) metis
  then show ?thesis
    unfolding FindServiceIndex_def
    using assms(1,2)
    by (intro first_index_unique) (auto simp: length_services services_nth service_key_def)
qed

section \<open>Registering, offering and stopping\<close>

lemma RegisterService_cases:
  assumes "mgr_wf m"
  shows "RegisterService d m =
    (if \<not> sm_initialised m then (Err kNotInitialized, m)
     else if service_key d \<in> service_key ` set (services m) then (Err kAlreadyRegistered, m)
     else if length (services m) = 32 then (Err kRegistryFull, m)
     else (Ok (), m\<lparr>sm_registry := (sm_registry m)[unat (sm_registryCount m) := d\<lparr>sd_state := kDown\<rparr>],
                    sm_registryCount := sm_registryCount m + 1\<rparr>))"
  using assms FindServiceIndex_None_iff [OF assms, of "sd_serviceId d" "sd_instanceId d"]
  by (auto simp: RegisterService_def IsInitialised_def length_services mgr_wf_def service_key_def
      Let_def)

lemma unat_registryCount_inc: "unat (c :: u8) \<le> 32 \<Longrightarrow> unat (c + 1) = Suc (unat c)"
  by (simp add: unat_word_ariths)

lemma RegisterService_Ok:
  assumes "mgr_wf m" "RegisterService d m = (Ok (), m')"
  shows "service_key d \<notin> service_key ` set (services m)" "length (services m) < 32"
    and "services m' = services m @ [d\<lparr>sd_state := kDown\<rparr>]"
proof -
  note eq = RegisterService_cases [OF assms(1), of d] assms(2)
  show "service_key d \<notin> service_key ` set (services m)"
    using eq by (simp split: if_splits)
  show lt: "length (services m) < 32"
    using eq assms(1) length_services [OF assms(1)] by (auto simp: mgr_wf_def split: if_splits)
  have m': "m' = m\<lparr>sm_registry := (sm_registry m)[unat (sm_registryCount m) := d\<lparr>sd_state := kDown\<rparr>],
                    sm_registryCount := sm_registryCount m + 1\<rparr>"
    using eq by (simp split: if_splits)
  show "services m' = services m @ [d\<lparr>sd_state := kDown\<rparr>]"
    using lt assms(1)
    by (simp add: m' services_def unat_registryCount_inc mgr_wf_def take_Suc_conv_app_nth)
qed

lemma mgr_wf_RegisterService: "mgr_wf m \<Longrightarrow> mgr_wf (snd (RegisterService d m))"
  using length_services [of m]
  by (auto simp: RegisterService_cases unat_registryCount_inc mgr_wf_def)

lemma RegisterService_Err: "RegisterService d m = (Err e, m') \<Longrightarrow> m' = m"
  by (auto simp: RegisterService_def Let_def split: if_splits)

interpretation services: registry services service_key RegisterService
    "\<lambda>d. d\<lparr>sd_state := kDown\<rparr>" mgr_wf 32
proof unfold_locales
  fix m m' :: "'h SoaServiceManager" and d
  show "mgr_wf m \<Longrightarrow> length (services m) \<le> 32"
    by (simp add: length_services) (simp add: mgr_wf_def)
  show "mgr_wf m \<Longrightarrow> RegisterService d m = (Ok (), m') \<Longrightarrow>
      service_key d \<notin> service_key ` set (services m) \<and> services m' = services m @ [d\<lparr>sd_state := kDown\<rparr>]"
    using RegisterService_Ok by blast
qed (auto simp: service_key_def mgr_wf_RegisterService dest: RegisterService_Err)

interpretation open_services: accepting_registry services service_key RegisterService
    "\<lambda>d. d\<lparr>sd_state := kDown\<rparr>" mgr_wf 32 sm_initialised
proof unfold_locales
  fix m :: "'h SoaServiceManager" and d
  show "sm_initialised m \<Longrightarrow> sm_initialised (snd (RegisterService d m))"
    by (simp add: RegisterService_def IsInitialised_def Let_def)
  show "mgr_wf m \<Longrightarrow> sm_initialised m \<Longrightarrow> service_key d \<notin> service_key ` set (services m) \<Longrightarrow>
      length (services m) < 32 \<Longrightarrow> fst (RegisterService d m) = Ok ()"
    by (simp add: RegisterService_cases)
qed

lemma set_service_state_services:
  assumes "mgr_wf m" "i < length (services m)"
  shows "services (set_service_state i st m) = (services m)[i := (services m ! i)\<lparr>sd_state := st\<rparr>]"
  using assms by (simp add: services_nth) (simp add: services_def set_service_state_def take_update_swap)

lemma mgr_wf_set_service_state [simp]: "mgr_wf (set_service_state i st m) = mgr_wf m"
  by (simp add: mgr_wf_def set_service_state_def)

text \<open>The state machine a row goes through; \<open>kRequested\<close> is never entered.\<close>

fun offered :: "ServiceState \<Rightarrow> ServiceState" where
  "offered kDown = kAvailable"
| "offered kRequested = kAvailable"
| "offered st = st"

fun stopped :: "ServiceState \<Rightarrow> ServiceState" where
  "stopped kAvailable = kStopping"
| "stopped kStopping = kDown"
| "stopped st = st"

lemma set_service_state_same: "i < length (sm_registry m) \<Longrightarrow>
  set_service_state i (sd_state (sm_registry m ! i)) m = m"
  by (simp add: set_service_state_def)

lemma OfferService_cases:
  assumes "mgr_wf m"
  shows "OfferService sid iid m =
    (if \<not> sm_initialised m then (Err kNotInitialized, m)
     else case FindServiceIndex sid iid m of None \<Rightarrow> (Err kServiceNotFound, m)
     | Some i \<Rightarrow> (Ok (), set_service_state i (offered (sd_state (services m ! i))) m))"
proof (cases "FindServiceIndex sid iid m")
  case (Some i)
  note i = FindServiceIndex_SomeD [OF Some assms]
  have "i < length (sm_registry m)" using i assms by (simp add: mgr_wf_def)
  note same = set_service_state_same [OF this]
  show ?thesis
    using Some i(3) same
    by (cases "sd_state (sm_registry m ! i)") (simp_all add: OfferService_def IsInitialised_def)
qed (simp add: OfferService_def IsInitialised_def)

lemma StopService_cases:
  assumes "mgr_wf m"
  shows "StopService sid iid m =
    (if \<not> sm_initialised m then (Err kNotInitialized, m)
     else case FindServiceIndex sid iid m of None \<Rightarrow> (Err kServiceNotFound, m)
     | Some i \<Rightarrow> (Ok (), set_service_state i (stopped (sd_state (services m ! i))) m))"
proof (cases "FindServiceIndex sid iid m")
  case (Some i)
  note i = FindServiceIndex_SomeD [OF Some assms]
  have "i < length (sm_registry m)" using i assms by (simp add: mgr_wf_def)
  note same = set_service_state_same [OF this]
  show ?thesis
    using Some i(3) same
    by (cases "sd_state (sm_registry m ! i)") (simp_all add: StopService_def IsInitialised_def)
qed (simp add: StopService_def IsInitialised_def)

lemma mgr_wf_Offer: "mgr_wf m \<Longrightarrow> mgr_wf (snd (OfferService sid iid m))"
  by (simp add: OfferService_cases split: option.split)

lemma mgr_wf_Stop: "mgr_wf m \<Longrightarrow> mgr_wf (snd (StopService sid iid m))"
  by (simp add: StopService_cases split: option.split)

section \<open>Subscribing and publishing\<close>

lemma Subscribe_cases:
  assumes "mgr_wf m"
  shows "Subscribe sid eid handler m =
    (if \<not> sm_initialised m then (Err kNotInitialized, m)
     else if handler = None then (Err kNullPointer, m)
     else if length (subscriptions m) = 16 then (Err kSubscriberFull, m)
     else (Ok (), m\<lparr>sm_subscribers := (sm_subscribers m)[unat (sm_subscriberCount m) :=
             \<lparr>sub_serviceId = sid, sub_eventId = eid, sub_handler = handler\<rparr>],
           sm_subscriberCount := sm_subscriberCount m + 1\<rparr>))"
  using assms by (auto simp: Subscribe_def IsInitialised_def subscriptions_def mgr_wf_def Let_def)

lemma Subscribe_Ok:
  assumes "mgr_wf m" "Subscribe sid eid handler m = (Ok (), m')"
  shows "length (subscriptions m) < 16" "handler \<noteq> None" "mgr_wf m'"
    "subscriptions m' = subscriptions m @ [\<lparr>sub_serviceId = sid, sub_eventId = eid, sub_handler = handler\<rparr>]"
proof -
  note eq = Subscribe_cases [OF assms(1), of sid eid handler] assms(2)
  have m': "m' = m\<lparr>sm_subscribers := (sm_subscribers m)[unat (sm_subscriberCount m) :=
             \<lparr>sub_serviceId = sid, sub_eventId = eid, sub_handler = handler\<rparr>],
           sm_subscriberCount := sm_subscriberCount m + 1\<rparr>"
    using eq by (simp split: if_splits)
  show lt: "length (subscriptions m) < 16" and "handler \<noteq> None"
    using eq assms(1) by (auto simp: subscriptions_def mgr_wf_def split: if_splits)
  then have c: "unat (sm_subscriberCount m) < 16"
    using assms(1) by (simp add: subscriptions_def mgr_wf_def)
  then have inc: "unat (sm_subscriberCount m + 1) = Suc (unat (sm_subscriberCount m))"
    by (simp add: unat_word_ariths)
  show "mgr_wf m'"
    using assms(1) c inc by (simp add: m' mgr_wf_def)
  show "subscriptions m' = subscriptions m @ [\<lparr>sub_serviceId = sid, sub_eventId = eid, sub_handler = handler\<rparr>]"
    using assms(1) c inc by (simp add: m' subscriptions_def mgr_wf_def take_Suc_conv_app_nth)
qed

lemma Subscribe_Err: "Subscribe sid eid handler m = (Err e, m') \<Longrightarrow> m' = m"
  by (auto simp: Subscribe_def Let_def split: if_splits)

lemma mgr_wf_Subscribe: "mgr_wf m \<Longrightarrow> mgr_wf (snd (Subscribe sid eid handler m))"
proof (cases "Subscribe sid eid handler m")
  case (Pair r m')
  assume "mgr_wf m"
  with Pair show ?thesis
    using Subscribe_Ok(3) [of m sid eid handler m'] Subscribe_Err [of sid eid handler m _ m']
    by (cases r) auto
qed

lemma mgr_queue_full_iff:
  "mgr_wf m \<Longrightarrow> u8_next 64 (sm_queueHead m) = sm_queueTail m \<longleftrightarrow> length (pending_events m) = 63"
  using mgr_ring.queue_full_iff [of "sm_queueTail m" "sm_queueHead m" "sm_eventQueue m"]
  by (simp add: pending_events_queue mgr_wf_def)

lemma PublishEvent_cases:
  "mgr_wf m \<Longrightarrow> PublishEvent ev m =
    (if \<not> sm_initialised m then (Err kNotInitialized, m)
     else if length (pending_events m) = 63 then (Err kQueueFull, m)
     else (Ok (), m\<lparr>sm_eventQueue := (sm_eventQueue m)[unat (sm_queueHead m) := ev],
                    sm_queueHead := u8_next 64 (sm_queueHead m)\<rparr>))"
  by (simp add: PublishEvent_def IsInitialised_def Let_def mgr_queue_full_iff)

lemma PublishEvent_Ok:
  assumes "mgr_wf m" "PublishEvent ev m = (Ok (), m')"
  shows "length (pending_events m) < 63" "mgr_wf m'" "pending_events m' = pending_events m @ [ev]"
    "sm_queueTail m' = sm_queueTail m" "subscriptions m' = subscriptions m"
proof -
  note eq = PublishEvent_cases [OF assms(1), of ev] assms(2)
  have m': "m' = m\<lparr>sm_eventQueue := (sm_eventQueue m)[unat (sm_queueHead m) := ev],
                    sm_queueHead := u8_next 64 (sm_queueHead m)\<rparr>"
    using eq by (simp split: if_splits)
  have len: "length (pending_events m) < 64"
    using mgr_ring.length_queue_less by (simp add: pending_events_queue)
  have ne: "length (pending_events m) \<noteq> 63"
    using eq by (simp split: if_splits)
  with len show "length (pending_events m) < 63" by simp
  show "mgr_wf m'"
    using assms(1) mgr_ring.pos_next_less [of "sm_queueHead m"] by (simp add: m' mgr_wf_def)
  show "pending_events m' = pending_events m @ [ev]"
    using assms(1) ne mgr_ring.queue_enq [of "sm_queueTail m" "sm_queueHead m" "sm_eventQueue m" ev]
      mgr_queue_full_iff [OF assms(1)]
    by (simp add: m' pending_events_queue mgr_wf_def)
  show "sm_queueTail m' = sm_queueTail m" "subscriptions m' = subscriptions m"
    by (simp_all add: m' subscriptions_def)
qed

lemma PublishEvent_Err: "PublishEvent ev m = (Err e, m') \<Longrightarrow> m' = m"
  by (auto simp: PublishEvent_def Let_def split: if_splits)

lemma mgr_wf_PublishEvent: "mgr_wf m \<Longrightarrow> mgr_wf (snd (PublishEvent ev m))"
proof (cases "PublishEvent ev m")
  case (Pair r m')
  assume "mgr_wf m"
  with Pair show ?thesis
    using PublishEvent_Ok(2) [of m ev m'] PublishEvent_Err [of ev m _ m'] by (cases r) auto
qed

interpretation mgr_queue: bounded_channel PublishEvent "\<lambda>ev. True" mgr_wf pending_events "\<lambda>m ev. ev"
    "\<lambda>ev. True" sm_initialised 63 kQueueFull
proof unfold_locales
  fix m m' :: "'h SoaServiceManager" and ev x
  show "mgr_wf m \<Longrightarrow> mgr_wf (snd (PublishEvent ev m))" by (rule mgr_wf_PublishEvent)
  show "mgr_wf m \<Longrightarrow> PublishEvent ev m = (Ok (), m') \<Longrightarrow> pending_events m' = pending_events m @ [ev]"
    by (rule PublishEvent_Ok(3))
  show "PublishEvent ev m = (Err x, m') \<Longrightarrow> m' = m" by (rule PublishEvent_Err)
  show "sm_initialised m \<Longrightarrow> sm_initialised (snd (PublishEvent ev m))"
    by (simp add: PublishEvent_def IsInitialised_def Let_def)
  show "mgr_wf m \<Longrightarrow> sm_initialised m \<Longrightarrow>
      fst (PublishEvent ev m) = (if length (pending_events m) = 63 then Err kQueueFull else Ok ())"
    by (simp add: PublishEvent_cases)
qed

section \<open>Delivery\<close>

text \<open>
  What dispatching one event means: every subscriber row that names the event has its handler
  called, in order of subscription.
\<close>

definition deliver :: "('h \<Rightarrow> SoaEvent \<Rightarrow> 'w \<Rightarrow> 'w) \<Rightarrow> 'h SubscriberEntry list \<Rightarrow> SoaEvent \<Rightarrow> 'w \<Rightarrow> 'w" where
  "deliver eff subs ev w =
     fold (\<lambda>sub w. if sub_serviceId sub = ev_serviceId ev \<and> sub_eventId sub = ev_eventId ev
                   then (case sub_handler sub of None \<Rightarrow> w | Some h \<Rightarrow> eff h ev w) else w) subs w"

text \<open>A handler that leaves the manager alone.\<close>

definition plain_call :: "('h \<Rightarrow> SoaEvent \<Rightarrow> 'w \<Rightarrow> 'w) \<Rightarrow>
    'h \<Rightarrow> SoaEvent \<Rightarrow> 'h SoaServiceManager \<times> 'w \<Rightarrow> 'h SoaServiceManager \<times> 'w" where
  "plain_call eff h ev s = (fst s, eff h ev (snd s))"

definition deliver_one :: "('h \<Rightarrow> SoaEvent \<Rightarrow> 'w \<Rightarrow> 'w) \<Rightarrow> SoaEvent \<Rightarrow> 'h SubscriberEntry \<Rightarrow> 'w \<Rightarrow> 'w" where
  "deliver_one eff ev sub w =
     (if sub_serviceId sub = ev_serviceId ev \<and> sub_eventId sub = ev_eventId ev
      then (case sub_handler sub of None \<Rightarrow> w | Some h \<Rightarrow> eff h ev w) else w)"

lemma deliver_fold: "deliver eff subs ev w = fold (deliver_one eff ev) subs w"
proof -
  have "deliver_one eff ev = (\<lambda>sub w. if sub_serviceId sub = ev_serviceId ev \<and> sub_eventId sub = ev_eventId ev
      then (case sub_handler sub of None \<Rightarrow> w | Some h \<Rightarrow> eff h ev w) else w)"
    by (intro ext) (simp add: deliver_one_def)
  then show ?thesis by (simp only: deliver_def)
qed

lemma dispatch_one_plain: "dispatch_one (plain_call eff) tail i (m, w) =
    (m, deliver_one eff (sm_eventQueue m ! unat tail) (sm_subscribers m ! i) w)"
  by (simp add: dispatch_one_def deliver_one_def plain_call_def Let_def split: option.split)

lemma dispatch_fold_plain:
  assumes "n \<le> length (sm_subscribers m)"
  shows "fold (dispatch_one (plain_call eff) tail) [0..<n] (m, w)
      = (m, deliver eff (take n (sm_subscribers m)) (sm_eventQueue m ! unat tail) w)"
  using assms
proof (induction n)
  case 0
  then show ?case by (simp add: deliver_fold)
next
  case (Suc n)
  then show ?case
    by (simp add: deliver_fold dispatch_one_plain take_Suc_conv_app_nth)
qed

lemma pending_pop:
  assumes "mgr_wf m" "sm_queueTail m \<noteq> sm_queueHead m"
  shows "pending_events m = sm_eventQueue m ! unat (sm_queueTail m) #
      pending_events (m\<lparr>sm_queueTail := u8_next 64 (sm_queueTail m)\<rparr>)"
  using assms mgr_ring.queue_deq [of "sm_queueTail m" "sm_queueHead m" "sm_eventQueue m"]
  by (simp add: pending_events_queue mgr_wf_def)

lemma mgr_wf_pop: "mgr_wf m \<Longrightarrow> mgr_wf (m\<lparr>sm_queueTail := u8_next 64 (sm_queueTail m)\<rparr>)"
  using mgr_ring.pos_next_less [of "sm_queueTail m"] by (simp add: mgr_wf_def)

lemma pending_empty_iff: "mgr_wf m \<Longrightarrow> pending_events m = [] \<longleftrightarrow> sm_queueTail m = sm_queueHead m"
  by (simp add: pending_events_queue mgr_ring.queue_empty_iff mgr_wf_def)

lemma process_loop_plain:
  assumes "mgr_wf m" "n = unat (sm_subscriberCount m)"
  shows "process_loop (plain_call eff) n (m, w)
      = Some (m\<lparr>sm_queueTail := sm_queueHead m\<rparr>,
              fold (deliver eff (subscriptions m)) (pending_events m) w)"
  using assms
proof (induction "pending_events m" arbitrary: m w)
  case Nil
  then have e: "sm_queueTail m = sm_queueHead m"
    by (metis pending_empty_iff)
  then have "m\<lparr>sm_queueTail := sm_queueHead m\<rparr> = m" by (cases m) simp
  with e Nil.hyps [symmetric] show ?case
    by (simp add: process_loop.simps)
next
  case (Cons ev evs)
  let ?m = "m\<lparr>sm_queueTail := u8_next 64 (sm_queueTail m)\<rparr>"
  have ne: "sm_queueTail m \<noteq> sm_queueHead m"
    using Cons.hyps(2) pending_empty_iff [OF Cons.prems(1)] by auto
  have pop: "sm_eventQueue m ! unat (sm_queueTail m) = ev" "evs = pending_events ?m"
    using pending_pop [OF Cons.prems(1) ne] Cons.hyps(2) by auto
  have n: "n \<le> length (sm_subscribers m)"
    using Cons.prems by (simp add: mgr_wf_def)
  have subs: "take n (sm_subscribers m) = subscriptions m" "subscriptions ?m = subscriptions m"
    using Cons.prems by (simp_all add: subscriptions_def)
  have "process_loop (plain_call eff) n (m, w)
      = process_loop (plain_call eff) n (?m, deliver eff (subscriptions m) ev w)"
    using ne by (subst process_loop.simps) (simp add: Let_def dispatch_fold_plain [OF n] pop(1) subs(1))
  also have "\<dots> = Some (?m\<lparr>sm_queueTail := sm_queueHead ?m\<rparr>,
      fold (deliver eff (subscriptions ?m)) (pending_events ?m) (deliver eff (subscriptions m) ev w))"
    using mgr_wf_pop [OF Cons.prems(1)] Cons.prems(2) by (intro Cons.hyps(1) [OF pop(2)]) simp_all
  finally show ?case
    by (simp only: subs(2) pop(2) [symmetric] Cons.hyps(2) [symmetric]) simp
qed

lemma ProcessEvents_plain:
  assumes "mgr_wf m" "sm_initialised m"
  shows "ProcessEvents (plain_call eff) (m, w)
      = Some (m\<lparr>sm_queueTail := sm_queueHead m\<rparr>,
              fold (deliver eff (subscriptions m)) (pending_events m) w)"
  using assms by (simp add: ProcessEvents_def IsInitialised_def process_loop_plain)

end
