(* ===== verification/ServiceLife.thy ===== *)
theory ServiceLife
  imports ServiceManager
begin

text \<open>
  The service manager under arbitrary sequences of its operations, including the ones that
  event handlers make while \<open>ProcessEvents\<close> runs: the step relation, the invariant of every
  reachable state, and the life cycle of a service row.
\<close>

section \<open>Steps\<close>

text \<open>\<open>api_step\<close>: the operations a handler may call; \<open>mgr_step\<close> adds the rest.\<close>

inductive api_step :: "'h SoaServiceManager \<Rightarrow> 'h SoaServiceManager \<Rightarrow> bool" where
  api_register: "api_step m (snd (RegisterService d m))"
| api_offer: "api_step m (snd (OfferService sid iid m))"
| api_stop: "api_step m (snd (StopService sid iid m))"
| api_subscribe: "api_step m (snd (Subscribe sid eid handler m))"
| api_publish: "event_wf ev \<Longrightarrow> api_step m (snd (PublishEvent ev m))"

inductive mgr_step :: "'h SoaServiceManager \<Rightarrow> 'h SoaServiceManager \<Rightarrow> bool" where
  mgr_init: "mgr_step m (snd (SoaServiceManager_Init m))"
| mgr_api: "api_step m m' \<Longrightarrow> mgr_step m m'"
| mgr_pop: "sm_queueTail m \<noteq> sm_queueHead m \<Longrightarrow>
    mgr_step m (m\<lparr>sm_queueTail := u8_next 64 (sm_queueTail m)\<rparr>)"

section \<open>The invariant\<close>

definition mgr_inv :: "'h SoaServiceManager \<Rightarrow> bool" where
  "mgr_inv m \<longleftrightarrow> mgr_wf m \<and> list_all event_wf (sm_eventQueue m) \<and>
     distinct (map service_key (services m)) \<and>
     (\<forall>d \<in> set (services m). sd_state d \<noteq> kRequested) \<and>
     (\<forall>s \<in> set (subscriptions m). sub_handler s \<noteq> None) \<and>
     (\<not> sm_initialised m \<longrightarrow> services m = [] \<and> subscriptions m = [] \<and> sm_queueHead m = sm_queueTail m)"

lemma mgr_inv_new: "mgr_inv SoaServiceManager_new"
  unfolding mgr_inv_def
  by (simp add: mgr_wf_new)
    (simp add: SoaServiceManager_new_def services_def subscriptions_def list_all_iff)

lemma mgr_inv_Init: "mgr_inv m \<Longrightarrow> mgr_inv (snd (SoaServiceManager_Init m))"
  unfolding mgr_inv_def
  by (auto simp: SoaServiceManager_Init_def services_def subscriptions_def mgr_wf_def)

text \<open>What an operation does to the three tables, for the operations that leave two alone.\<close>

lemma Register_frame:
  "subscriptions (snd (RegisterService d m)) = subscriptions m"
  "sm_eventQueue (snd (RegisterService d m)) = sm_eventQueue m"
  "sm_queueHead (snd (RegisterService d m)) = sm_queueHead m"
  "sm_queueTail (snd (RegisterService d m)) = sm_queueTail m"
  "sm_initialised (snd (RegisterService d m)) = sm_initialised m"
  by (simp_all add: RegisterService_def Let_def subscriptions_def)

lemma set_state_frame [simp]:
  "subscriptions (set_service_state i st m) = subscriptions m"
  "sm_eventQueue (set_service_state i st m) = sm_eventQueue m"
  "sm_queueHead (set_service_state i st m) = sm_queueHead m"
  "sm_queueTail (set_service_state i st m) = sm_queueTail m"
  "sm_initialised (set_service_state i st m) = sm_initialised m"
  by (simp_all add: set_service_state_def subscriptions_def)

lemma Subscribe_frame:
  "services (snd (Subscribe sid eid h m)) = services m"
  "sm_eventQueue (snd (Subscribe sid eid h m)) = sm_eventQueue m"
  "sm_queueHead (snd (Subscribe sid eid h m)) = sm_queueHead m"
  "sm_queueTail (snd (Subscribe sid eid h m)) = sm_queueTail m"
  "sm_initialised (snd (Subscribe sid eid h m)) = sm_initialised m"
  by (simp_all add: Subscribe_def Let_def services_def)

lemma Publish_frame:
  "services (snd (PublishEvent ev m)) = services m"
  "subscriptions (snd (PublishEvent ev m)) = subscriptions m"
  "sm_queueTail (snd (PublishEvent ev m)) = sm_queueTail m"
  "sm_initialised (snd (PublishEvent ev m)) = sm_initialised m"
  by (simp_all add: PublishEvent_def Let_def services_def subscriptions_def)

lemmas api_frames = Register_frame Subscribe_frame Publish_frame

lemma offered_neq: "offered st \<noteq> kRequested" by (cases st) simp_all
lemma stopped_neq: "st \<noteq> kRequested \<Longrightarrow> stopped st \<noteq> kRequested" by (cases st) simp_all

lemma Register_uninit: "\<not> sm_initialised m \<Longrightarrow> RegisterService d m = (Err kNotInitialized, m)"
  by (simp add: RegisterService_def IsInitialised_def)

lemma mgr_inv_Register: "mgr_inv m \<Longrightarrow> mgr_inv (snd (RegisterService d m))"
  using services.keys_distinct_add [of m d] services.add_rows [of m d]
    mgr_wf_RegisterService [of m d] Register_uninit [of m d]
  by (auto simp: mgr_inv_def services.keys_def api_frames split: if_splits)

lemma map_key_update: "i < length ds \<Longrightarrow>
    map service_key (ds[i := (ds ! i)\<lparr>sd_state := st\<rparr>]) = map service_key ds"
  by (simp add: map_update list_update_same_conv service_key_def)

lemma mgr_inv_set_state:
  assumes "mgr_inv m" "i < length (services m)" "st \<noteq> kRequested"
  shows "mgr_inv (set_service_state i st m)"
  using assms set_service_state_services [of m i st] map_key_update [of i "services m" st]
  by (auto simp: mgr_inv_def dest!: set_update_subset_insert [THEN subsetD])

lemma mgr_inv_Offer: "mgr_inv m \<Longrightarrow> mgr_inv (snd (OfferService sid iid m))"
  by (auto simp: OfferService_cases mgr_inv_def [THEN iffD1, THEN conjunct1] offered_neq
      dest: FindServiceIndex_SomeD intro!: mgr_inv_set_state split: option.split)

lemma mgr_inv_Stop:
  assumes "mgr_inv m"
  shows "mgr_inv (snd (StopService sid iid m))"
proof (cases "FindServiceIndex sid iid m")
  case None
  then show ?thesis using assms by (simp add: StopService_def)
next
  case (Some i)
  have wf: "mgr_wf m" using assms by (simp add: mgr_inv_def)
  note i = FindServiceIndex_SomeD [OF Some wf]
  have "sd_state (services m ! i) \<noteq> kRequested"
    using assms i(1) by (simp add: mgr_inv_def)
  then have "mgr_inv (set_service_state i (stopped (sd_state (services m ! i))) m)"
    using assms i(1) by (intro mgr_inv_set_state stopped_neq)
  then show ?thesis using Some assms by (simp add: StopService_cases [OF wf])
qed

lemma mgr_inv_Subscribe:
  assumes "mgr_inv m"
  shows "mgr_inv (snd (Subscribe sid eid h m))"
proof (cases "Subscribe sid eid h m")
  case (Pair r m')
  have wf: "mgr_wf m" using assms by (simp add: mgr_inv_def)
  show ?thesis
  proof (cases r)
    case (Ok u)
    then have s: "Subscribe sid eid h m = (Ok (), m')" using Pair by simp
    have "sm_initialised m" using s by (simp add: Subscribe_cases [OF wf] split: if_splits)
    then show ?thesis
      using assms Subscribe_Ok [OF wf s] Subscribe_frame [of sid eid h m] s
      by (auto simp: mgr_inv_def)
  next
    case (Err e)
    then show ?thesis using Pair assms Subscribe_Err [of sid eid h m e m'] by simp
  qed
qed

lemma mgr_inv_Publish:
  assumes "mgr_inv m" "event_wf ev"
  shows "mgr_inv (snd (PublishEvent ev m))"
proof -
  have wf: "mgr_wf m" using assms by (simp add: mgr_inv_def)
  have "list_all event_wf (sm_eventQueue (snd (PublishEvent ev m)))"
    using assms by (auto simp: PublishEvent_cases [OF wf] mgr_inv_def list_all_iff
        dest!: set_update_subset_insert [THEN subsetD])
  moreover have "\<not> sm_initialised m \<Longrightarrow> snd (PublishEvent ev m) = m"
    by (simp add: PublishEvent_cases [OF wf])
  ultimately show ?thesis
    using assms mgr_wf_PublishEvent [OF wf, of ev] by (auto simp: mgr_inv_def api_frames)
qed

lemma mgr_inv_pop:
  "mgr_inv m \<Longrightarrow> sm_queueTail m \<noteq> sm_queueHead m \<Longrightarrow>
     mgr_inv (m\<lparr>sm_queueTail := u8_next 64 (sm_queueTail m)\<rparr>)"
  using mgr_wf_pop [of m] by (auto simp: mgr_inv_def services_def subscriptions_def)

lemma mgr_inv_api: "api_step m m' \<Longrightarrow> mgr_inv m \<Longrightarrow> mgr_inv m'"
  by (induction rule: api_step.induct)
    (simp_all add: mgr_inv_Register mgr_inv_Offer mgr_inv_Stop mgr_inv_Subscribe mgr_inv_Publish)

lemma mgr_inv_step: "mgr_step m m' \<Longrightarrow> mgr_inv m \<Longrightarrow> mgr_inv m'"
  by (induction rule: mgr_step.induct) (simp_all add: mgr_inv_Init mgr_inv_api mgr_inv_pop)

lemma mgr_inv_reachable: "mgr_step\<^sup>*\<^sup>* SoaServiceManager_new m \<Longrightarrow> mgr_inv m"
  by (induction rule: rtranclp_induct) (auto intro: mgr_inv_new mgr_inv_step)

section \<open>The life of a service row\<close>

text \<open>
  A registered row keeps its place, its identity and its version for good; one step moves its
  state at most along \<open>kDown \<rightarrow> kAvailable \<rightarrow> kStopping \<rightarrow> kDown\<close>.
\<close>

definition row_evolves :: "'h SoaServiceManager \<Rightarrow> 'h SoaServiceManager \<Rightarrow> nat \<Rightarrow> bool" where
  "row_evolves m m' i \<longleftrightarrow> i < length (services m') \<and>
     (let st = sd_state (services m ! i)
      in services m' ! i = services m ! i \<or>
         services m' ! i = (services m ! i)\<lparr>sd_state := offered st\<rparr> \<or>
         services m' ! i = (services m ! i)\<lparr>sd_state := stopped st\<rparr>)"

lemma row_evolves_refl: "services m' = services m \<Longrightarrow> i < length (services m) \<Longrightarrow> row_evolves m m' i"
  by (simp add: row_evolves_def)

lemma row_evolves_Register:
  assumes "mgr_inv m" "i < length (services m)"
  shows "row_evolves m (snd (RegisterService d m)) i"
proof -
  have "mgr_wf m" using assms(1) by (simp add: mgr_inv_def)
  then show ?thesis
    using services.rows_old [of m i d] services.add_rows [of m d] assms(2)
    by (simp add: row_evolves_def)
qed

lemma row_evolves_set_state:
  assumes "mgr_wf m" "j < length (services m)" "i < length (services m)"
    "st = offered (sd_state (services m ! j)) \<or> st = stopped (sd_state (services m ! j))"
  shows "row_evolves m (set_service_state j st m) i"
  using assms by (auto simp: row_evolves_def set_service_state_services nth_list_update Let_def)

lemma row_evolves_api:
  assumes "api_step m m'" "mgr_inv m" "i < length (services m)"
  shows "row_evolves m m' i"
proof -
  have wf: "mgr_wf m" using assms(2) by (simp add: mgr_inv_def)
  note refl = row_evolves_refl [OF _ assms(3)]
  note set = row_evolves_set_state [OF wf _ assms(3)] FindServiceIndex_SomeD(1) [OF _ wf]
  from assms(1) show ?thesis
  proof cases
    case (api_offer sid iid)
    then show ?thesis
      by (auto simp: OfferService_cases [OF wf] intro: refl set split: option.split)
  next
    case (api_stop sid iid)
    then show ?thesis
      by (auto simp: StopService_cases [OF wf] intro: refl set split: option.split)
  qed (simp_all add: refl api_frames row_evolves_Register [OF assms(2,3)])
qed

lemma row_evolves_step:
  assumes "mgr_step m m'" "mgr_inv m" "i < length (services m)"
  shows "row_evolves m m' i"
  using assms(1)
proof cases
  case mgr_init
  have "sm_initialised m" using assms(2,3) by (auto simp: mgr_inv_def)
  with mgr_init show ?thesis
    by (simp add: SoaServiceManager_Init_def row_evolves_refl assms(3))
next
  case mgr_api
  then show ?thesis using row_evolves_api assms(2,3) by blast
next
  case mgr_pop
  then show ?thesis using assms(3) by (simp add: row_evolves_refl services_def)
qed

text \<open>No operation takes a subscription away.\<close>

lemma subscriptions_api:
  assumes "api_step m m'" "mgr_wf m"
  shows "\<exists>new. subscriptions m' = subscriptions m @ new"
  using assms(1)
proof cases
  case (api_offer sid iid)
  then show ?thesis by (simp add: OfferService_cases [OF assms(2)] split: option.split)
next
  case (api_stop sid iid)
  then show ?thesis by (simp add: StopService_cases [OF assms(2)] split: option.split)
next
  case (api_subscribe sid eid h)
  then show ?thesis
    using Subscribe_Ok(4) [OF assms(2), of sid eid h m'] Subscribe_Err [of sid eid h m _ m']
    by (cases "Subscribe sid eid h m"; cases "fst (Subscribe sid eid h m)") auto
qed (simp_all add: api_frames)

lemma subscriptions_grow:
  assumes "mgr_step m m'" "mgr_inv m"
  shows "\<exists>new. subscriptions m' = subscriptions m @ new"
  using assms(1)
proof cases
  case mgr_init
  then show ?thesis
    using assms(2) by (cases "sm_initialised m") (auto simp: SoaServiceManager_Init_def mgr_inv_def)
next
  case mgr_api
  then show ?thesis using subscriptions_api assms(2) by (auto simp: mgr_inv_def)
next
  case mgr_pop
  then show ?thesis by (simp add: subscriptions_def)
qed

section \<open>Handlers that call back\<close>

lemma api_tail:
  "api_step m m' \<Longrightarrow> mgr_inv m \<Longrightarrow> sm_queueTail m' = sm_queueTail m \<and>
     (sm_queueTail m \<noteq> sm_queueHead m \<longrightarrow> sm_queueTail m' \<noteq> sm_queueHead m')"
proof (induction rule: api_step.induct)
  case (api_offer m sid iid)
  then show ?case by (simp add: OfferService_cases mgr_inv_def split: option.split)
next
  case (api_stop m sid iid)
  then show ?case by (simp add: StopService_cases mgr_inv_def split: option.split)
next
  case (api_publish ev m)
  then show ?case by (auto simp: PublishEvent_def Let_def)
qed (simp_all add: api_frames)

lemma api_steps_tail:
  assumes "api_step\<^sup>*\<^sup>* m m'" "mgr_inv m" "sm_queueTail m \<noteq> sm_queueHead m"
  shows "mgr_inv m' \<and> sm_queueTail m' = sm_queueTail m \<and> sm_queueTail m' \<noteq> sm_queueHead m'"
  using assms
proof (induction rule: rtranclp_induct)
  case (step a b)
  then show ?case using mgr_inv_api [of a b] api_tail [of a b] by auto
qed simp

lemma api_steps_mgr: "api_step\<^sup>*\<^sup>* m m' \<Longrightarrow> mgr_step\<^sup>*\<^sup>* m m'"
  by (induction rule: rtranclp_induct) (auto intro: mgr_api rtranclp.rtrancl_into_rtrancl)

lemma dispatch_fold_api:
  assumes "\<And>h ev s. api_step\<^sup>*\<^sup>* (fst s) (fst (call h ev s))"
  shows "api_step\<^sup>*\<^sup>* (fst s) (fst (fold (dispatch_one call tail) is s))"
proof (induction "is" arbitrary: s)
  case (Cons i "is")
  have "api_step\<^sup>*\<^sup>* (fst s) (fst (dispatch_one call tail i s))"
    using assms by (auto simp: dispatch_one_def Let_def split: option.split)
  then show ?case
    using Cons.IH [of "dispatch_one call tail i s"] by simp
qed simp

lemma process_body_steps:
  assumes IH: "\<And>t. rec t = Some s' \<Longrightarrow> mgr_inv (fst t) \<Longrightarrow>
      mgr_step\<^sup>*\<^sup>* (fst t) (fst s') \<and> sm_queueTail (fst s') = sm_queueHead (fst s')"
    and body: "(let tail = sm_queueTail (fst s); head = sm_queueHead (fst s)
      in if tail = head then Some s
         else let s' = fold (dispatch_one call tail) [0..<n] s
              in rec ((fst s')\<lparr>sm_queueTail := u8_next 64 tail\<rparr>, snd s')) = Some s'"
    and call: "\<And>h ev s. api_step\<^sup>*\<^sup>* (fst s) (fst (call h ev s))" and inv: "mgr_inv (fst s)"
  shows "mgr_step\<^sup>*\<^sup>* (fst s) (fst s') \<and> sm_queueTail (fst s') = sm_queueHead (fst s')"
proof (cases "sm_queueTail (fst s) = sm_queueHead (fst s)")
  case True
  then show ?thesis using body by (auto simp: Let_def)
next
  case False
  let ?t = "fold (dispatch_one call (sm_queueTail (fst s))) [0..<n] s"
  let ?m = "(fst ?t)\<lparr>sm_queueTail := u8_next 64 (sm_queueTail (fst s))\<rparr>"
  have steps: "api_step\<^sup>*\<^sup>* (fst s) (fst ?t)"
    by (rule dispatch_fold_api) (rule call)
  note t = api_steps_tail [OF steps inv False]
  have "mgr_step (fst ?t) ((fst ?t)\<lparr>sm_queueTail := u8_next 64 (sm_queueTail (fst ?t))\<rparr>)"
    using t by (blast intro: mgr_pop)
  moreover have "sm_queueTail (fst ?t) = sm_queueTail (fst s)" using t by blast
  ultimately have pop: "mgr_step (fst ?t) ?m" by (simp only:)
  have "mgr_inv ?m" using pop t mgr_inv_step by blast
  then have "mgr_step\<^sup>*\<^sup>* ?m (fst s') \<and> sm_queueTail (fst s') = sm_queueHead (fst s')"
    using IH [of "(?m, snd ?t)"] body False by (simp add: Let_def)
  then show ?thesis
    using api_steps_mgr [OF steps] pop by (meson rtranclp.rtrancl_into_rtrancl rtranclp_trans)
qed

lemma process_loop_steps:
  fixes call :: "'h \<Rightarrow> SoaEvent \<Rightarrow> 'h SoaServiceManager \<times> 'w \<Rightarrow> 'h SoaServiceManager \<times> 'w"
  assumes "process_loop call n s = Some s'"
  shows "(\<forall>h ev s. api_step\<^sup>*\<^sup>* (fst s) (fst (call h ev s))) \<longrightarrow> mgr_inv (fst s) \<longrightarrow>
    mgr_step\<^sup>*\<^sup>* (fst s) (fst s') \<and> sm_queueTail (fst s') = sm_queueHead (fst s')"
proof (rule process_loop.raw_induct [OF _ assms], intro impI)
  fix rec :: "('h \<Rightarrow> SoaEvent \<Rightarrow> 'h SoaServiceManager \<times> 'w \<Rightarrow> 'h SoaServiceManager \<times> 'w) \<Rightarrow> nat \<Rightarrow>
      'h SoaServiceManager \<times> 'w \<Rightarrow> ('h SoaServiceManager \<times> 'w) option"
    and call :: "'h \<Rightarrow> SoaEvent \<Rightarrow> 'h SoaServiceManager \<times> 'w \<Rightarrow> 'h SoaServiceManager \<times> 'w"
    and n and s s' :: "'h SoaServiceManager \<times> 'w"
  assume IH: "\<And>call n s s'. rec call n s = Some s' \<Longrightarrow>
      (\<forall>h ev s. api_step\<^sup>*\<^sup>* (fst s) (fst (call h ev s))) \<longrightarrow> mgr_inv (fst s) \<longrightarrow>
      mgr_step\<^sup>*\<^sup>* (fst s) (fst s') \<and> sm_queueTail (fst s') = sm_queueHead (fst s')"
    and call: "\<forall>h ev s. api_step\<^sup>*\<^sup>* (fst s) (fst (call h ev s))" and inv: "mgr_inv (fst s)"
  assume "(let tail = sm_queueTail (fst s); head = sm_queueHead (fst s)
      in if tail = head then Some s
         else let s' = fold (dispatch_one call tail) [0..<n] s
              in rec call n ((fst s')\<lparr>sm_queueTail := u8_next 64 tail\<rparr>, snd s')) = Some s'"
  then show "mgr_step\<^sup>*\<^sup>* (fst s) (fst s') \<and> sm_queueTail (fst s') = sm_queueHead (fst s')"
    by (rule process_body_steps [rotated]) (use IH call inv in auto)
qed

lemma ProcessEvents_steps:
  assumes "ProcessEvents call s = Some s'" "mgr_inv (fst s)"
    and "\<And>h ev s. api_step\<^sup>*\<^sup>* (fst s) (fst (call h ev s))"
  shows "mgr_step\<^sup>*\<^sup>* (fst s) (fst s')" "sm_queueTail (fst s') = sm_queueHead (fst s')"
proof -
  have "mgr_step\<^sup>*\<^sup>* (fst s) (fst s') \<and> sm_queueTail (fst s') = sm_queueHead (fst s')"
  proof (cases "sm_initialised (fst s)")
    case True
    then show ?thesis
      using process_loop_steps [of call _ s s'] assms by (auto simp: ProcessEvents_def IsInitialised_def)
  next
    case False
    then show ?thesis
      using assms by (simp add: ProcessEvents_def IsInitialised_def mgr_inv_def)
  qed
  then show "mgr_step\<^sup>*\<^sup>* (fst s) (fst s')" "sm_queueTail (fst s') = sm_queueHead (fst s')"
    by simp_all
qed

section \<open>A handler that republishes\<close>

text \<open>
  \<open>echo_call\<close> publishes the event it is given. Once such an event with a subscriber is
  pending, the queue is never empty again and \<open>ProcessEvents\<close> does not return: the
  dispatcher needs handlers that publish less than they consume.
\<close>

definition echo_call :: "'h \<Rightarrow> SoaEvent \<Rightarrow> 'h SoaServiceManager \<times> 'w \<Rightarrow> 'h SoaServiceManager \<times> 'w" where
  "echo_call h ev s = (snd (PublishEvent ev (fst s)), snd s)"

definition echo_busy :: "SoaEvent \<Rightarrow> 'h SoaServiceManager \<Rightarrow> bool" where
  "echo_busy ev m \<longleftrightarrow> mgr_wf m \<and> sm_initialised m \<and> pending_events m \<noteq> [] \<and>
     set (pending_events m) = {ev} \<and>
     (\<exists>sub \<in> set (subscriptions m). sub_serviceId sub = ev_serviceId ev \<and>
        sub_eventId sub = ev_eventId ev \<and> sub_handler sub \<noteq> None)"

definition matches :: "SoaEvent \<Rightarrow> 'h SubscriberEntry \<Rightarrow> bool" where
  "matches ev sub \<longleftrightarrow> sub_serviceId sub = ev_serviceId ev \<and> sub_eventId sub = ev_eventId ev \<and>
     sub_handler sub \<noteq> None"

lemma pending_hd:
  assumes "mgr_wf m" "pending_events m \<noteq> []"
  shows "sm_eventQueue m ! unat (sm_queueTail m) = hd (pending_events m)"
  using pending_pop [OF assms(1)] pending_empty_iff [OF assms(1)] assms(2) by fastforce

lemma PublishEvent_frame_subs:
  "sm_subscribers (snd (PublishEvent ev m)) = sm_subscribers m"
  "sm_subscriberCount (snd (PublishEvent ev m)) = sm_subscriberCount m"
  by (simp_all add: PublishEvent_def Let_def)

lemma echo_publish:
  assumes "echo_busy ev m"
  shows "echo_busy ev (snd (PublishEvent ev m))"
    and "length (pending_events (snd (PublishEvent ev m))) \<ge> 2"
proof -
  have wf: "mgr_wf m" "sm_initialised m" using assms by (simp_all add: echo_busy_def)
  have len: "Suc 0 \<le> length (pending_events m)"
    using assms by (simp add: echo_busy_def Suc_le_eq)
  have "echo_busy ev (snd (PublishEvent ev m)) \<and> length (pending_events (snd (PublishEvent ev m))) \<ge> 2"
  proof (cases "length (pending_events m) = 63")
    case True
    then have "snd (PublishEvent ev m) = m" by (simp add: PublishEvent_cases [OF wf(1)] wf(2))
    then show ?thesis using assms True by simp
  next
    case False
    then obtain m' where m': "PublishEvent ev m = (Ok (), m')"
      by (simp add: PublishEvent_cases [OF wf(1)] wf(2))
    show ?thesis
      using PublishEvent_Ok [OF wf(1) m'] Publish_frame [of ev m] assms len m'
      by (auto simp: echo_busy_def)
  qed
  then show "echo_busy ev (snd (PublishEvent ev m))"
    "length (pending_events (snd (PublishEvent ev m))) \<ge> 2" by auto
qed

lemma publish_pending_mono:
  assumes "mgr_wf m"
  shows "length (pending_events m) \<le> length (pending_events (snd (PublishEvent ev m)))"
proof (cases "PublishEvent ev m")
  case (Pair r m')
  then show ?thesis
    using PublishEvent_Ok [OF assms, of ev m'] PublishEvent_Err [of ev m _ m'] by (cases r) auto
qed

lemma echo_dispatch_one:
  fixes i :: nat and tail :: u8
  assumes "echo_busy ev (fst s)" "tail = sm_queueTail (fst s)"
  defines "s' \<equiv> dispatch_one echo_call tail i s"
  shows "echo_busy ev (fst s')" "sm_queueTail (fst s') = tail"
    "sm_subscribers (fst s') = sm_subscribers (fst s)"
    "length (pending_events (fst s)) \<le> length (pending_events (fst s'))"
    "matches ev (sm_subscribers (fst s) ! i) \<Longrightarrow> length (pending_events (fst s')) \<ge> 2"
proof -
  have wf: "mgr_wf (fst s)" and ne: "pending_events (fst s) \<noteq> []"
    and ev: "hd (pending_events (fst s)) = ev"
    using assms(1) by (auto simp: echo_busy_def dest: hd_in_set)
  have eq: "s' = (if matches ev (sm_subscribers (fst s) ! i)
      then (snd (PublishEvent ev (fst s)), snd s) else s)"
    using pending_hd [OF wf ne] ev assms(2)
    by (auto simp: s'_def dispatch_one_def matches_def echo_call_def Let_def split: option.split)
  show "echo_busy ev (fst s')" "sm_queueTail (fst s') = tail"
    "sm_subscribers (fst s') = sm_subscribers (fst s)"
    "length (pending_events (fst s)) \<le> length (pending_events (fst s'))"
    "matches ev (sm_subscribers (fst s) ! i) \<Longrightarrow> length (pending_events (fst s')) \<ge> 2"
    using echo_publish [OF assms(1)] publish_pending_mono [OF wf] assms(1,2)
    by (simp_all add: eq api_frames PublishEvent_frame_subs)
qed

lemma echo_dispatch_fold:
  fixes "is" :: "nat list" and tail :: u8
  assumes "echo_busy ev (fst s)" "tail = sm_queueTail (fst s)"
  defines "t \<equiv> fold (dispatch_one echo_call tail) is s"
  shows "echo_busy ev (fst t) \<and> sm_queueTail (fst t) = tail \<and>
    length (pending_events (fst s)) \<le> length (pending_events (fst t)) \<and>
    ((\<exists>i \<in> set is. matches ev (sm_subscribers (fst s) ! i)) \<longrightarrow> length (pending_events (fst t)) \<ge> 2)"
  unfolding t_def using assms(1,2)
proof (induction "is" arbitrary: s)
  case (Cons i "is")
  note one = echo_dispatch_one [OF Cons.prems, of i]
  show ?case
    using Cons.IH [OF one(1) one(2) [symmetric]] one(3-5) by (auto simp: le_trans)
qed simp

lemma echo_pop:
  assumes "echo_busy ev m" "length (pending_events m) \<ge> 2"
  shows "echo_busy ev (m\<lparr>sm_queueTail := u8_next 64 (sm_queueTail m)\<rparr>)"
proof -
  have wf: "mgr_wf m" and ne: "sm_queueTail m \<noteq> sm_queueHead m"
    using assms(1) pending_empty_iff [of m] by (auto simp: echo_busy_def)
  let ?m = "m\<lparr>sm_queueTail := u8_next 64 (sm_queueTail m)\<rparr>"
  have "length (pending_events ?m) \<ge> 1" "set (pending_events ?m) \<subseteq> set (pending_events m)"
    using assms(2) by (auto simp: pending_pop [OF wf ne])
  then have "pending_events ?m \<noteq> [] \<and> set (pending_events ?m) = {ev}"
    using assms(1) unfolding echo_busy_def by (cases "pending_events ?m") auto
  then show ?thesis
    using assms(1) mgr_wf_pop [OF wf] by (auto simp: echo_busy_def subscriptions_def)
qed

lemma echo_busy_row:
  assumes "echo_busy ev m"
  shows "\<exists>i \<in> set [0..<unat (sm_subscriberCount m)]. matches ev (sm_subscribers m ! i)"
  using assms by (fastforce simp: echo_busy_def matches_def subscriptions_def in_set_conv_nth mgr_wf_def)

lemma echo_dispatch_subs:
  "sm_subscribers (fst (fold (dispatch_one echo_call tail) is s)) = sm_subscribers (fst s)"
proof (induction "is" arbitrary: s)
  case (Cons i "is")
  have "sm_subscribers (fst (dispatch_one echo_call tail i s)) = sm_subscribers (fst s)"
    by (auto simp: dispatch_one_def echo_call_def Let_def PublishEvent_frame_subs split: option.split)
  then show ?case using Cons.IH [of "dispatch_one echo_call tail i s"] by simp
qed simp

lemma echo_loop_diverges:
  fixes s s' :: "'h SoaServiceManager \<times> 'w"
  assumes "process_loop call n s = Some s'"
  shows "call = echo_call \<longrightarrow> echo_busy ev (fst s) \<longrightarrow>
    (\<exists>i \<in> set [0..<n]. matches ev (sm_subscribers (fst s) ! i)) \<longrightarrow> False"
proof (rule process_loop.raw_induct [OF _ assms], intro impI)
  fix rec :: "('h \<Rightarrow> SoaEvent \<Rightarrow> 'h SoaServiceManager \<times> 'w \<Rightarrow> 'h SoaServiceManager \<times> 'w) \<Rightarrow> nat \<Rightarrow>
      'h SoaServiceManager \<times> 'w \<Rightarrow> ('h SoaServiceManager \<times> 'w) option"
    and call :: "'h \<Rightarrow> SoaEvent \<Rightarrow> 'h SoaServiceManager \<times> 'w \<Rightarrow> 'h SoaServiceManager \<times> 'w"
    and n and s s' :: "'h SoaServiceManager \<times> 'w"
  assume IH: "\<And>call n s s'. rec call n s = Some s' \<Longrightarrow> call = echo_call \<longrightarrow> echo_busy ev (fst s) \<longrightarrow>
      (\<exists>i \<in> set [0..<n]. matches ev (sm_subscribers (fst s) ! i)) \<longrightarrow> False"
    and call: "call = echo_call" and busy: "echo_busy ev (fst s)"
    and row: "\<exists>i \<in> set [0..<n]. matches ev (sm_subscribers (fst s) ! i)"
    and body: "(let tail = sm_queueTail (fst s); head = sm_queueHead (fst s)
      in if tail = head then Some s
         else let s' = fold (dispatch_one call tail) [0..<n] s
              in rec call n ((fst s')\<lparr>sm_queueTail := u8_next 64 tail\<rparr>, snd s')) = Some s'"
  let ?t = "fold (dispatch_one echo_call (sm_queueTail (fst s))) [0..<n] s"
  let ?m = "(fst ?t)\<lparr>sm_queueTail := u8_next 64 (sm_queueTail (fst s))\<rparr>"
  have ne: "sm_queueTail (fst s) \<noteq> sm_queueHead (fst s)"
    using busy pending_empty_iff [of "fst s"] by (auto simp: echo_busy_def)
  note t = echo_dispatch_fold [OF busy refl, of "[0..<n]"]
  have "echo_busy ev ?m"
    using echo_pop [of ev "fst ?t"] t row by simp
  moreover have "\<exists>i \<in> set [0..<n]. matches ev (sm_subscribers ?m ! i)"
    using row echo_dispatch_subs [of "sm_queueTail (fst s)" "[0..<n]" s] by simp
  moreover have "rec call n (?m, snd ?t) = Some s'"
    using body ne call by (simp add: Let_def)
  ultimately show False using IH [of call n "(?m, snd ?t)" s'] call by simp
qed

lemma ProcessEvents_echo_None:
  assumes "echo_busy ev m"
  shows "ProcessEvents echo_call (m, w) = None"
  using assms echo_loop_diverges [of echo_call "unat (sm_subscriberCount m)" "(m, w)" _ ev]
    echo_busy_row [OF assms]
  by (cases "ProcessEvents echo_call (m, w)") (auto simp: ProcessEvents_def IsInitialised_def echo_busy_def)

end
