(* ===== verification/Gateway.thy ===== *)
theory Gateway
  imports "HOL-Library.Sublist" Simulation SafetyAudit ServiceLife
begin

text \<open>
  The gateway as a whole: service manager, arbitrator and link in one state, with the history of
  transitions, the commands accepted by the link and the slots taken by the safety core as
  ghosts. Every run of the gateway is, for the arbitrator, a run of \<open>safety_step\<close>, and the
  commands the safety core reads are the transitions of that run.
\<close>

section \<open>State and steps\<close>

record ('h, 'l) gateway =
  gw_mgr :: "'h SoaServiceManager"
  gw_arb :: "'l SafetyArbitrator"
  gw_hist :: "SafeStateTransition list"
  gw_sent :: "SafeStateCommand list"
  gw_taken :: "IpcSlot list"

text \<open>Start-up, from the constructors: \<open>r\<close> is the shared memory as the core finds it.\<close>

definition gateway_boot :: "IpcRingBuffer \<Rightarrow> u8 \<Rightarrow> u64 \<Rightarrow> ('h, 'l) gateway" where
  "gateway_boot r mand now =
     (let m = snd (SoaServiceManager_Init SoaServiceManager_new);
          b = snd (IpcBridge_Init (IpcBridge_new (Some r)))
      in \<lparr>gw_mgr = m, gw_arb = snd (SafetyArbitrator_Init mand now (SafetyArbitrator_new (Some b))),
          gw_hist = [], gw_sent = [], gw_taken = []\<rparr>)"

text \<open>
  What the dispatcher's call of the address \<open>h\<close> does to the arbitrator: the arbitrator's handler
  has the address \<open>h0\<close>, other handlers act elsewhere. The clock readings are consumed in order.
\<close>

definition gateway_handler :: "'h \<Rightarrow> 'h \<Rightarrow> SoaEvent \<Rightarrow> 'l SafetyArbitrator option \<times> (nat \<Rightarrow> u64) \<Rightarrow>
    'l SafetyArbitrator option \<times> (nat \<Rightarrow> u64)" where
  "gateway_handler h0 h ev w =
     (if h = h0 then (SoaArbitratorEventHandler ev (snd w 0) (fst w), snd w \<circ> Suc) else w)"

text \<open>The command a cycle hands to the link, when the link accepts it.\<close>

definition cycle_cmd :: "cycle_times \<Rightarrow> 'l SafetyArbitrator \<Rightarrow> SafeStateCommand" where
  "cycle_cmd ct a = build_command (required_state (ct_scan ct) a) (arb_sequenceNum a) (cycle_start (ct_scan ct) a)"

definition sent_step :: "cycle_times \<Rightarrow> 'l SafetyArbitrator \<Rightarrow> SafeStateCommand list" where
  "sent_step ct a =
     (if hist_step ct a = [] \<or> \<not> res_ok (fst (SendCommandToM7 (cycle_cmd ct a) (cycle_start (ct_scan ct) a)))
      then [] else [cycle_cmd ct a])"

definition cycled :: "cycle_times \<Rightarrow> ('h, 'l) gateway \<Rightarrow> ('h, 'l) gateway" where
  "cycled ct s = s\<lparr>gw_arb := cycle ct (gw_arb s), gw_hist := gw_hist s @ hist_step ct (gw_arb s),
     gw_sent := gw_sent s @ sent_step ct (gw_arb s)\<rparr>"

text \<open>The safety core takes the oldest slot.\<close>

definition take_slot :: "IpcRingBuffer \<Rightarrow> IpcRingBuffer" where
  "take_slot r = r\<lparr>rb_tail := u32_mask_next kIpcRingSlotMask (rb_tail r)\<rparr>"

inductive read_step :: "('h, 'l) gateway \<Rightarrow> ('h, 'l) gateway \<Rightarrow> bool" where
  read_take: "arb_ipc (gw_arb s) = Some b \<Longrightarrow> br_ring b = Some r \<Longrightarrow> rb_tail r \<noteq> rb_head r \<Longrightarrow>
    read_step s (s\<lparr>gw_arb := (gw_arb s)\<lparr>arb_ipc := Some (b\<lparr>br_ring := Some (take_slot r)\<rparr>)\<rparr>,
      gw_taken := gw_taken s @ [rb_slots r ! unat (rb_tail r)]\<rparr>)"

inductive_cases read_stepE: "read_step s s'"

inductive gateway_step :: "'h \<Rightarrow> ('h, 'l) gateway \<Rightarrow> ('h, 'l) gateway \<Rightarrow> bool" for h0 where
  g_api: "api_step (gw_mgr s) m \<Longrightarrow> gateway_step h0 s (s\<lparr>gw_mgr := m\<rparr>)"
| g_process: "ProcessEvents (plain_call (gateway_handler h0))
      (gw_mgr s, SetGlobalArbitrator (Some (gw_arb s)), clk) = Some (m, Some a, clk') \<Longrightarrow>
    gateway_step h0 s (s\<lparr>gw_mgr := m, gw_arb := a\<rparr>)"
| g_fault: "gateway_step h0 s (s\<lparr>gw_arb := snd (IngestFault e now (gw_arb s))\<rparr>)"
| g_inject: "gateway_step h0 s (s\<lparr>gw_arb := snd (InjectFault d h dtc stamp now (gw_arb s))\<rparr>)"
| g_beat: "gateway_step h0 s (s\<lparr>gw_arb := snd (RecordHeartbeat d now (gw_arb s))\<rparr>)"
| g_listener: "gateway_step h0 s (s\<lparr>gw_arb := snd (RegisterListener l (gw_arb s))\<rparr>)"
| g_cycle: "gateway_step h0 s (cycled ct s)"
| g_take: "read_step s s' \<Longrightarrow> gateway_step h0 s s'"

inductive_cases gateway_stepE: "gateway_step h0 s s'"

section \<open>The projections\<close>

text \<open>What the arbitrator's run and the link's run see of the gateway.\<close>

definition arb_run :: "('h, 'l) gateway \<Rightarrow> 'l safety_run" where
  "arb_run s = \<lparr>sr_arb = gw_arb s, sr_hist = gw_hist s\<rparr>"

definition link_run :: "('h, 'l) gateway \<Rightarrow> IpcBridge \<Rightarrow> ipc_link" where
  "link_run s b = \<lparr>lk_bridge = b, lk_sent = map command_event (gw_sent s), lk_taken = gw_taken s\<rparr>"

definition command_key :: "SafeStateCommand \<Rightarrow> SafeState \<times> u32" where
  "command_key c = (cmd_state c, cmd_sequenceNum c)"

definition transition_key :: "SafeStateTransition \<Rightarrow> SafeState \<times> u32" where
  "transition_key r = (tr_toState r, tr_sequenceNum r)"

definition sane_command :: "SafeStateCommand \<Rightarrow> bool" where
  "sane_command c \<longleftrightarrow> cmd_magic c = kArbitratorMagic \<and> cmd_transitionMs c = 0 \<and> cmd_reserved c = 0 \<and>
     (cmd_maxSpeedKph c, cmd_maxDecelMps2 c) = state_caps (cmd_state c)"

definition gateway_inv :: "('h, 'l) gateway \<Rightarrow> bool" where
  "gateway_inv s \<longleftrightarrow> mgr_inv (gw_mgr s) \<and> sm_initialised (gw_mgr s) \<and> run_inv (arb_run s) \<and>
     (\<exists>b. arb_ipc (gw_arb s) = Some b \<and> link_inv (link_run s b)) \<and>
     subseq (map command_key (gw_sent s)) (map transition_key (gw_hist s)) \<and>
     list_all sane_command (gw_sent s)"

lemma arb_run_sel [simp]: "sr_arb (arb_run s) = gw_arb s" "sr_hist (arb_run s) = gw_hist s"
  by (simp_all add: arb_run_def)

lemma link_run_sel [simp]:
  "lk_bridge (link_run s b) = b" "lk_sent (link_run s b) = map command_event (gw_sent s)"
  "lk_taken (link_run s b) = gw_taken s"
  by (simp_all add: link_run_def)

lemma gateway_invE:
  assumes "gateway_inv s"
  obtains b where "mgr_inv (gw_mgr s)" "sm_initialised (gw_mgr s)" "run_inv (arb_run s)"
    "arb_ipc (gw_arb s) = Some b" "link_inv (link_run s b)"
    "subseq (map command_key (gw_sent s)) (map transition_key (gw_hist s))"
    "list_all sane_command (gw_sent s)"
  using assms by (auto simp: gateway_inv_def)

section \<open>The dispatcher and the arbitrator\<close>

lemma ingest_ipc:
  "arb_ipc (snd (IngestFault e now a)) = arb_ipc a"
  "arb_ipc (snd (InjectFault d h dtc stamp now a)) = arb_ipc a"
  "arb_ipc (snd (IngestSoaEvent ev now a)) = arb_ipc a"
  "arb_ipc (snd (RecordHeartbeat d now a)) = arb_ipc a"
  "arb_ipc (snd (RegisterListener l a)) = arb_ipc a"
  by (simp_all add: IngestFault_def InjectFault_def IngestSoaEvent_def RecordHeartbeat_def Let_def
      RegisterListener_def update_domain_def)

text \<open>The arbitrators that event handling can lead to, seen as a run of the arbitrator.\<close>

definition event_run :: "SafeStateTransition list \<Rightarrow> 'l SafetyArbitrator \<Rightarrow> 'l SafetyArbitrator \<Rightarrow> bool" where
  "event_run hist a b \<longleftrightarrow>
     safety_step\<^sup>*\<^sup>* \<lparr>sr_arb = a, sr_hist = hist\<rparr> \<lparr>sr_arb = b, sr_hist = hist\<rparr> \<and> arb_ipc b = arb_ipc a"

lemma event_run_refl: "event_run hist a a"
  by (simp add: event_run_def)

lemma event_run_trans: "event_run hist a b \<Longrightarrow> event_run hist b c \<Longrightarrow> event_run hist a c"
  by (auto simp: event_run_def)

lemma event_run_ingest: "event_run hist a (snd (IngestSoaEvent ev now a))"
  using s_event [of "\<lparr>sr_arb = a, sr_hist = hist\<rparr>" ev now]
  by (simp add: event_run_def ingest_ipc r_into_rtranclp)

definition event_world :: "SafeStateTransition list \<Rightarrow> 'l SafetyArbitrator \<Rightarrow>
    'l SafetyArbitrator option \<times> (nat \<Rightarrow> u64) \<Rightarrow> bool" where
  "event_world hist a w \<longleftrightarrow> (\<exists>b. fst w = Some b \<and> event_run hist a b)"

lemma event_world_deliver_one:
  "event_world hist a w \<Longrightarrow> event_world hist a (deliver_one (gateway_handler h0) ev sub w)"
  using event_run_ingest event_run_trans
  by (fastforce simp: event_world_def deliver_one_def gateway_handler_def SoaArbitratorEventHandler_def
      split: option.split)

lemma event_world_deliver:
  "event_world hist a w \<Longrightarrow> event_world hist a (deliver (gateway_handler h0) subs ev w)"
  unfolding deliver_fold
  by (rule fold_invariant [where Q = "\<lambda>_. True"]) (simp_all add: event_world_deliver_one)

lemma event_world_events:
  "event_world hist a w \<Longrightarrow> event_world hist a (fold (deliver (gateway_handler h0) subs) evs w)"
  by (rule fold_invariant [where Q = "\<lambda>_. True"]) (simp_all add: event_world_deliver)

lemma process_event_run:
  assumes "mgr_inv m0" "sm_initialised m0"
    and "ProcessEvents (plain_call (gateway_handler h0)) (m0, SetGlobalArbitrator (Some a), clk) =
      Some (m, Some b, clk')"
  shows "event_run hist a b" "m = m0\<lparr>sm_queueTail := sm_queueHead m0\<rparr>"
proof -
  have wf: "mgr_wf m0" using assms(1) by (simp add: mgr_inv_def)
  have eq: "m = m0\<lparr>sm_queueTail := sm_queueHead m0\<rparr>"
    "fold (deliver (gateway_handler h0) (subscriptions m0)) (pending_events m0) (Some a, clk) = (Some b, clk')"
    using assms(3) by (simp_all add: ProcessEvents_plain [OF wf assms(2)] SetGlobalArbitrator_def)
  have "event_world hist a (Some a, clk)" by (simp add: event_world_def event_run_refl)
  from event_world_events [OF this, of h0 "subscriptions m0" "pending_events m0"]
  show "event_run hist a b" by (simp add: eq(2) event_world_def)
  show "m = m0\<lparr>sm_queueTail := sm_queueHead m0\<rparr>" by (rule eq(1))
qed

section \<open>The cycle and the link\<close>

lemma hist_step_eq:
  assumes "arb_wf a" "arb_initialised a" "arb_currentState a \<noteq> kEmergencyStop"
  shows "hist_step ct a =
    (if required_state (ct_scan ct) a = arb_currentState a then []
     else [log_entry ct (required_state (ct_scan ct) a) (cycle_start (ct_scan ct) a)])"
  by (simp add: hist_step_def cycle_state [OF assms])

lemma cycle_link:
  assumes "arb_wf a" "arb_initialised a" "arb_currentState a \<noteq> kEmergencyStop" "arb_ipc a = Some b"
    and "br_initialised b"
  obtains (kept) "hist_step ct a = []" "sent_step ct a = []" "arb_ipc (cycle ct a) = Some b"
  | (lost) "sent_step ct a = []" "arb_ipc (cycle ct a) = Some b" "length (br_pending b) = 31"
  | (sent) b' where "sent_step ct a = [cycle_cmd ct a]" "arb_ipc (cycle ct a) = Some b'"
      "IpcBridge_Send (command_event (cycle_cmd ct a)) b = (Ok (), b')"
      "hist_step ct a = [log_entry ct (required_state (ct_scan ct) a) (cycle_start (ct_scan ct) a)]"
proof (cases "required_state (ct_scan ct) a = arb_currentState a")
  case True
  then show ?thesis
    using kept assms cycle_start_frame(4) [of a "ct_scan ct"]
    by (simp add: hist_step_eq sent_step_def cycle_cases arb_wf_def)
next
  case False
  let ?c = "cycle_start (ct_scan ct) a" and ?t = "required_state (ct_scan ct) a"
  have len: "length (arb_domains a) = 8" using assms(1) by (simp add: arb_wf_def)
  have fr: "arb_ipc ?c = Some b" "arb_sequenceNum ?c = arb_sequenceNum a"
    using cycle_start_frame [OF len] assms(4) by simp_all
  have wf: "bridge_wf b" using assms(1,4) by (simp add: arb_wf_def ipc_wf_def)
  have cyc: "cycle ct a = executed ct ?t ?c" using assms False by (simp add: cycle_cases)
  have h: "hist_step ct a = [log_entry ct ?t ?c]" using assms False by (simp add: hist_step_eq)
  obtain r b' where s: "IpcBridge_Send (command_event (cycle_cmd ct a)) b = (r, b')" by fastforce
  have cmd: "build_command ?t (arb_sequenceNum ?c) ?c = cycle_cmd ct a"
    by (simp add: cycle_cmd_def fr(2))
  have ipc: "arb_ipc (cycle ct a) = Some b'"
    by (simp add: cyc executed_def cmd SendCommandToM7_def fr(1) s)
  have st: "sent_step ct a = (if res_ok r then [cycle_cmd ct a] else [])"
    by (simp add: sent_step_def h SendCommandToM7_def fr(1) s)
  show ?thesis
  proof (cases r)
    case (Ok u)
    then show ?thesis using sent [of b'] s st ipc h by simp
  next
    case (Err e)
    then have "b' = b" "length (br_pending b) = 31"
      using Send_error_unchanged [of _ b e b'] s Send_result [OF wf assms(5) event_wf_command, of "cycle_cmd ct a"]
      by (auto split: if_splits)
    then show ?thesis using lost Err st ipc by simp
  qed
qed

lemma cycle_cmd_key:
  assumes "run_inv (arb_run s)"
  shows "command_key (cycle_cmd ct (gw_arb s)) =
    transition_key (log_entry ct (required_state (ct_scan ct) (gw_arb s)) (cycle_start (ct_scan ct) (gw_arb s)))"
proof -
  have "length (arb_domains (gw_arb s)) = 8"
    "arb_transitionCount (gw_arb s) = arb_sequenceNum (gw_arb s)"
    using assms by (simp_all add: run_inv_def Let_def arb_wf_def)
  then show ?thesis
    by (simp add: command_key_def transition_key_def cycle_cmd_def build_command_def log_entry_def)
qed

lemma sane_cycle_cmd: "sane_command (cycle_cmd ct a)"
  by (simp add: sane_command_def cycle_cmd_def build_command_def SafeStateCommand_default_def)

section \<open>The invariant\<close>

lemma api_initialised: "api_step m m' \<Longrightarrow> sm_initialised m' = sm_initialised m"
  by (induction rule: api_step.induct)
    (simp_all add: api_frames OfferService_def StopService_def Let_def split: option.split)

lemma gateway_inv_arb:
  assumes "gateway_inv s" "safety_step\<^sup>*\<^sup>* (arb_run s) (arb_run (s\<lparr>gw_arb := a\<rparr>))" "arb_ipc a = arb_ipc (gw_arb s)"
  shows "gateway_inv (s\<lparr>gw_arb := a\<rparr>)"
proof -
  have "run_inv (arb_run (s\<lparr>gw_arb := a\<rparr>))"
    using assms(2) gateway_invE [OF assms(1)] by (induction rule: rtranclp_induct) (auto intro: run_inv_step)
  then show ?thesis
    using assms by (auto simp: gateway_inv_def link_run_def)
qed

lemma gateway_inv_cycle:
  assumes "gateway_inv s"
  shows "gateway_inv (cycled ct s)"
proof -
  obtain b where b: "mgr_inv (gw_mgr s)" "sm_initialised (gw_mgr s)" "run_inv (arb_run s)"
    "arb_ipc (gw_arb s) = Some b" "link_inv (link_run s b)"
    "subseq (map command_key (gw_sent s)) (map transition_key (gw_hist s))"
    "list_all sane_command (gw_sent s)"
    using gateway_invE [OF assms] by blast
  have a: "arb_wf (gw_arb s)" "arb_initialised (gw_arb s)" "arb_currentState (gw_arb s) \<noteq> kEmergencyStop"
    using b(3) by (simp_all add: run_inv_def Let_def)
  have i: "br_initialised b" using b(5) by (simp add: link_inv_def)
  have run: "run_inv \<lparr>sr_arb = cycle ct (gw_arb s), sr_hist = gw_hist s @ hist_step ct (gw_arb s)\<rparr>"
    using run_inv_cycle [OF b(3), of ct] by (simp add: arb_run_def)
  show ?thesis
  proof (rule cycle_link [OF a b(4) i, of ct])
    fix b'
    assume st: "sent_step ct (gw_arb s) = [cycle_cmd ct (gw_arb s)]"
      and ipc: "arb_ipc (cycle ct (gw_arb s)) = Some b'"
      and send: "IpcBridge_Send (command_event (cycle_cmd ct (gw_arb s))) b = (Ok (), b')"
      and h: "hist_step ct (gw_arb s) = [log_entry ct (required_state (ct_scan ct) (gw_arb s)) (cycle_start (ct_scan ct) (gw_arb s))]"
    have "link_inv (link_run (s\<lparr>gw_sent := gw_sent s @ sent_step ct (gw_arb s)\<rparr>) b')"
      using link_inv_produce [OF b(5) event_wf_command, of "cycle_cmd ct (gw_arb s)" "Ok ()" b'] send st
      by (simp add: link_run_def)
    then show ?thesis
      using b run ipc st h cycle_cmd_key [OF b(3), of ct] list_emb_append_mono [OF b(6), of "[_]" "[_]"]
      by (simp add: gateway_inv_def arb_run_def link_run_def cycled_def sane_cycle_cmd)
  qed (use b run in \<open>simp_all add: gateway_inv_def arb_run_def link_run_def cycled_def subseq_rev_drop_many\<close>)
qed

lemma gateway_inv_take:
  assumes "gateway_inv s" "arb_ipc (gw_arb s) = Some b" "br_ring b = Some r" "rb_tail r \<noteq> rb_head r"
  shows "gateway_inv (s\<lparr>gw_arb := (gw_arb s)\<lparr>arb_ipc := Some (b\<lparr>br_ring := Some (take_slot r)\<rparr>)\<rparr>,
      gw_taken := gw_taken s @ [rb_slots r ! unat (rb_tail r)]\<rparr>)"
    and "ipc_wf (Some (b\<lparr>br_ring := Some (take_slot r)\<rparr>))"
proof -
  have l: "link_inv (link_run s b)" using assms(1,2) by (auto simp: gateway_inv_def)
  note c = link_inv_consume [OF l, of r]
  then have l': "link_inv (link_run (s\<lparr>gw_taken := gw_taken s @ [rb_slots r ! unat (rb_tail r)]\<rparr>)
      (b\<lparr>br_ring := Some (take_slot r)\<rparr>))"
    using assms(3,4) by (simp add: link_run_def take_slot_def)
  then show wf: "ipc_wf (Some (b\<lparr>br_ring := Some (take_slot r)\<rparr>))"
    by (simp add: link_inv_def ipc_wf_def)
  have "run_inv (arb_run s)" using assms(1) by (simp add: gateway_inv_def)
  from run_inv_step [OF s_link [OF wf] this]
  show "gateway_inv (s\<lparr>gw_arb := (gw_arb s)\<lparr>arb_ipc := Some (b\<lparr>br_ring := Some (take_slot r)\<rparr>)\<rparr>,
      gw_taken := gw_taken s @ [rb_slots r ! unat (rb_tail r)]\<rparr>)"
    using assms(1) l' by (simp add: gateway_inv_def link_run_def arb_run_def)
qed

text \<open>A step keeps the invariant and is, for the arbitrator, a run of \<open>safety_step\<close>.\<close>

lemma gateway_inv_process:
  assumes "gateway_inv s" "ProcessEvents (plain_call (gateway_handler h0))
      (gw_mgr s, SetGlobalArbitrator (Some (gw_arb s)), clk) = Some (m, Some a, clk')"
  shows "gateway_inv (s\<lparr>gw_mgr := m, gw_arb := a\<rparr>)"
    "safety_step\<^sup>*\<^sup>* (arb_run s) (arb_run (s\<lparr>gw_mgr := m, gw_arb := a\<rparr>))"
proof -
  have m: "mgr_inv (gw_mgr s)" "sm_initialised (gw_mgr s)" using assms(1) by (simp_all add: gateway_inv_def)
  note p = process_event_run(1) [OF m assms(2), of "gw_hist s"] process_event_run(2) [OF m assms(2)]
  then show r: "safety_step\<^sup>*\<^sup>* (arb_run s) (arb_run (s\<lparr>gw_mgr := m, gw_arb := a\<rparr>))"
    by (simp add: event_run_def arb_run_def)
  have "gateway_inv (s\<lparr>gw_arb := a\<rparr>)"
    by (rule gateway_inv_arb [OF assms(1)]) (use p(1) in \<open>simp_all add: event_run_def arb_run_def\<close>)
  moreover have "mgr_inv m"
    using m(1) by (auto simp: p(2) mgr_inv_def mgr_wf_def services_def subscriptions_def)
  ultimately show "gateway_inv (s\<lparr>gw_mgr := m, gw_arb := a\<rparr>)"
    using m(2) by (simp add: gateway_inv_def arb_run_def link_run_def p(2))
qed

lemma gateway_inv_ingest:
  assumes "gateway_inv s" "safety_step (arb_run s) (arb_run (s\<lparr>gw_arb := a\<rparr>))" "arb_ipc a = arb_ipc (gw_arb s)"
  shows "gateway_inv (s\<lparr>gw_arb := a\<rparr>) \<and> safety_step\<^sup>*\<^sup>* (arb_run s) (arb_run (s\<lparr>gw_arb := a\<rparr>))"
  using gateway_inv_arb [OF assms(1) r_into_rtranclp [of safety_step, OF assms(2)] assms(3)] assms(2)
  by (simp add: r_into_rtranclp)

lemma arb_run_steps:
  "safety_step (arb_run s) (arb_run (s\<lparr>gw_arb := snd (IngestFault e now (gw_arb s))\<rparr>))"
  "safety_step (arb_run s) (arb_run (s\<lparr>gw_arb := snd (InjectFault d h dtc stamp now (gw_arb s))\<rparr>))"
  "safety_step (arb_run s) (arb_run (s\<lparr>gw_arb := snd (RecordHeartbeat d now (gw_arb s))\<rparr>))"
  "safety_step (arb_run s) (arb_run (s\<lparr>gw_arb := snd (RegisterListener l (gw_arb s))\<rparr>))"
  using s_fault [of "arb_run s" e now] s_inject [of "arb_run s" d h dtc stamp now]
    s_beat [of "arb_run s" d now] s_listener [of "arb_run s" l]
  by (simp_all add: arb_run_def)

lemma gateway_step_inv:
  assumes "gateway_step h0 s s'" "gateway_inv s"
  shows "gateway_inv s' \<and> safety_step\<^sup>*\<^sup>* (arb_run s) (arb_run s')"
  using assms
proof (induction rule: gateway_step.induct)
  case (g_api s m)
  then show ?case
    using mgr_inv_api [of "gw_mgr s" m] api_initialised [of "gw_mgr s" m]
    by (simp add: gateway_inv_def arb_run_def link_run_def)
next
  case (g_process s clk m a clk')
  show ?case using gateway_inv_process [OF g_process.prems g_process.hyps] by simp
next
  case (g_cycle s ct)
  then show ?case
    using gateway_inv_cycle [of s ct] s_cycle [of "arb_run s" ct]
    by (simp add: arb_run_def cycled_def r_into_rtranclp)
next
  case (g_take s s')
  from g_take.hyps show ?case
  proof (rule read_stepE)
    fix b r
    assume t: "arb_ipc (gw_arb s) = Some b" "br_ring b = Some r" "rb_tail r \<noteq> rb_head r"
      and s': "s' = s\<lparr>gw_arb := (gw_arb s)\<lparr>arb_ipc := Some (b\<lparr>br_ring := Some (take_slot r)\<rparr>)\<rparr>,
        gw_taken := gw_taken s @ [rb_slots r ! unat (rb_tail r)]\<rparr>"
    show ?thesis
      using gateway_inv_take [OF g_take.prems t] s_link [of "Some (b\<lparr>br_ring := Some (take_slot r)\<rparr>)" "arb_run s"]
      by (simp add: s' arb_run_def r_into_rtranclp)
  qed
qed (simp_all add: gateway_inv_ingest arb_run_steps ingest_ipc)

lemma gateway_inv_boot: "gateway_inv (gateway_boot r mand now :: ('h, 'l) gateway)"
proof -
  let ?b = "snd (IpcBridge_Init (IpcBridge_new (Some r)))"
  let ?a = "SafetyArbitrator_new (Some ?b) :: 'l SafetyArbitrator"
  have b: "IpcBridge_Init (IpcBridge_new (Some r)) = (Ok (), ?b)"
    by (simp add: Init_cases IpcBridge_new_def)
  note link = link_inv_start [OF b]
  then have wf: "arb_wf ?a"
    by (intro arb_wf_new) (simp add: ipc_wf_def link_inv_def link_start_def)
  have "run_inv (run_start (snd (SafetyArbitrator_Init mand now ?a)))"
    by (rule run_inv_start [OF _ wf, of mand now]) (simp add: SafetyArbitrator_Init_def SafetyArbitrator_new_def)
  moreover have "arb_ipc (snd (SafetyArbitrator_Init mand now ?a)) = Some ?b"
    by (simp add: SafetyArbitrator_Init_def SafetyArbitrator_new_def)
  moreover have "sm_initialised (snd (SoaServiceManager_Init (SoaServiceManager_new :: 'h SoaServiceManager)))"
    by (simp add: SoaServiceManager_Init_def SoaServiceManager_new_def)
  ultimately show ?thesis
    using link mgr_inv_Init [OF mgr_inv_new]
    by (simp add: gateway_inv_def gateway_boot_def Let_def arb_run_def link_run_def run_start_def
        link_start_def)
qed

interpretation gateway_sim: forward_simulation "gateway_step h0" safety_step
    "\<lambda>s t. gateway_inv s \<and> t = arb_run s" arb_run id for h0 :: 'h
  by unfold_locales (auto dest: gateway_step_inv)

lemma gateway_reachable:
  fixes s :: "('h, 'l) gateway"
  assumes "(gateway_step h0)\<^sup>*\<^sup>* (gateway_boot r mand now) s"
  shows "gateway_inv s"
    "safety_step\<^sup>*\<^sup>* (run_start (gw_arb (gateway_boot r mand now :: ('h, 'l) gateway))) (arb_run s)"
proof -
  have start: "run_start (gw_arb (gateway_boot r mand now :: ('h, 'l) gateway)) =
      arb_run (gateway_boot r mand now :: ('h, 'l) gateway)"
    by (simp add: run_start_def arb_run_def gateway_boot_def Let_def)
  show "gateway_inv s"
    "safety_step\<^sup>*\<^sup>* (run_start (gw_arb (gateway_boot r mand now :: ('h, 'l) gateway))) (arb_run s)"
    using gateway_sim.matched_run [OF assms] gateway_inv_boot [of r mand now] unfolding start by auto
qed

end
