(* ===== verification/GatewayView.thy ===== *)
theory GatewayView
  imports Gateway
begin

text \<open>
  What the safety core knows: the commands it decodes from the slots it took, the runs in which
  the link always had room when a cycle ran, and the state it holds once it has read everything.
\<close>

section \<open>The commands read\<close>

definition unread :: "('h, 'l) gateway \<Rightarrow> IpcSlot list" where
  "unread s = (case arb_ipc (gw_arb s) of None \<Rightarrow> [] | Some b \<Rightarrow> br_pending b)"

text \<open>The state of the last command read; before the first, the state the system starts in.\<close>

definition m7_state :: "IpcSlot list \<Rightarrow> SafeState option" where
  "m7_state sls = (if sls = [] then Some kFullOperation
     else map_option cmd_state (decode_command (sl_payload (last sls))))"

lemma taken_slots:
  assumes "gateway_inv s" "i < length (gw_taken s)"
  shows "i < length (gw_sent s)" "gw_taken s ! i = ipc_slot (word_of_nat i) (command_event (gw_sent s ! i))"
  using assms link_takenD [of "link_run s _" i] by (auto simp: gateway_inv_def)

lemma taken_le_sent:
  assumes "gateway_inv s"
  shows "length (gw_taken s) \<le> length (gw_sent s)"
  using taken_slots(1) [OF assms] by (meson not_le_imp_less order_less_irrefl)

lemma taken_decode_nth:
  assumes "gateway_inv s" "i < length (gw_taken s)"
  shows "decode_command (sl_payload (gw_taken s ! i)) = Some (gw_sent s ! i)"
proof -
  have "sane_command (gw_sent s ! i)"
    using assms taken_slots(1) [OF assms] by (auto simp: gateway_inv_def list_all_length)
  then have "(gw_sent s ! i)\<lparr>cmd_reserved := 0\<rparr> = gw_sent s ! i" by (simp add: sane_command_def)
  then show ?thesis by (simp only: taken_slots(2) [OF assms] decode_command_slot)
qed

lemma taken_decode:
  assumes "gateway_inv s"
  shows "map (\<lambda>sl. decode_command (sl_payload sl)) (gw_taken s) = map Some (take (length (gw_taken s)) (gw_sent s))"
  using taken_decode_nth [OF assms] taken_le_sent [OF assms] by (auto intro!: nth_equalityI)

lemma unread_sent:
  assumes "gateway_inv s"
  shows "length (gw_taken s) + length (unread s) = length (gw_sent s)"
proof -
  obtain b where "arb_ipc (gw_arb s) = Some b" "link_inv (link_run s b)"
    using gateway_invE [OF assms] by blast
  then show ?thesis
    by (auto simp: unread_def link_inv_def dest: arg_cong [of _ _ length])
qed

section \<open>Nothing lost\<close>

text \<open>A run in which the safety core reads fast enough: no step meets a full ring.\<close>

definition prompt_step :: "'h \<Rightarrow> ('h, 'l) gateway \<Rightarrow> ('h, 'l) gateway \<Rightarrow> bool" where
  "prompt_step h0 s s' \<longleftrightarrow> gateway_step h0 s s' \<and> length (unread s) < 31"

definition nothing_lost :: "('h, 'l) gateway \<Rightarrow> bool" where
  "nothing_lost s \<longleftrightarrow> map command_key (gw_sent s) = map transition_key (gw_hist s)"

lemma read_step_frame:
  "read_step s s' \<Longrightarrow> gw_hist s' = gw_hist s \<and> gw_sent s' = gw_sent s \<and> gw_mgr s' = gw_mgr s \<and>
     arb_currentState (gw_arb s') = arb_currentState (gw_arb s)"
  by (auto elim!: read_stepE)

lemma nothing_lost_cycled:
  assumes "gateway_inv s" "nothing_lost s" "length (unread s) < 31"
  shows "nothing_lost (cycled ct s)"
proof -
  obtain b where b: "run_inv (arb_run s)" "arb_ipc (gw_arb s) = Some b" "link_inv (link_run s b)"
    using gateway_invE [OF assms(1)] by blast
  then have a: "arb_wf (gw_arb s)" "arb_initialised (gw_arb s)" "arb_currentState (gw_arb s) \<noteq> kEmergencyStop"
    "br_initialised b"
    by (simp_all add: run_inv_def link_inv_def Let_def)
  have room: "length (br_pending b) < 31" using assms(3) b(2) by (simp add: unread_def)
  show ?thesis
    by (rule cycle_link [OF a(1-3) b(2) a(4), of ct])
      (use assms(2) room cycle_cmd_key [OF b(1), of ct] in \<open>simp_all add: nothing_lost_def cycled_def\<close>)
qed

lemma nothing_lost_step:
  assumes "prompt_step h0 s s'" "gateway_inv s" "nothing_lost s"
  shows "nothing_lost s'"
proof -
  have st: "gateway_step h0 s s'" and room: "length (unread s) < 31"
    using assms(1) by (simp_all add: prompt_step_def)
  from st assms(2,3) room show ?thesis
    by (induction rule: gateway_step.induct)
      (auto simp: nothing_lost_cycled nothing_lost_def [where s = "_\<lparr>gw_mgr := _\<rparr>"]
        nothing_lost_def [where s = "_\<lparr>gw_arb := _\<rparr>"] nothing_lost_def dest: read_step_frame
        intro: nothing_lost_cycled [unfolded nothing_lost_def])
qed

lemma prompt_reachable:
  assumes "(prompt_step h0)\<^sup>*\<^sup>* (gateway_boot r mand now) s"
  shows "gateway_inv s \<and> nothing_lost s"
  using assms
proof (induction rule: rtranclp_induct)
  case base
  show ?case
    by (simp add: gateway_inv_boot) (simp add: nothing_lost_def gateway_boot_def Let_def)
next
  case (step s s')
  have "gateway_step h0 s s'" using step.hyps(2) by (simp add: prompt_step_def)
  then show ?case
    using nothing_lost_step [OF step.hyps(2)] gateway_step_inv [of h0 s s'] step.IH by simp
qed

section \<open>The state the safety core holds\<close>

lemma linked_last: "linked s rs t \<Longrightarrow> rs \<noteq> [] \<Longrightarrow> tr_toState (last rs) = t"
  by (induction rs arbitrary: s) (auto split: if_splits)

lemma m7_state_all:
  assumes "gateway_inv s" "nothing_lost s" "unread s = []"
  shows "m7_state (gw_taken s) = Some (arb_currentState (gw_arb s))"
proof -
  have len: "length (gw_taken s) = length (gw_sent s)" "length (gw_sent s) = length (gw_hist s)"
    using unread_sent [OF assms(1)] assms(2,3) by (auto simp: nothing_lost_def dest: map_eq_imp_length_eq)
  have lk: "linked kFullOperation (gw_hist s) (arb_currentState (gw_arb s))"
    using assms(1) by (simp add: gateway_inv_def run_inv_def Let_def)
  show ?thesis
  proof (cases "gw_taken s = []")
    case True
    then show ?thesis using len lk by (simp add: m7_state_def)
  next
    case False
    then have ne: "gw_sent s \<noteq> []" "gw_hist s \<noteq> []" using len by auto
    have "decode_command (sl_payload (last (gw_taken s))) = Some (last (gw_sent s))"
      using taken_decode_nth [OF assms(1), of "length (gw_taken s) - 1"] False ne(1) len(1)
      by (simp add: last_conv_nth)
    moreover have "command_key (last (gw_sent s)) = transition_key (last (gw_hist s))"
      using assms(2) ne unfolding nothing_lost_def by (metis last_map)
    ultimately show ?thesis
      using False linked_last [OF lk ne(2)]
      by (simp add: m7_state_def command_key_def transition_key_def)
  qed
qed

text \<open>Reading to the end is always possible, and changes nothing else.\<close>

lemma read_steps:
  assumes "read_step\<^sup>*\<^sup>* s t" "gateway_inv s" "nothing_lost s"
  shows "gateway_inv t \<and> nothing_lost t \<and> arb_currentState (gw_arb t) = arb_currentState (gw_arb s)"
  using assms(1)
proof (induction rule: rtranclp_induct)
  case (step t t')
  then show ?case
    using gateway_step_inv [OF g_take, of t t'] read_step_frame [of t t'] by (auto simp: nothing_lost_def)
qed (simp add: assms)

lemma read_drains:
  assumes "gateway_inv s"
  shows "\<exists>t. read_step\<^sup>*\<^sup>* s t \<and> unread t = []"
  using assms
proof (induction "length (unread s)" arbitrary: s)
  case (Suc n)
  obtain b where b: "arb_ipc (gw_arb s) = Some b" "link_inv (link_run s b)"
    using gateway_invE [OF Suc.prems] by blast
  then obtain r where r: "br_ring b = Some r" "ring_wf r"
    using bridge_wf_ringE [of b] by (auto simp: link_inv_def)
  have ne: "rb_tail r \<noteq> rb_head r"
    using Suc.hyps(2) b r ipc_ring.queue_empty_iff [of "rb_tail r" "rb_head r" "rb_slots r"]
    by (auto simp: unread_def br_pending_def ring_pending_queue ring_wf_def)
  let ?t = "s\<lparr>gw_arb := (gw_arb s)\<lparr>arb_ipc := Some (b\<lparr>br_ring := Some (take_slot r)\<rparr>)\<rparr>,
      gw_taken := gw_taken s @ [rb_slots r ! unat (rb_tail r)]\<rparr>"
  have st: "read_step s ?t" by (rule read_take [OF b(1) r(1) ne])
  have "n = length (unread ?t)"
    using Suc.hyps(2) b r br_pending_take [OF r(2) ne] by (simp add: unread_def br_pending_def take_slot_def)
  moreover have "gateway_inv ?t" by (rule gateway_inv_take [OF Suc.prems b(1) r(1) ne])
  ultimately obtain t where "read_step\<^sup>*\<^sup>* ?t t" "unread t = []" using Suc.hyps(1) by blast
  with st show ?case by (blast intro: converse_rtranclp_into_rtranclp)
qed auto

text \<open>One round: the dispatcher empties the queue, and the arbitrator it leaves is well formed.\<close>

lemma process_returns:
  assumes "gateway_inv s"
  obtains m a clk' where "ProcessEvents (plain_call (gateway_handler h0))
      (gw_mgr s, SetGlobalArbitrator (Some (gw_arb s)), clk) = Some (m, Some a, clk')"
    "pending_events m = []" "gateway_step h0 s (s\<lparr>gw_mgr := m, gw_arb := a\<rparr>)"
    "gateway_inv (s\<lparr>gw_mgr := m, gw_arb := a\<rparr>)" "unread (s\<lparr>gw_mgr := m, gw_arb := a\<rparr>) = unread s"
proof -
  have m: "mgr_inv (gw_mgr s)" "sm_initialised (gw_mgr s)" using assms by (simp_all add: gateway_inv_def)
  then have wf: "mgr_wf (gw_mgr s)" by (simp add: mgr_inv_def)
  let ?m = "(gw_mgr s)\<lparr>sm_queueTail := sm_queueHead (gw_mgr s)\<rparr>"
  let ?w = "fold (deliver (gateway_handler h0) (subscriptions (gw_mgr s))) (pending_events (gw_mgr s))
      (SetGlobalArbitrator (Some (gw_arb s)), clk)"
  have "event_world (gw_hist s) (gw_arb s) (SetGlobalArbitrator (Some (gw_arb s)), clk)"
    by (simp add: event_world_def event_run_refl SetGlobalArbitrator_def)
  from event_world_events [OF this, of h0 "subscriptions (gw_mgr s)" "pending_events (gw_mgr s)"]
  obtain a clk' where w: "?w = (Some a, clk')" "event_run (gw_hist s) (gw_arb s) a"
    by (cases ?w) (auto simp: event_world_def)
  then have p: "ProcessEvents (plain_call (gateway_handler h0))
      (gw_mgr s, SetGlobalArbitrator (Some (gw_arb s)), clk) = Some (?m, Some a, clk')"
    by (simp add: ProcessEvents_plain [OF wf m(2)])
  have "pending_events ?m = []"
    using wf pending_empty_iff [of ?m] by (simp add: mgr_wf_def)
  then show thesis
    using that [OF p _ g_process [OF p] gateway_inv_process(1) [OF assms p]] w(2)
    by (simp add: unread_def event_run_def)
qed

end
