(* ===== verification/CommitIndex.thy ===== *)
theory CommitIndex
  imports ServiceManager
begin

text \<open>
  Tables with a commit index (\<open>docs/architecture.md\<close>, section 3.1): one thread writes the row after
  the last one and then raises the counter; other threads load the counter and read the rows below
  it. The locale shows, access by access, that no row is read while it is written and that what is
  read is what was added; it is interpreted for the service registry and for the subscriber table
  of \<open>src/SoaServiceManager.cpp\<close>.
\<close>

section \<open>Accesses\<close>

text \<open>
  The writer: idle, about to load the counter, with the stores to row \<open>i\<close> still to make, and about to
  raise the counter. The reader: idle, about to load the counter, with its bound and the rows
  read so far.
\<close>

datatype ('e, 's) writer_pc = WIdle | WLoad 'e | WFill 'e nat "('s \<Rightarrow> 's) list" | WCommit 'e nat
datatype 'r reader_pc = RIdle | RCount | RRows nat "'r list"

fun writer_access :: "('s \<Rightarrow> nat) \<Rightarrow> nat \<Rightarrow> ('e \<Rightarrow> nat \<Rightarrow> ('s \<Rightarrow> 's) list) \<Rightarrow> (nat \<Rightarrow> 's \<Rightarrow> 's) \<Rightarrow>
    ('e, 's) writer_pc \<Rightarrow> 's \<Rightarrow> ('e, 's) writer_pc \<times> 's" where
  "writer_access count cap fills commit WIdle s = (WIdle, s)"
| "writer_access count cap fills commit (WLoad e) s =
     (let idx = count s in if idx \<ge> cap then (WIdle, s) else (WFill e idx (fills e idx), s))"
| "writer_access count cap fills commit (WFill e i []) s = (WCommit e i, s)"
| "writer_access count cap fills commit (WFill e i (f # fs)) s = (WFill e i fs, f s)"
| "writer_access count cap fills commit (WCommit e i) s = (WIdle, commit i s)"

fun reader_access :: "('s \<Rightarrow> nat) \<Rightarrow> ('s \<Rightarrow> nat \<Rightarrow> 'r) \<Rightarrow> 'r reader_pc \<Rightarrow> 's \<Rightarrow> 'r reader_pc" where
  "reader_access count row RIdle s = RIdle"
| "reader_access count row RCount s = RRows (count s) []"
| "reader_access count row (RRows n rs) s = (if length rs < n then RRows n (rs @ [row s (length rs)]) else RRows n rs)"

text \<open>A run, with the entries whose call has returned \<open>Ok\<close> as a ghost.\<close>

record ('e, 's, 'r) commit_run =
  cr_tab :: 's
  cr_writer :: "('e, 's) writer_pc"
  cr_reader :: "'r reader_pc"
  cr_added :: "'e list"

inductive commit_step :: "('s \<Rightarrow> nat) \<Rightarrow> ('s \<Rightarrow> nat \<Rightarrow> 'r) \<Rightarrow> nat \<Rightarrow> ('e \<Rightarrow> nat \<Rightarrow> ('s \<Rightarrow> 's) list) \<Rightarrow>
    (nat \<Rightarrow> 's \<Rightarrow> 's) \<Rightarrow> ('e, 's, 'r) commit_run \<Rightarrow> ('e, 's, 'r) commit_run \<Rightarrow> bool"
  for count row cap fills commit where
  c_add: "cr_writer s = WIdle \<Longrightarrow> commit_step count row cap fills commit s (s\<lparr>cr_writer := WLoad e\<rparr>)"
| c_read: "commit_step count row cap fills commit s (s\<lparr>cr_reader := RCount\<rparr>)"
| c_writer: "writer_access count cap fills commit (cr_writer s) (cr_tab s) = (p, t) \<Longrightarrow>
    commit_step count row cap fills commit s (s\<lparr>cr_writer := p, cr_tab := t,
      cr_added := cr_added s @ (case cr_writer s of WCommit e _ \<Rightarrow> [e] | _ \<Rightarrow> [])\<rparr>)"
| c_reader: "commit_step count row cap fills commit s
    (s\<lparr>cr_reader := reader_access count row (cr_reader s) (cr_tab s)\<rparr>)"

inductive_cases commit_stepE: "commit_step count row cap fills commit s s'"

definition commit_start :: "'s \<Rightarrow> ('e, 's, 'r) commit_run" where
  "commit_start t = \<lparr>cr_tab = t, cr_writer = WIdle, cr_reader = RIdle, cr_added = []\<rparr>"

text \<open>The next access of either thread, for executing runs.\<close>

definition writer_turn :: "('s \<Rightarrow> nat) \<Rightarrow> nat \<Rightarrow> ('e \<Rightarrow> nat \<Rightarrow> ('s \<Rightarrow> 's) list) \<Rightarrow> (nat \<Rightarrow> 's \<Rightarrow> 's) \<Rightarrow>
    ('e, 's, 'r) commit_run \<Rightarrow> ('e, 's, 'r) commit_run" where
  "writer_turn count cap fills commit s =
     (case writer_access count cap fills commit (cr_writer s) (cr_tab s) of (p, t) \<Rightarrow>
        s\<lparr>cr_writer := p, cr_tab := t,
          cr_added := cr_added s @ (case cr_writer s of WCommit e _ \<Rightarrow> [e] | _ \<Rightarrow> [])\<rparr>)"

definition reader_turn :: "('s \<Rightarrow> nat) \<Rightarrow> ('s \<Rightarrow> nat \<Rightarrow> 'r) \<Rightarrow> ('e, 's, 'r) commit_run \<Rightarrow> ('e, 's, 'r) commit_run" where
  "reader_turn count row s = s\<lparr>cr_reader := reader_access count row (cr_reader s) (cr_tab s)\<rparr>"

lemma commit_turns:
  "(commit_step count row cap fills commit)\<^sup>*\<^sup>* s
    (fold (\<lambda>b. if b then writer_turn count cap fills commit else reader_turn count row) bs s)"
proof (induction bs arbitrary: s)
  case (Cons b bs)
  have "commit_step count row cap fills commit s (writer_turn count cap fills commit s)"
    "commit_step count row cap fills commit s (reader_turn count row s)"
    by (auto simp: writer_turn_def reader_turn_def intro: c_writer c_reader split: prod.split)
  then show ?case
    using Cons.IH [of "writer_turn count cap fills commit s"] Cons.IH [of "reader_turn count row s"]
    by (cases b) (auto intro: converse_rtranclp_into_rtranclp)
qed simp

text \<open>The writer is about to write the row that the reader is about to read.\<close>

definition row_race :: "('e, 's, 'r) commit_run \<Rightarrow> bool" where
  "row_race s \<longleftrightarrow> (\<exists>e i f fs n rs. cr_writer s = WFill e i (f # fs) \<and> cr_reader s = RRows n rs \<and>
     length rs < n \<and> length rs = i)"

section \<open>The contract\<close>

locale commit_table =
  fixes count :: "'s \<Rightarrow> nat" and row :: "'s \<Rightarrow> nat \<Rightarrow> 'r" and cap :: nat
    and fills :: "'e \<Rightarrow> nat \<Rightarrow> ('s \<Rightarrow> 's) list" and commit :: "nat \<Rightarrow> 's \<Rightarrow> 's"
    and entry :: "'e \<Rightarrow> 'r" and wf :: "'s \<Rightarrow> bool"
  assumes fill_wf: "f \<in> set (fills e i) \<Longrightarrow> wf s \<Longrightarrow> wf (f s)"
    and fill_count: "f \<in> set (fills e i) \<Longrightarrow> count (f s) = count s"
    and fill_other: "f \<in> set (fills e i) \<Longrightarrow> j \<noteq> i \<Longrightarrow> row (f s) j = row s j"
    and filled: "wf s \<Longrightarrow> i < cap \<Longrightarrow> row (fold (\<lambda>f. f) (fills e i) s) i = entry e"
    and committed: "i < cap \<Longrightarrow> count (commit i s) = Suc i" "row (commit i s) j = row s j"
      "wf s \<Longrightarrow> wf (commit i s)"
begin

definition table :: "'s \<Rightarrow> 'r list" where
  "table s = map (row s) [0..<count s]"

definition writer_ok :: "('e, 's) writer_pc \<Rightarrow> 's \<Rightarrow> bool" where
  "writer_ok p s \<longleftrightarrow>
     (case p of
        WFill e i fs \<Rightarrow> i = count s \<and> i < cap \<and> set fs \<subseteq> set (fills e i) \<and>
          row (fold (\<lambda>f. f) fs s) i = entry e
      | WCommit e i \<Rightarrow> i = count s \<and> i < cap \<and> row s i = entry e
      | _ \<Rightarrow> True)"

definition reader_ok :: "'r reader_pc \<Rightarrow> 'r list \<Rightarrow> bool" where
  "reader_ok p T \<longleftrightarrow>
     (case p of RRows n rs \<Rightarrow> n \<le> length T \<and> length rs \<le> n \<and> rs = take (length rs) T | _ \<Rightarrow> True)"

lemma reader_ok_append: "reader_ok p T \<Longrightarrow> reader_ok p (T @ X)"
  by (cases p) (auto simp: reader_ok_def)

lemma reader_ok_read:
  assumes "reader_ok (RRows n rs) T" "length rs < n"
  shows "reader_ok (RRows n (rs @ [T ! length rs])) T" "length rs < length T"
proof -
  have rs: "length rs < length T" "rs = take (length rs) T" "n \<le> length T"
    using assms by (auto simp: reader_ok_def)
  have "rs @ [T ! length rs] = take (Suc (length rs)) T"
    using take_Suc_conv_app_nth [OF rs(1)] rs(2) by simp
  then show "reader_ok (RRows n (rs @ [T ! length rs])) T" "length rs < length T"
    using rs assms(2) by (simp_all add: reader_ok_def)
qed

definition commit_inv :: "'r list \<Rightarrow> ('e, 's, 'r) commit_run \<Rightarrow> bool" where
  "commit_inv rs0 s \<longleftrightarrow> wf (cr_tab s) \<and> writer_ok (cr_writer s) (cr_tab s) \<and>
     table (cr_tab s) = rs0 @ map entry (cr_added s) \<and> reader_ok (cr_reader s) (rs0 @ map entry (cr_added s))"

lemma length_table [simp]: "length (table s) = count s"
  by (simp add: table_def)

lemma table_same:
  assumes "count s' = count s" "\<And>j. j < count s \<Longrightarrow> row s' j = row s j"
  shows "table s' = table s"
  using assms by (simp add: table_def)

lemma table_commit:
  assumes "i = count s" "i < cap" "row s i = r"
  shows "table (commit i s) = table s @ [r]"
  using assms by (simp add: table_def committed)

lemma inv_writer:
  assumes "commit_inv rs0 s" "writer_access count cap fills commit (cr_writer s) (cr_tab s) = (p, t)"
  shows "commit_inv rs0 (s\<lparr>cr_writer := p, cr_tab := t,
      cr_added := cr_added s @ (case cr_writer s of WCommit e _ \<Rightarrow> [e] | _ \<Rightarrow> [])\<rparr>)"
proof (cases "cr_writer s")
  case (WFill e i fs)
  show ?thesis
  proof (cases fs)
    case (Cons f gs)
    have w: "wf (cr_tab s)" "i = count (cr_tab s)" "i < cap" "f \<in> set (fills e i)" "set gs \<subseteq> set (fills e i)"
      "row (fold (\<lambda>f. f) gs (f (cr_tab s))) i = entry e"
      using assms(1) WFill Cons by (auto simp: commit_inv_def writer_ok_def)
    have t: "t = f (cr_tab s)" "p = WFill e i gs" using assms(2) WFill Cons by auto
    have "table t = table (cr_tab s)"
      using w(2) fill_other [OF w(4)] by (intro table_same) (simp_all add: t fill_count [OF w(4)])
    then show ?thesis
      using assms(1) w WFill fill_wf [OF w(4) w(1)] fill_count [OF w(4)]
      by (simp add: commit_inv_def writer_ok_def t)
  qed (use assms WFill in \<open>auto simp: commit_inv_def writer_ok_def\<close>)
next
  case (WCommit e i)
  have w: "wf (cr_tab s)" "i = count (cr_tab s)" "i < cap" "row (cr_tab s) i = entry e"
    using assms(1) WCommit by (auto simp: commit_inv_def writer_ok_def)
  have t: "t = commit i (cr_tab s)" "p = WIdle" using assms(2) WCommit by auto
  show ?thesis
    using assms(1) WCommit committed(3) [OF w(1)] table_commit [OF w(2-4)]
      reader_ok_append [of "cr_reader s" "rs0 @ map entry (cr_added s)" "[entry e]"]
    by (simp add: commit_inv_def writer_ok_def t)
qed (use assms filled in \<open>auto simp: commit_inv_def writer_ok_def Let_def split: if_splits\<close>)

lemma inv_reader:
  assumes "commit_inv rs0 s"
  shows "commit_inv rs0 (s\<lparr>cr_reader := reader_access count row (cr_reader s) (cr_tab s)\<rparr>)"
proof -
  let ?T = "rs0 @ map entry (cr_added s)"
  have ok: "reader_ok (cr_reader s) ?T" and T: "table (cr_tab s) = ?T"
    using assms by (simp_all add: commit_inv_def)
  have len: "length ?T = count (cr_tab s)" unfolding T [symmetric] by simp
  have "reader_ok (reader_access count row (cr_reader s) (cr_tab s)) ?T"
  proof (cases "cr_reader s")
    case (RRows n rs)
    show ?thesis
    proof (cases "length rs < n")
      case True
      note read = reader_ok_read [OF ok [unfolded RRows] True]
      have "row (cr_tab s) (length rs) = ?T ! length rs"
        unfolding T [symmetric] using read(2) unfolding len by (simp add: table_def)
      then show ?thesis using RRows True read(1) by simp
    qed (use ok RRows in simp)
  qed (simp_all add: reader_ok_def len [symmetric])
  then show ?thesis using assms by (simp add: commit_inv_def)
qed

lemma inv_call:
  "commit_inv rs0 s \<Longrightarrow> cr_writer s = WIdle \<Longrightarrow> commit_inv rs0 (s\<lparr>cr_writer := WLoad e\<rparr>)"
  "commit_inv rs0 s \<Longrightarrow> commit_inv rs0 (s\<lparr>cr_reader := RCount\<rparr>)"
  by (simp_all add: commit_inv_def writer_ok_def) (simp add: reader_ok_def)

lemma inv_step: "commit_step count row cap fills commit s s' \<Longrightarrow> commit_inv rs0 s \<Longrightarrow> commit_inv rs0 s'"
  by (elim commit_stepE) (simp_all only: inv_call inv_writer inv_reader)

lemma inv_reachable:
  assumes "(commit_step count row cap fills commit)\<^sup>*\<^sup>* (commit_start t) s" "wf t"
  shows "commit_inv (table t) s"
  using assms(1)
proof induction
  case base
  show ?case using assms(2) by (simp add: commit_inv_def commit_start_def writer_ok_def reader_ok_def)
next
  case (step s s')
  then show ?case using inv_step by blast
qed

lemma rows_read:
  assumes "commit_inv rs0 s" "cr_reader s = RRows n rs" "length rs = n"
  shows "rs = take n (rs0 @ map entry (cr_added s))" "n \<le> length rs0 + length (cr_added s)"
  using assms unfolding commit_inv_def reader_ok_def by (auto simp del: length_table)

lemma no_row_race:
  assumes "commit_inv rs0 s"
  shows "\<not> row_race s"
proof
  assume "row_race s"
  then obtain e i f fs n rs where "cr_writer s = WFill e i (f # fs)" "cr_reader s = RRows n rs"
    "length rs < n" "length rs = i"
    by (auto simp: row_race_def)
  moreover have "count (cr_tab s) = length (rs0 @ map entry (cr_added s))"
    using assms length_table [of "cr_tab s"] by (simp add: commit_inv_def del: length_table)
  ultimately show False using assms by (simp add: commit_inv_def writer_ok_def reader_ok_def)
qed

end

section \<open>The subscriber table\<close>

text \<open>\<open>Subscribe\<close> from the load of the counter on.\<close>

definition on_sub :: "nat \<Rightarrow> ('h SubscriberEntry \<Rightarrow> 'h SubscriberEntry) \<Rightarrow> 'h SoaServiceManager \<Rightarrow> 'h SoaServiceManager" where
  "on_sub i f m = m\<lparr>sm_subscribers := (sm_subscribers m)[i := f (sm_subscribers m ! i)]\<rparr>"

definition subscribe_stores :: "'h SubscriberEntry \<Rightarrow> nat \<Rightarrow> ('h SoaServiceManager \<Rightarrow> 'h SoaServiceManager) list" where
  "subscribe_stores e i =
     [on_sub i (\<lambda>r. r\<lparr>sub_serviceId := sub_serviceId e\<rparr>), on_sub i (\<lambda>r. r\<lparr>sub_eventId := sub_eventId e\<rparr>),
      on_sub i (\<lambda>r. r\<lparr>sub_handler := sub_handler e\<rparr>)]"

definition subscribe_commit :: "nat \<Rightarrow> 'h SoaServiceManager \<Rightarrow> 'h SoaServiceManager" where
  "subscribe_commit i m = m\<lparr>sm_subscriberCount := word_of_nat i + 1\<rparr>"

definition sub_count :: "'h SoaServiceManager \<Rightarrow> nat" where
  "sub_count m = unat (sm_subscriberCount m)"

abbreviation sub_row :: "'h SoaServiceManager \<Rightarrow> nat \<Rightarrow> 'h SubscriberEntry" where
  "sub_row m i \<equiv> sm_subscribers m ! i"

lemma unat_of_nat_inc: "i < 64 \<Longrightarrow> unat (word_of_nat i + 1 :: u8) = Suc i"
  by (simp add: unat_word_ariths unat_of_nat)

interpretation sub_table: commit_table sub_count sub_row kMaxSubscribers subscribe_stores subscribe_commit
    "\<lambda>e :: 'h SubscriberEntry. e" "\<lambda>m. length (sm_subscribers m) = 16"
  by unfold_locales
    (auto simp: subscribe_stores_def on_sub_def sub_count_def subscribe_commit_def unat_of_nat_inc)

lemma sub_table_rows: "mgr_wf m \<Longrightarrow> sub_table.table m = subscriptions m"
  by (auto simp: sub_table.table_def sub_count_def subscriptions_def mgr_wf_def intro!: nth_equalityI)

text \<open>Alone, the accesses have the effect of \<open>Subscribe\<close>.\<close>

definition writer_next :: "('e, 'h SoaServiceManager) writer_pc \<times> 'h SoaServiceManager \<Rightarrow>
    ('e \<Rightarrow> nat \<Rightarrow> ('h SoaServiceManager \<Rightarrow> 'h SoaServiceManager) list) \<Rightarrow>
    (nat \<Rightarrow> 'h SoaServiceManager \<Rightarrow> 'h SoaServiceManager) \<Rightarrow> nat \<Rightarrow> ('h SoaServiceManager \<Rightarrow> nat) \<Rightarrow>
    ('e, 'h SoaServiceManager) writer_pc \<times> 'h SoaServiceManager" where
  "writer_next x fills commit cap count = (case x of (p, m) \<Rightarrow> writer_access count cap fills commit p m)"

lemma subscribe_alone:
  assumes "mgr_wf m" "sm_initialised m"
  shows "((\<lambda>x. writer_next x subscribe_stores subscribe_commit kMaxSubscribers sub_count) ^^ 6)
      (WLoad \<lparr>sub_serviceId = sid, sub_eventId = eid, sub_handler = Some h\<rparr>, m)
    = (WIdle, snd (Subscribe sid eid (Some h) m))"
proof -
  have six: "(f ^^ 6) x = f (f (f (f (f (f x)))))" for f :: "'b \<Rightarrow> 'b" and x
    by (simp add: numeral_eq_Suc)
  have "length (sm_subscribers m) = 16" using assms(1) by (simp add: mgr_wf_def)
  then show ?thesis
    using assms(2) unfolding six
    by (cases "sm_subscribers m ! unat (sm_subscriberCount m)")
      (simp add: writer_next_def Subscribe_def IsInitialised_def Let_def sub_count_def
        subscribe_stores_def on_sub_def subscribe_commit_def)
qed

section \<open>The service registry\<close>

definition on_service :: "nat \<Rightarrow> (ServiceDescriptor \<Rightarrow> ServiceDescriptor) \<Rightarrow> 'h SoaServiceManager \<Rightarrow> 'h SoaServiceManager" where
  "on_service i f m = m\<lparr>sm_registry := (sm_registry m)[i := f (sm_registry m ! i)]\<rparr>"

text \<open>The copy of the descriptor, member by member, and the reset of its state.\<close>

definition register_row_stores :: "ServiceDescriptor \<Rightarrow> nat \<Rightarrow> ('h SoaServiceManager \<Rightarrow> 'h SoaServiceManager) list" where
  "register_row_stores d i =
     [on_service i (\<lambda>r. r\<lparr>sd_serviceId := sd_serviceId d\<rparr>), on_service i (\<lambda>r. r\<lparr>sd_instanceId := sd_instanceId d\<rparr>),
      on_service i (\<lambda>r. r\<lparr>sd_majorVersion := sd_majorVersion d\<rparr>),
      on_service i (\<lambda>r. r\<lparr>sd_minorVersion := sd_minorVersion d\<rparr>),
      on_service i (\<lambda>r. r\<lparr>sd_state := sd_state d\<rparr>), on_service i (\<lambda>r. r\<lparr>sd_name := sd_name d\<rparr>),
      on_service i (\<lambda>r. r\<lparr>sd_state := kDown\<rparr>)]"

definition register_commit :: "nat \<Rightarrow> 'h SoaServiceManager \<Rightarrow> 'h SoaServiceManager" where
  "register_commit i m = m\<lparr>sm_registryCount := word_of_nat i + 1\<rparr>"

definition service_count :: "'h SoaServiceManager \<Rightarrow> nat" where
  "service_count m = unat (sm_registryCount m)"

abbreviation service_row :: "'h SoaServiceManager \<Rightarrow> nat \<Rightarrow> ServiceDescriptor" where
  "service_row m i \<equiv> sm_registry m ! i"

interpretation service_table: commit_table service_count service_row kMaxServices register_row_stores
    register_commit "\<lambda>d. d\<lparr>sd_state := kDown\<rparr>" "\<lambda>m :: 'h SoaServiceManager. length (sm_registry m) = 32"
  by unfold_locales
    (auto simp: register_row_stores_def on_service_def service_count_def register_commit_def unat_of_nat_inc)

lemma service_table_rows: "mgr_wf m \<Longrightarrow> service_table.table m = services m"
  by (auto simp: service_table.table_def service_count_def services_def mgr_wf_def intro!: nth_equalityI)

lemma register_row_alone:
  assumes "mgr_wf m" "sm_initialised m" "FindServiceIndex (sd_serviceId d) (sd_instanceId d) m = None"
  shows "((\<lambda>x. writer_next x register_row_stores register_commit kMaxServices service_count) ^^ 10) (WLoad d, m)
    = (WIdle, snd (RegisterService d m))"
proof -
  have ten: "(f ^^ 10) x = f (f (f (f (f (f (f (f (f (f x)))))))))" for f :: "'b \<Rightarrow> 'b" and x
    by (simp add: numeral_eq_Suc)
  have "length (sm_registry m) = 32" using assms(1) by (simp add: mgr_wf_def)
  then show ?thesis
    using assms(2,3) unfolding ten
    by (cases "sm_registry m ! unat (sm_registryCount m)"; cases d)
      (simp add: writer_next_def RegisterService_def IsInitialised_def Let_def service_count_def
        register_row_stores_def on_service_def register_commit_def)
qed

end
