(* ===== verification/EventThreads.thy ===== *)
theory EventThreads
  imports ServiceManager
begin

text \<open>
  The event queue of \<open>src/SoaServiceManager.cpp\<close> between two threads: the receive thread calls
  \<open>PublishEvent\<close>, the safety loop calls \<open>ProcessEvents\<close> (\<open>docs/architecture.md\<close>, section 5). Each load and
  store of \<open>queueHead_\<close> and \<open>queueTail_\<close>, the copy into the queue and each iteration over the
  subscribers, which reads the queued event by reference, is one access. Handlers do not call
  the manager back and no subscription is added meanwhile.
\<close>

section \<open>Accesses\<close>

datatype pub_pc =
    PubIdle | PubLoadHead SoaEvent | PubLoadTail SoaEvent u8 | PubTest SoaEvent u8 u8
  | PubWrite SoaEvent u8 | PubStore SoaEvent u8

fun pub_access :: "pub_pc \<Rightarrow> 'h SoaServiceManager \<Rightarrow> pub_pc \<times> 'h SoaServiceManager \<times> VoidResult option"
where
  "pub_access PubIdle m = (PubIdle, m, None)"
| "pub_access (PubLoadHead e) m = (PubLoadTail e (sm_queueHead m), m, None)"
| "pub_access (PubLoadTail e head) m = (PubTest e head (sm_queueTail m), m, None)"
| "pub_access (PubTest e head tail) m =
     (if u8_next 64 head = tail then (PubIdle, m, Some (Err kQueueFull)) else (PubWrite e head, m, None))"
| "pub_access (PubWrite e head) m =
     (PubStore e head, m\<lparr>sm_eventQueue := (sm_eventQueue m)[unat head := e]\<rparr>, None)"
| "pub_access (PubStore e head) m = (PubIdle, m\<lparr>sm_queueHead := u8_next 64 head\<rparr>, Some (Ok ()))"

text \<open>\<open>subCount\<close> is read once, when \<open>ProcessEvents\<close> begins.\<close>

datatype proc_pc =
    ProcIdle | ProcLoadTail nat | ProcLoadHead nat u8 | ProcDispatch nat u8 nat | ProcStore nat u8

fun proc_access :: "proc_pc \<Rightarrow> 'h SoaServiceManager \<Rightarrow> ('h \<times> SoaEvent) list \<Rightarrow>
    proc_pc \<times> 'h SoaServiceManager \<times> ('h \<times> SoaEvent) list" where
  "proc_access ProcIdle m w = (ProcIdle, m, w)"
| "proc_access (ProcLoadTail n) m w = (ProcLoadHead n (sm_queueTail m), m, w)"
| "proc_access (ProcLoadHead n tail) m w =
     (if tail = sm_queueHead m then (ProcIdle, m, w) else (ProcDispatch n tail 0, m, w))"
| "proc_access (ProcDispatch n tail i) m w =
     (if i < n
      then (ProcDispatch n tail (Suc i), dispatch_one (\<lambda>h ev (m, w). (m, w @ [(h, ev)])) tail i (m, w))
      else (ProcStore n tail, m, w))"
| "proc_access (ProcStore n tail) m w = (ProcLoadTail n, m\<lparr>sm_queueTail := u8_next 64 tail\<rparr>, w)"

section \<open>Runs\<close>

text \<open>
  \<open>et_accepted\<close> are the events whose call returned \<open>Ok\<close>, \<open>et_calls\<close> the handler calls made and
  \<open>et_done\<close> the events taken from the queue.
\<close>

record 'h event_threads =
  et_mgr :: "'h SoaServiceManager"
  et_pub :: pub_pc
  et_proc :: proc_pc
  et_accepted :: "SoaEvent list"
  et_calls :: "('h \<times> SoaEvent) list"
  et_done :: "SoaEvent list"

definition threads_start :: "'h SoaServiceManager \<Rightarrow> 'h event_threads" where
  "threads_start m =
     \<lparr>et_mgr = m, et_pub = PubIdle, et_proc = ProcIdle, et_accepted = [], et_calls = [], et_done = []\<rparr>"

inductive threads_step :: "'h event_threads \<Rightarrow> 'h event_threads \<Rightarrow> bool" where
  th_publish: "et_pub s = PubIdle \<Longrightarrow> sm_initialised (et_mgr s) \<Longrightarrow>
    threads_step s (s\<lparr>et_pub := PubLoadHead e\<rparr>)"
| th_process: "et_proc s = ProcIdle \<Longrightarrow> sm_initialised (et_mgr s) \<Longrightarrow>
    threads_step s (s\<lparr>et_proc := ProcLoadTail (unat (sm_subscriberCount (et_mgr s)))\<rparr>)"
| th_pub: "pub_access (et_pub s) (et_mgr s) = (p, m, r) \<Longrightarrow>
    threads_step s (s\<lparr>et_pub := p, et_mgr := m,
      et_accepted := et_accepted s @
        (case et_pub s of PubStore e _ \<Rightarrow> [e] | _ \<Rightarrow> [])\<rparr>)"
| th_proc: "proc_access (et_proc s) (et_mgr s) (et_calls s) = (p, m, w) \<Longrightarrow>
    threads_step s (s\<lparr>et_proc := p, et_mgr := m, et_calls := w,
      et_done := et_done s @
        (case et_proc s of ProcStore _ tail \<Rightarrow> [sm_eventQueue (et_mgr s) ! unat tail] | _ \<Rightarrow> [])\<rparr>)"

inductive_cases threads_stepE: "threads_step s s'"

text \<open>Both threads are about to touch the same queued event, and one of them to write it.\<close>

definition data_race :: "'h event_threads \<Rightarrow> bool" where
  "data_race s \<longleftrightarrow>
     (\<exists>e slot n i. et_pub s = PubWrite e slot \<and> et_proc s = ProcDispatch n slot i)"

text \<open>The next access of either thread, for executing runs.\<close>

definition pub_turn :: "'h event_threads \<Rightarrow> 'h event_threads" where
  "pub_turn s =
     (case pub_access (et_pub s) (et_mgr s) of (p, m, r) \<Rightarrow>
        s\<lparr>et_pub := p, et_mgr := m,
          et_accepted := et_accepted s @ (case et_pub s of PubStore e _ \<Rightarrow> [e] | _ \<Rightarrow> [])\<rparr>)"

definition proc_turn :: "'h event_threads \<Rightarrow> 'h event_threads" where
  "proc_turn s =
     (case proc_access (et_proc s) (et_mgr s) (et_calls s) of (p, m, w) \<Rightarrow>
        s\<lparr>et_proc := p, et_mgr := m, et_calls := w,
          et_done := et_done s @
            (case et_proc s of ProcStore _ tail \<Rightarrow> [sm_eventQueue (et_mgr s) ! unat tail] | _ \<Rightarrow> [])\<rparr>)"

lemma turn_steps: "threads_step s (pub_turn s)" "threads_step s (proc_turn s)"
  by (auto simp: pub_turn_def proc_turn_def intro: th_pub th_proc split: prod.split)

lemma turns_run: "threads_step\<^sup>*\<^sup>* s (fold (\<lambda>b. if b then pub_turn else proc_turn) bs s)"
  by (induction bs arbitrary: s) (auto intro: converse_rtranclp_into_rtranclp turn_steps)

section \<open>Without interference\<close>

definition pub_next :: "pub_pc \<times> 'h SoaServiceManager \<times> VoidResult option \<Rightarrow>
    pub_pc \<times> 'h SoaServiceManager \<times> VoidResult option" where
  "pub_next x = (case x of (p, m, _) \<Rightarrow> pub_access p m)"

lemma publish_alone:
  assumes "sm_initialised m"
  shows "(pub_next ^^ (if u8_next 64 (sm_queueHead m) = sm_queueTail m then 3 else 5)) (PubLoadHead e, m, None)
    = (PubIdle, snd (PublishEvent e m), Some (fst (PublishEvent e m)))"
  using assms by (simp add: pub_next_def PublishEvent_def IsInitialised_def Let_def numeral_eq_Suc)

section \<open>The invariant\<close>

text \<open>The handler calls an event causes among the given subscriptions.\<close>

definition hits :: "'h SubscriberEntry list \<Rightarrow> SoaEvent \<Rightarrow> ('h \<times> SoaEvent) list" where
  "hits subs ev = concat (map (\<lambda>sub.
     if sub_serviceId sub = ev_serviceId ev \<and> sub_eventId sub = ev_eventId ev
     then (case sub_handler sub of None \<Rightarrow> [] | Some h \<Rightarrow> [(h, ev)]) else []) subs)"

lemma hits_Nil [simp]: "hits [] ev = []"
  by (simp add: hits_def)

lemma hits_snoc:
  "hits (subs @ [sub]) ev = hits subs ev @
     (if sub_serviceId sub = ev_serviceId ev \<and> sub_eventId sub = ev_eventId ev
      then (case sub_handler sub of None \<Rightarrow> [] | Some h \<Rightarrow> [(h, ev)]) else [])"
  by (simp add: hits_def)

lemma dispatch_one_hits:
  assumes "i < length (subscriptions m)"
  shows "dispatch_one (\<lambda>h ev (m, w). (m, w @ [(h, ev)])) tail i (m, w @ hits (take i (subscriptions m)) (sm_eventQueue m ! unat tail))
    = (m, w @ hits (take (Suc i) (subscriptions m)) (sm_eventQueue m ! unat tail))"
proof -
  have "sm_subscribers m ! i = subscriptions m ! i"
    using assms by (simp add: subscriptions_def)
  then show ?thesis
    using assms by (auto simp: dispatch_one_def Let_def take_Suc_conv_app_nth hits_snoc split: option.split)
qed

fun pub_ok :: "'h SoaServiceManager \<Rightarrow> pub_pc \<Rightarrow> bool" where
  "pub_ok m (PubLoadTail _ h) \<longleftrightarrow> h = sm_queueHead m"
| "pub_ok m (PubTest _ h t) \<longleftrightarrow> h = sm_queueHead m \<and>
     (u8_next 64 h \<noteq> t \<longrightarrow> u8_next 64 h \<noteq> sm_queueTail m)"
| "pub_ok m (PubWrite _ h) \<longleftrightarrow> h = sm_queueHead m \<and> u8_next 64 h \<noteq> sm_queueTail m"
| "pub_ok m (PubStore e h) \<longleftrightarrow> h = sm_queueHead m \<and> u8_next 64 h \<noteq> sm_queueTail m \<and>
     sm_eventQueue m ! unat h = e"
| "pub_ok m _ \<longleftrightarrow> True"

fun proc_ok :: "'h SoaServiceManager \<Rightarrow> proc_pc \<Rightarrow> bool" where
  "proc_ok m ProcIdle \<longleftrightarrow> True"
| "proc_ok m (ProcLoadTail n) \<longleftrightarrow> n = length (subscriptions m)"
| "proc_ok m (ProcLoadHead n t) \<longleftrightarrow> n = length (subscriptions m) \<and> t = sm_queueTail m"
| "proc_ok m (ProcDispatch n t i) \<longleftrightarrow> n = length (subscriptions m) \<and> t = sm_queueTail m \<and>
     t \<noteq> sm_queueHead m \<and> i \<le> n"
| "proc_ok m (ProcStore n t) \<longleftrightarrow> n = length (subscriptions m) \<and> t = sm_queueTail m \<and> t \<noteq> sm_queueHead m"

text \<open>The calls already made for the event that is being dispatched.\<close>

fun in_dispatch :: "'h SoaServiceManager \<Rightarrow> proc_pc \<Rightarrow> ('h \<times> SoaEvent) list" where
  "in_dispatch m (ProcDispatch _ t i) = hits (take i (subscriptions m)) (sm_eventQueue m ! unat t)"
| "in_dispatch m (ProcStore _ t) = hits (subscriptions m) (sm_eventQueue m ! unat t)"
| "in_dispatch m _ = []"

definition threads_inv :: "'h SubscriberEntry list \<Rightarrow> 'h event_threads \<Rightarrow> bool" where
  "threads_inv subs s \<longleftrightarrow> mgr_wf (et_mgr s) \<and> subscriptions (et_mgr s) = subs \<and>
     pub_ok (et_mgr s) (et_pub s) \<and> proc_ok (et_mgr s) (et_proc s) \<and>
     et_accepted s = et_done s @ pending_events (et_mgr s) \<and>
     et_calls s = concat (map (hits subs) (et_done s)) @ in_dispatch (et_mgr s) (et_proc s)"

lemma length_subscriptions: "mgr_wf m \<Longrightarrow> length (subscriptions m) = unat (sm_subscriberCount m)"
  by (simp add: subscriptions_def mgr_wf_def)

lemma threads_inv_start:
  "mgr_wf m \<Longrightarrow> pending_events m = [] \<Longrightarrow> threads_inv (subscriptions m) (threads_start m)"
  by (simp add: threads_inv_def threads_start_def)

text \<open>The manager's indices as the ring sees them.\<close>

lemma mgr_ring_facts:
  assumes "mgr_wf m"
  shows "unat (sm_queueHead m) < 64" "unat (sm_queueTail m) < 64" "length (sm_eventQueue m) = 64"
    "unat (u8_next 64 (sm_queueHead m)) < 64" "unat (u8_next 64 (sm_queueTail m)) < 64"
  using assms mgr_ring.pos_next_less [of "sm_queueHead m"] mgr_ring.pos_next_less [of "sm_queueTail m"]
  by (simp_all add: mgr_wf_def)

text \<open>The write goes to the free slot, which is not the one being dispatched.\<close>

lemma write_frame:
  fixes m :: "'h SoaServiceManager" and e :: SoaEvent
  assumes "mgr_wf m"
  defines "m' \<equiv> m\<lparr>sm_eventQueue := (sm_eventQueue m)[unat (sm_queueHead m) := e]\<rparr>"
  shows "mgr_wf m'" "pending_events m' = pending_events m" "subscriptions m' = subscriptions m"
    "t \<noteq> sm_queueHead m \<Longrightarrow> sm_eventQueue m' ! unat t = sm_eventQueue m ! unat t"
    "sm_eventQueue m' ! unat (sm_queueHead m) = e"
  using assms mgr_ring_facts [OF assms(1)]
    mgr_ring.queue_write_head [of "sm_queueTail m" "sm_queueHead m" "sm_eventQueue m" e]
  by (simp_all add: pending_events_queue subscriptions_def mgr_wf_def word_unat_eq_iff)

lemma publish_frame:
  fixes m :: "'h SoaServiceManager"
  assumes "mgr_wf m" "u8_next 64 (sm_queueHead m) \<noteq> sm_queueTail m"
  defines "m' \<equiv> m\<lparr>sm_queueHead := u8_next 64 (sm_queueHead m)\<rparr>"
  shows "mgr_wf m'" "pending_events m' = pending_events m @ [sm_eventQueue m ! unat (sm_queueHead m)]"
    "subscriptions m' = subscriptions m"
  using assms mgr_ring_facts [OF assms(1)] mgr_ring.queue_enq [of "sm_queueTail m" "sm_queueHead m"
      "sm_eventQueue m" "sm_eventQueue m ! unat (sm_queueHead m)"]
  by (simp_all add: pending_events_queue subscriptions_def mgr_wf_def)

lemma take_frame:
  fixes m :: "'h SoaServiceManager"
  assumes "mgr_wf m" "sm_queueTail m \<noteq> sm_queueHead m"
  defines "m' \<equiv> m\<lparr>sm_queueTail := u8_next 64 (sm_queueTail m)\<rparr>"
  shows "mgr_wf m'" "pending_events m = sm_eventQueue m ! unat (sm_queueTail m) # pending_events m'"
    "subscriptions m' = subscriptions m"
    "u8_next 64 (sm_queueHead m) \<noteq> u8_next 64 (sm_queueTail m)"
  using assms mgr_ring_facts [OF assms(1)]
    mgr_ring.queue_deq [of "sm_queueTail m" "sm_queueHead m" "sm_eventQueue m"]
    mgr_ring.next_idx_inj [of "sm_queueHead m" "sm_queueTail m"]
  by (simp_all add: pending_events_queue subscriptions_def mgr_wf_def)

section \<open>Every access keeps it\<close>

lemma inv_call_publish: "threads_inv subs s \<Longrightarrow> threads_inv subs (s\<lparr>et_pub := PubLoadHead e\<rparr>)"
  by (simp add: threads_inv_def)

lemma inv_call_process:
  "threads_inv subs s \<Longrightarrow> et_proc s = ProcIdle \<Longrightarrow>
     threads_inv subs (s\<lparr>et_proc := ProcLoadTail (unat (sm_subscriberCount (et_mgr s)))\<rparr>)"
  by (auto simp: threads_inv_def length_subscriptions)

text \<open>The dispatching thread does not see what the publishing thread does to the free slot.\<close>

lemma proc_same:
  assumes "proc_ok m p" "sm_queueTail m' = sm_queueTail m" "subscriptions m' = subscriptions m"
    and "sm_queueTail m \<noteq> sm_queueHead m \<Longrightarrow> sm_queueTail m' \<noteq> sm_queueHead m' \<and>
      sm_eventQueue m' ! unat (sm_queueTail m) = sm_eventQueue m ! unat (sm_queueTail m)"
  shows "proc_ok m' p" "in_dispatch m' p = in_dispatch m p"
  using assms by (cases p; auto)+

lemma inv_pub:
  assumes inv: "threads_inv subs s" and st: "pub_access (et_pub s) (et_mgr s) = (p, m, r)"
  shows "threads_inv subs (s\<lparr>et_pub := p, et_mgr := m, et_accepted := et_accepted s @
    (case et_pub s of PubStore e _ \<Rightarrow> [e] | _ \<Rightarrow> [])\<rparr>)"
proof (cases "et_pub s")
  case (PubWrite e h)
  have wf: "mgr_wf (et_mgr s)" and h: "h = sm_queueHead (et_mgr s)"
    using inv PubWrite by (auto simp: threads_inv_def)
  note w = write_frame [OF wf, where e = e]
  have m: "m = (et_mgr s)\<lparr>sm_eventQueue := (sm_eventQueue (et_mgr s))[unat (sm_queueHead (et_mgr s)) := e]\<rparr>"
    "p = PubStore e h"
    using st PubWrite h by simp_all
  have "proc_ok (et_mgr s) (et_proc s)" using inv by (simp add: threads_inv_def)
  note same = proc_same [OF this, of m]
  have "proc_ok m (et_proc s) \<and> in_dispatch m (et_proc s) = in_dispatch (et_mgr s) (et_proc s)"
    using same w(3,4) unfolding m(1) by simp
  then show ?thesis
    using inv PubWrite w(1,2,3,5) h m by (simp add: threads_inv_def)
next
  case (PubStore e h)
  have wf: "mgr_wf (et_mgr s)" and h: "h = sm_queueHead (et_mgr s)"
    and nf: "u8_next 64 (sm_queueHead (et_mgr s)) \<noteq> sm_queueTail (et_mgr s)"
    using inv PubStore by (auto simp: threads_inv_def)
  note w = publish_frame [OF wf nf]
  have m: "m = (et_mgr s)\<lparr>sm_queueHead := u8_next 64 (sm_queueHead (et_mgr s))\<rparr>" "p = PubIdle"
    using st PubStore h by simp_all
  have "proc_ok (et_mgr s) (et_proc s)" using inv by (simp add: threads_inv_def)
  note same = proc_same [OF this, of m]
  have "proc_ok m (et_proc s) \<and> in_dispatch m (et_proc s) = in_dispatch (et_mgr s) (et_proc s)"
    using same w(3) nf [symmetric] unfolding m(1) by simp
  then show ?thesis
    using inv PubStore w h m by (simp add: threads_inv_def)
qed (use inv st in \<open>auto simp: threads_inv_def split: if_splits\<close>)

lemma inv_proc:
  assumes inv: "threads_inv subs s" and st: "proc_access (et_proc s) (et_mgr s) (et_calls s) = (p, m, w)"
  shows "threads_inv subs (s\<lparr>et_proc := p, et_mgr := m, et_calls := w, et_done := et_done s @
    (case et_proc s of ProcStore _ tail \<Rightarrow> [sm_eventQueue (et_mgr s) ! unat tail] | _ \<Rightarrow> [])\<rparr>)"
proof (cases "et_proc s")
  case (ProcDispatch n t i)
  show ?thesis
  proof (cases "i < n")
    case True
    then have i: "i < length (subscriptions (et_mgr s))"
      using inv ProcDispatch by (simp add: threads_inv_def)
    show ?thesis
      using inv st ProcDispatch True dispatch_one_hits [OF i, of t "concat (map (hits subs) (et_done s))"]
      by (simp add: threads_inv_def) (use i in \<open>auto simp: threads_inv_def\<close>)
  next
    case False
    then show ?thesis
      using inv st ProcDispatch by (auto simp: threads_inv_def)
  qed
next
  case (ProcStore n t)
  have wf: "mgr_wf (et_mgr s)" and t: "t = sm_queueTail (et_mgr s)"
    and ne: "sm_queueTail (et_mgr s) \<noteq> sm_queueHead (et_mgr s)"
    using inv ProcStore by (auto simp: threads_inv_def)
  note k = take_frame [OF wf ne]
  have "pub_ok m (et_pub s)"
    using inv st ProcStore t k by (cases "et_pub s") (auto simp: threads_inv_def)
  then show ?thesis
    using inv st ProcStore k t by (auto simp: threads_inv_def)
qed (use inv st in \<open>auto simp: threads_inv_def split: if_splits\<close>)

lemma threads_inv_step: "threads_step s s' \<Longrightarrow> threads_inv subs s \<Longrightarrow> threads_inv subs s'"
  by (elim threads_stepE)
    (simp_all only: inv_call_publish inv_call_process inv_pub inv_proc)

lemma threads_inv_reachable:
  assumes "threads_step\<^sup>*\<^sup>* (threads_start m) s" "mgr_wf m" "pending_events m = []"
  shows "threads_inv (subscriptions m) s"
  using assms(1)
  by induction (use assms(2,3) in \<open>auto intro: threads_inv_start threads_inv_step\<close>)

lemma no_data_race: "threads_inv subs s \<Longrightarrow> \<not> data_race s"
  by (auto simp: threads_inv_def data_race_def)

end
