(* ===== verification/LogRace.thy ===== *)
theory LogRace
  imports SafetyAudit
begin

text \<open>
  The transition log of \<open>src/SafetyArbitrator.cpp\<close> under concurrency, access by access: one
  transition of the main loop, from the increment of \<open>transitionCount_\<close> in \<open>ExecuteTransition\<close> to the
  store to \<open>logHead_\<close> in \<open>LogTransition\<close>, beside one \<open>DrainTransitionLog\<close> of the diagnostic task
  (\<open>docs/architecture.md\<close>, section 5). Records are written and copied field by field.
\<close>

section \<open>Accesses\<close>

text \<open>Copies the \<open>k\<close>-th field of a record.\<close>

definition copy_field :: "nat \<Rightarrow> SafeStateTransition \<Rightarrow> SafeStateTransition \<Rightarrow> SafeStateTransition" where
  "copy_field k src dst =
     (if k = 0 then dst\<lparr>tr_fromState := tr_fromState src\<rparr>
      else if k = 1 then dst\<lparr>tr_toState := tr_toState src\<rparr>
      else if k = 2 then dst\<lparr>tr_triggerDomain := tr_triggerDomain src\<rparr>
      else if k = 3 then dst\<lparr>tr_timestampMs := tr_timestampMs src\<rparr>
      else if k = 4 then dst\<lparr>tr_transitionMs := tr_transitionMs src\<rparr>
      else dst\<lparr>tr_sequenceNum := tr_sequenceNum src\<rparr>)"

text \<open>
  \<open>Lg\<close>: the transition, with the record it logs, whose sequence number is read from the counter.
  \<open>Dr\<close>: the drain; the counter is loaded twice, once for the comparison and once for the value.
  \<open>DrCopy\<close> has the number of fields copied so far.
\<close>

datatype log_pc =
    LgDone | LgCount SafeStateTransition | LgHead SafeStateTransition
  | LgField nat u8 SafeStateTransition | LgPublish u8
  | DrHead u8 "SafeStateTransition list" | DrTest u8 u8 "SafeStateTransition list"
  | DrCount u8 u8 "SafeStateTransition list" | DrCopy nat u8 u8 "SafeStateTransition list"
  | DrDone u8 "SafeStateTransition list"

fun count_access :: "log_pc \<Rightarrow> 'l SafetyArbitrator \<Rightarrow> log_pc \<times> 'l SafetyArbitrator" where
  "count_access (LgCount r) a = (LgHead r, a\<lparr>arb_transitionCount := arb_transitionCount a + 1\<rparr>)"
| "count_access p a = (p, a)"

fun log_access :: "log_pc \<Rightarrow> 'l SafetyArbitrator \<Rightarrow> log_pc \<times> 'l SafetyArbitrator" where
  "log_access (LgHead r) a = (LgField 0 (arb_logHead a) r, a)"
| "log_access (LgField k head r) a =
     (if k < 5 then LgField (Suc k) head r else LgPublish (u8_next 32 head),
      a\<lparr>arb_transitionLog := (arb_transitionLog a)[unat head :=
          copy_field k (r\<lparr>tr_sequenceNum := arb_transitionCount a\<rparr>) (arb_transitionLog a ! unat head)]\<rparr>)"
| "log_access (LgPublish nextHead) a = (LgDone, a\<lparr>arb_logHead := nextHead\<rparr>)"
| "log_access p a = (p, a)"

fun drain_access :: "log_pc \<Rightarrow> 'l SafetyArbitrator \<Rightarrow> log_pc \<times> 'l SafetyArbitrator" where
  "drain_access (DrHead sz buf) a = (DrTest (arb_logHead a) sz buf, a)"
| "drain_access (DrTest head sz buf) a =
     (if arb_transitionCount a > 32 then DrCopy 0 head (if 32 < sz then 32 else sz) buf
      else DrCount head sz buf, a)"
| "drain_access (DrCount head sz buf) a =
     (let count = ucast (arb_transitionCount a) in DrCopy 0 head (if count < sz then count else sz) buf, a)"
| "drain_access (DrCopy j head toCopy buf) a =
     (if j < 6 * unat toCopy
      then DrCopy (Suc j) head toCopy (buf[j div 6 :=
             copy_field (j mod 6) (arb_transitionLog a ! drain_index head (j div 6)) (buf ! (j div 6))])
      else DrDone toCopy buf, a)"
| "drain_access p a = (p, a)"

fun trail_access :: "log_pc \<Rightarrow> 'l SafetyArbitrator \<Rightarrow> log_pc \<times> 'l SafetyArbitrator" where
  "trail_access (DrHead sz buf) a = drain_access (DrHead sz buf) a"
| "trail_access (DrTest head sz buf) a = drain_access (DrTest head sz buf) a"
| "trail_access (DrCount head sz buf) a = drain_access (DrCount head sz buf) a"
| "trail_access (DrCopy j head toCopy buf) a = drain_access (DrCopy j head toCopy buf) a"
| "trail_access (LgCount r) a = count_access (LgCount r) a"
| "trail_access p a = log_access p a"

abbreviation trail_run :: "nat list \<Rightarrow> log_pc list \<times> 'l SafetyArbitrator \<Rightarrow> log_pc list \<times> 'l SafetyArbitrator"
where "trail_run \<equiv> run_schedule trail_access"

section \<open>Fields\<close>

definition same_field :: "nat \<Rightarrow> SafeStateTransition \<Rightarrow> SafeStateTransition \<Rightarrow> bool" where
  "same_field k x y \<longleftrightarrow> copy_field k x y = y"

lemma same_fields: "(\<forall>k<6. same_field k x y) \<Longrightarrow> x = y"
  by (cases x; cases y) (simp add: same_field_def copy_field_def numeral_eq_Suc All_less_Suc)

lemma same_field_copy: "k < 6 \<Longrightarrow> l < 6 \<Longrightarrow> same_field l (copy_field k x y) z \<longleftrightarrow>
    (if l = k then same_field l x z else same_field l y z)"
  by (cases x; cases y; cases z) (auto simp: same_field_def copy_field_def)

lemma same_field_refl: "same_field k x x"
  by (cases x) (simp add: same_field_def copy_field_def)

section \<open>Without interference\<close>

text \<open>The accesses of one call in sequence have the effect of the operation modelled as one step.\<close>

lemma transition_alone:
  assumes "arb_wf a"
  shows "trail_run (replicate 9 0) (LgCount r # ps, a) = (LgDone # ps,
    LogTransition (tr_fromState r) (tr_toState r) (tr_triggerDomain r) (tr_transitionMs r) (tr_timestampMs r)
      (a\<lparr>arb_transitionCount := arb_transitionCount a + 1\<rparr>))"
proof -
  have "unat (arb_logHead a) < length (arb_transitionLog a)" using assms by (simp add: arb_wf_def)
  then show ?thesis
    by (cases "arb_transitionLog a ! unat (arb_logHead a)")
      (simp add: numeral_eq_Suc LogTransition_def Let_def copy_field_def)
qed

lemma fields_copied:
  assumes "i < unat t" "i < length out"
  shows "k \<le> 6 \<Longrightarrow> trail_run (replicate k 0) ([DrCopy (6 * i) g t out], a) =
    ([DrCopy (6 * i + k) g t (out[i := fold (\<lambda>l. copy_field l (arb_transitionLog a ! drain_index g i)) [0..<k] (out ! i)])], a)"
proof (induction k)
  case (Suc k)
  then have "6 * i + k < 6 * unat t" "(6 * i + k) div 6 = i" "(6 * i + k) mod 6 = k"
    using assms(1) by auto
  then show ?case
    using Suc assms(2) by (simp add: run_schedule_replicate_Suc del: replicate.simps)
qed simp

lemma copied_record: "fold (\<lambda>l. copy_field l x) [0..<6] y = x"
  by (cases x; cases y) (simp add: copy_field_def numeral_eq_Suc)

lemma records_copied:
  assumes "unat t \<le> length out"
  shows "n \<le> unat t \<Longrightarrow> trail_run (replicate (6 * n) 0) ([DrCopy 0 g t out], a) =
    ([DrCopy (6 * n) g t (fold (\<lambda>i b. b[i := arb_transitionLog a ! drain_index g i]) [0..<n] out)], a)"
proof (induction n)
  case (Suc n)
  let ?copy = "\<lambda>i b. b[i := arb_transitionLog a ! drain_index g i]"
  have "length (fold ?copy xs out) = length out" for xs
    by (induction xs rule: rev_induct) simp_all
  then have "n < length (fold ?copy [0..<n] out)" using Suc.prems assms by simp
  note fields_copied [OF _ this, of t 6 g a]
  moreover have "replicate (6 * Suc n) (0 :: nat) = replicate (6 * n) 0 @ replicate 6 0"
    by (simp add: replicate_add [symmetric])
  ultimately show ?case
    using Suc by (simp only: run_schedule_append copied_record) (simp add: add.commute)
qed simp

lemma drain_alone:
  assumes "sz \<noteq> 0" "unat sz \<le> length buf" "DrainTransitionLog (Some buf) sz a = (k, Some out)"
  shows "\<exists>n. trail_run (replicate n 0) ([DrHead sz buf], a) = ([DrDone k out], a)"
proof -
  have start: "\<exists>m. trail_run (replicate m 0) ([DrHead sz buf], a) = ([DrCopy 0 (arb_logHead a) k buf], a)"
    using assms(1,3) by (intro exI [of _ "if arb_transitionCount a > 32 then 2 else 3"])
      (auto simp: numeral_eq_Suc DrainTransitionLog_def Let_def)
  then obtain m where m: "trail_run (replicate m 0) ([DrHead sz buf], a) = ([DrCopy 0 (arb_logHead a) k buf], a)" ..
  have k: "unat k \<le> length buf" "out = fold (\<lambda>i b. b[i := arb_transitionLog a ! drain_index (arb_logHead a) i]) [0..<unat k] buf"
    using assms by (auto simp: DrainTransitionLog_def Let_def word_less_nat_alt split: if_splits)
  have "trail_run (replicate m 0 @ replicate (6 * unat k) 0 @ [0]) ([DrHead sz buf], a) = ([DrDone k out], a)"
    using records_copied [OF k(1), of "unat k" "arb_logHead a" a] k(2) by (simp add: run_schedule_append m)
  then show ?thesis
    by (intro exI [of _ "m + 6 * unat k + 1"]) (simp only: replicate_add replicate.simps append_assoc One_nat_def)
qed

section \<open>One transition beside one drain\<close>

text \<open>
  \<open>log\<close>, \<open>h\<close> and \<open>c\<close> are the log, its head and the counter before the transition, \<open>r\<close> is its record. Only
  the slot \<open>h\<close> changes, and it is complete before the head moves.
\<close>

definition logged :: "u32 \<Rightarrow> SafeStateTransition \<Rightarrow> SafeStateTransition" where
  "logged c r = r\<lparr>tr_sequenceNum := c + 1\<rparr>"

fun writer_inv :: "SafeStateTransition list \<Rightarrow> u8 \<Rightarrow> u32 \<Rightarrow> SafeStateTransition \<Rightarrow> log_pc \<Rightarrow>
    'l SafetyArbitrator \<Rightarrow> bool" where
  "writer_inv log h c r (LgCount r') a \<longleftrightarrow> r' = r \<and> arb_logHead a = h \<and> arb_transitionCount a = c"
| "writer_inv log h c r (LgHead r') a \<longleftrightarrow> r' = r \<and> arb_logHead a = h \<and> arb_transitionCount a = c + 1"
| "writer_inv log h c r (LgField k h' r') a \<longleftrightarrow> k < 6 \<and> h' = h \<and> r' = r \<and> arb_logHead a = h \<and>
     arb_transitionCount a = c + 1 \<and> (\<forall>l<k. same_field l (arb_transitionLog a ! unat h) (logged c r))"
| "writer_inv log h c r (LgPublish h') a \<longleftrightarrow> h' = u8_next 32 h \<and> arb_logHead a = h \<and>
     arb_transitionCount a = c + 1 \<and> arb_transitionLog a ! unat h = logged c r"
| "writer_inv log h c r LgDone a \<longleftrightarrow> arb_logHead a = u8_next 32 h \<and>
     arb_transitionCount a = c + 1 \<and> arb_transitionLog a ! unat h = logged c r"
| "writer_inv log h c r _ a \<longleftrightarrow> False"

definition others_kept :: "SafeStateTransition list \<Rightarrow> u8 \<Rightarrow> 'l SafetyArbitrator \<Rightarrow> bool" where
  "others_kept log h a \<longleftrightarrow> length (arb_transitionLog a) = 32 \<and>
     (\<forall>j<32. j \<noteq> unat h \<longrightarrow> arb_transitionLog a ! j = log ! j)"

text \<open>The head a drain has loaded is the old one, or the new one once the record is complete.\<close>

definition head_ok :: "u8 \<Rightarrow> log_pc \<Rightarrow> u8 \<Rightarrow> bool" where
  "head_ok h w g \<longleftrightarrow> g = h \<or> g = u8_next 32 h \<and> w = LgDone"

definition slot_stable :: "u8 \<Rightarrow> u8 \<Rightarrow> nat \<Rightarrow> bool" where
  "slot_stable h g i \<longleftrightarrow> g \<noteq> h \<or> drain_index g i \<noteq> unat h"

fun drain_inv :: "SafeStateTransition list \<Rightarrow> u8 \<Rightarrow> u32 \<Rightarrow> SafeStateTransition \<Rightarrow> u8 \<Rightarrow>
    SafeStateTransition list \<Rightarrow> log_pc \<Rightarrow> log_pc \<Rightarrow> bool" where
  "drain_inv log h c r sz buf w (DrHead sz' buf') \<longleftrightarrow> sz' = sz \<and> buf' = buf"
| "drain_inv log h c r sz buf w (DrTest g sz' buf') \<longleftrightarrow> head_ok h w g \<and> sz' = sz \<and> buf' = buf"
| "drain_inv log h c r sz buf w (DrCount g sz' buf') \<longleftrightarrow> head_ok h w g \<and> sz' = sz \<and> buf' = buf \<and> c \<le> 32"
| "drain_inv log h c r sz buf w (DrCopy j g t out) \<longleftrightarrow> head_ok h w g \<and>
     t \<le> sz \<and> unat t \<le> min (unat c + 1) 33 \<and> length out = length buf \<and>
     (\<forall>i<length buf. unat t \<le> i \<longrightarrow> out ! i = buf ! i) \<and>
     (\<forall>i<unat t. \<forall>k<6. slot_stable h g i \<and> 6 * i + k < j \<longrightarrow>
        same_field k (out ! i) (log[unat h := logged c r] ! drain_index g i))"
| "drain_inv log h c r sz buf w (DrDone t out) \<longleftrightarrow>
     (\<exists>g. head_ok h w g \<and> t \<le> sz \<and> unat t \<le> min (unat c + 1) 33 \<and> length out = length buf \<and>
       (\<forall>i<length buf. unat t \<le> i \<longrightarrow> out ! i = buf ! i) \<and>
       (\<forall>i<unat t. slot_stable h g i \<longrightarrow> out ! i = log[unat h := logged c r] ! drain_index g i))"
| "drain_inv log h c r sz buf w _ \<longleftrightarrow> False"

definition trail_inv where
  "trail_inv log h c r sz buf n ps a \<longleftrightarrow> (\<exists>w d. ps = [w, d] \<and> writer_inv log h c r w a \<and>
     others_kept log h a \<and> drain_inv log h c r sz buf w d)"

lemma writer_step:
  assumes "writer_inv log h c r w a" "others_kept log h a" "trail_access w a = (w', a')" "unat h < 32"
  shows "writer_inv log h c r w' a'" "others_kept log h a'" "w = LgDone \<Longrightarrow> w' = LgDone"
proof -
  have len: "length (arb_transitionLog a) = 32" using assms(2) by (simp add: others_kept_def)
  show "others_kept log h a'"
    using assms by (cases w) (auto simp: others_kept_def nth_list_update split: if_splits)
  show "w = LgDone \<Longrightarrow> w' = LgDone" using assms(3) by simp
  show "writer_inv log h c r w' a'"
  proof (cases w)
    case (LgField k h' r')
    then have inv: "k < 6" "h' = h" "r' = r" "arb_logHead a = h" "arb_transitionCount a = c + 1"
      "\<forall>l<k. same_field l (arb_transitionLog a ! unat h) (logged c r)"
      using assms(1) by simp_all
    let ?e = "copy_field k (logged c r) (arb_transitionLog a ! unat h)"
    have e: "\<forall>l<Suc k. same_field l ?e (logged c r)"
      using inv(1,6) by (auto simp: same_field_copy same_field_refl less_Suc_eq)
    have "?e = logged c r" if "\<not> k < 5"
      using e that inv(1) by (intro same_fields) (auto simp: less_Suc_eq_le)
    then show ?thesis
      using LgField assms(3,4) inv e len by (cases "k < 5") (auto simp: logged_def)
  qed (use assms in auto)
qed

lemma drain_inv_writer: "drain_inv log h c r sz buf w d \<Longrightarrow> (w = LgDone \<Longrightarrow> w' = LgDone) \<Longrightarrow>
    drain_inv log h c r sz buf w' d"
  by (cases d) (auto simp: head_ok_def)

lemma drain_index_less: "drain_index g i < 32"
  by (simp add: drain_index_def unat_mod)

lemma drain_index_other:
  assumes "unat h < 32" "i < 31"
  shows "drain_index h i \<noteq> unat h"
proof (cases "i < unat h")
  case True
  then have "unat h + 31 - i = (unat h - 1 - i) + 32" by linarith
  then have "drain_index h i = (unat h - 1 - i) mod 32"
    using unat_drain_index [of h i] assms by (simp only: mod_add_self2)
  then show ?thesis using True assms(1) by simp
next
  case False
  then show ?thesis using unat_drain_index [of h i] assms by simp
qed

lemma writer_counts:
  assumes "writer_inv log h c r w a" "Suc (unat c) < 2 ^ 32"
  shows "unat (arb_transitionCount a) \<in> {unat c, Suc (unat c)}" "head_ok h w (arb_logHead a)"
proof -
  have "unat (c + 1) = Suc (unat c)" using assms(2) by (simp add: unat_word_ariths)
  then show "unat (arb_transitionCount a) \<in> {unat c, Suc (unat c)}"
    using assms(1) by (cases w) auto
  show "head_ok h w (arb_logHead a)" using assms(1) by (cases w) (auto simp: head_ok_def)
qed

text \<open>What the drain reads in a stable slot is what the log holds in the end.\<close>

lemma stable_read:
  assumes "writer_inv log h c r w a" "others_kept log h a" "head_ok h w g" "slot_stable h g i"
    and "length log = 32" "unat h < 32"
  shows "arb_transitionLog a ! drain_index g i = log[unat h := logged c r] ! drain_index g i"
  using assms drain_index_less [of g i]
  by (cases "drain_index g i = unat h") (auto simp: slot_stable_def head_ok_def others_kept_def)

lemma drain_step:
  assumes "writer_inv log h c r w a" "others_kept log h a" "drain_inv log h c r sz buf w d"
    and "trail_access d a = (d', a')"
    and "Suc (unat c) < 2 ^ 32" "length log = 32" "unat h < 32" "unat sz \<le> length buf"
  shows "a' = a" "drain_inv log h c r sz buf w d'"
proof -
  note cnt = writer_counts [OF assms(1,5)]
  show "a' = a" using assms(3,4) by (cases d) auto
  show "drain_inv log h c r sz buf w d'"
  proof (cases d)
    case (DrTest g sz' buf')
    then show ?thesis
      using assms(3,4) cnt(1) by (auto simp: word_less_nat_alt word_le_nat_alt)
  next
    case (DrCount g sz' buf')
    then have d: "head_ok h w g" "sz' = sz" "buf' = buf" "unat c \<le> 32"
      using assms(3) by (simp_all add: word_le_nat_alt)
    then have "unat (ucast (arb_transitionCount a) :: u8) = unat (arb_transitionCount a)"
      using cnt(1) by (auto simp: unat_ucast_u32_u8)
    then show ?thesis
      using DrCount assms(4) d cnt(1) by (auto simp: Let_def word_less_nat_alt word_le_nat_alt)
  next
    case (DrCopy j g t out)
    then have d: "head_ok h w g" "unat t \<le> unat sz" "length out = length buf"
      "t \<le> sz" "unat t \<le> min (unat c + 1) 33" "\<forall>i<length buf. unat t \<le> i \<longrightarrow> out ! i = buf ! i"
      and fields: "\<forall>i<unat t. \<forall>k<6. slot_stable h g i \<and> 6 * i + k < j \<longrightarrow>
        same_field k (out ! i) (log[unat h := logged c r] ! drain_index g i)"
      using assms(3) by (simp_all add: word_le_nat_alt)
    show ?thesis
    proof (cases "j < 6 * unat t")
      case True
      let ?i = "j div 6"
      have i: "?i < unat t" "?i < length out" using True d(2,3) assms(8) by auto
      let ?out = "out[?i := copy_field (j mod 6) (arb_transitionLog a ! drain_index g ?i) (out ! ?i)]"
      have "same_field k (?out ! l) (log[unat h := logged c r] ! drain_index g l)"
        if prems: "l < unat t" "k < 6" "slot_stable h g l" "6 * l + k < Suc j" for l k
      proof -
       have next_field: "6 * l + k < j \<or> k = j mod 6" "6 * l + k < j \<or> l = j div 6"
         using prems(2,4) by (auto simp: less_Suc_eq)
       show ?thesis
      proof (cases "l = ?i")
        case True
        have "6 * l + k < j" if "k \<noteq> j mod 6"
          using that next_field(1) by linarith
        then show ?thesis
          using True prems i fields stable_read [OF assms(1,2) d(1) prems(3) assms(6,7)]
          by (auto simp: same_field_copy same_field_refl)
      next
        case False
        then have "6 * l + k < j" using next_field(2) by linarith
        then show ?thesis using prems False fields by simp
      qed
      qed
      moreover have "\<forall>l<length buf. unat t \<le> l \<longrightarrow> ?out ! l = buf ! l" "length ?out = length buf"
        using d(3,6) i(1) by auto
      ultimately have "drain_inv log h c r sz buf w (DrCopy (Suc j) g t ?out)"
        unfolding drain_inv.simps using d(1,4,5) by blast
      moreover have "d' = DrCopy (Suc j) g t ?out" using DrCopy assms(4) True by auto
      ultimately show ?thesis by (simp only:)
    next
      case False
      then have "out ! i = log[unat h := logged c r] ! drain_index g i" if "i < unat t" "slot_stable h g i" for i
        using that fields by (intro same_fields) auto
      then have "drain_inv log h c r sz buf w (DrDone t out)"
        unfolding drain_inv.simps using d by blast
      moreover have "d' = DrDone t out" using DrCopy assms(4) False by auto
      ultimately show ?thesis by (simp only:)
    qed
  qed (use assms(3,4) cnt in auto)
qed

lemma trail_step:
  assumes "trail_inv log h c r sz buf (Suc n) ps a" "i < length ps" "trail_access (ps ! i) a = (p, a')"
    and "Suc (unat c) < 2 ^ 32" "length log = 32" "unat h < 32" "unat sz \<le> length buf"
  shows "trail_inv log h c r sz buf n (ps[i := p]) a'"
proof -
  obtain w d where ps: "ps = [w, d]" and inv: "writer_inv log h c r w a" "others_kept log h a"
    "drain_inv log h c r sz buf w d"
    using assms(1) by (auto simp: trail_inv_def)
  show ?thesis
  proof (cases i)
    case 0
    then have "trail_access w a = (p, a')" using ps assms(3) by simp
    note w = writer_step [OF inv(1,2) this assms(6)]
    have "drain_inv log h c r sz buf p d" using drain_inv_writer [OF inv(3)] w(3) by blast
    then show ?thesis using w(1,2) 0 ps by (simp add: trail_inv_def)
  next
    case (Suc m)
    then have m: "i = 1" using assms(2) ps by simp
    then have "trail_access d a = (p, a')" using ps assms(3) by simp
    note d = drain_step [OF inv this assms(4-7)]
    then show ?thesis using m ps inv by (simp add: trail_inv_def)
  qed
qed

lemma trail_result:
  fixes a :: "'l SafetyArbitrator"
  assumes "trail_run is ([LgCount r, DrHead sz buf], a) = ([w, DrDone k out], a')"
    and "Suc (unat (arb_transitionCount a)) < 2 ^ 32" "length (arb_transitionLog a) = 32"
    and "unat (arb_logHead a) < 32" "unat sz \<le> length buf"
  shows "drain_inv (arb_transitionLog a) (arb_logHead a) (arb_transitionCount a) r sz buf w (DrDone k out)"
proof -
  let ?I = "trail_inv (arb_transitionLog a) (arb_logHead a) (arb_transitionCount a) r sz buf ::
    nat \<Rightarrow> log_pc list \<Rightarrow> 'l SafetyArbitrator \<Rightarrow> bool"
  have "case_prod (?I 0) (trail_run is ([LgCount r, DrHead sz buf], a))"
  proof (rule run_schedule_invariant [where I = ?I])
    show "?I (length is) [LgCount r, DrHead sz buf] a"
      using assms(3) by (simp add: trail_inv_def others_kept_def)
  qed (erule (2) trail_step [OF _ _ _ assms(2-5)] | simp add: trail_inv_def)+
  then show ?thesis using assms(1) by (simp add: trail_inv_def)
qed

text \<open>
  The drain returns the newest records first, of the transitions before this one or with it, but
  for a last record in excess of them or in the slot that is being written.
\<close>

lemma trail_drain:
  assumes "trail_run is ([LgCount r, DrHead sz buf], a) = ([w, DrDone k out], a')"
    and "Suc (length hist) < 2 ^ 32" "arb_wf a" "log_holds (arb_transitionLog a) hist"
    and "unat (arb_logHead a) = length hist mod 32" "arb_transitionCount a = word_of_nat (length hist)"
    and "unat sz \<le> length buf"
  shows "\<exists>H \<in> {hist, hist @ [logged (arb_transitionCount a) r]}.
    unat k \<le> min (unat sz) (min (Suc (length hist)) 33) \<and> drop (unat k) out = drop (unat k) buf \<and>
    (\<forall>i < min (unat k) (min (length H) 31). out ! i = rev H ! i)"
proof -
  let ?log = "arb_transitionLog a" and ?h = "arb_logHead a" and ?c = "arb_transitionCount a"
  have c: "unat ?c = length hist" using assms(2,6) by (simp add: unat_of_nat)
  have wf: "length ?log = 32" "unat ?h < 32" using assms(3) by (simp_all add: arb_wf_def)
  obtain g where g: "head_ok ?h w g" "k \<le> sz" "unat k \<le> min (unat ?c + 1) 33" "length out = length buf"
    "\<forall>i<length buf. unat k \<le> i \<longrightarrow> out ! i = buf ! i"
    "\<forall>i<unat k. slot_stable ?h g i \<longrightarrow> out ! i = ?log[unat ?h := logged ?c r] ! drain_index g i"
    using trail_result [OF assms(1) _ wf assms(7)] c assms(2) by auto
  have k: "unat k \<le> min (unat sz) (min (Suc (length hist)) 33)" "drop (unat k) out = drop (unat k) buf"
    using g(2-5) c by (auto simp: word_le_nat_alt intro!: nth_equalityI)
  show ?thesis
  proof (cases "g = ?h")
    case True
    have "out ! i = rev hist ! i" if "i < min (unat k) (min (length hist) 31)" for i
      using that g(6) log_read [OF assms(4,5), of i] drain_index_other [OF wf(2), of i] True
      by (simp add: slot_stable_def)
    then show ?thesis using k by blast
  next
    case False
    let ?H = "hist @ [logged ?c r]"
    have H: "log_holds (?log[unat ?h := logged ?c r]) ?H"
      using log_holds_snoc [OF assms(4) wf(1)] assms(5) by simp
    have "g = u8_next 32 ?h" using g(1) False by (simp add: head_ok_def)
    then have "unat g = length ?H mod 32" using assms(5) wf(2) by (simp add: unat_u8_next mod_Suc_eq)
    from log_read [OF H this] g(6) False have "out ! i = rev ?H ! i" if "i < min (unat k) (min (length ?H) 31)" for i
      using that by (auto simp: slot_stable_def)
    then show ?thesis using k by blast
  qed
qed

text \<open>
  The record in excess need not be a transition at all: when the drain loads the head before the
  first transition and the counter after it, it returns a record that nothing has written, which
  reads as a transition to \<open>kEmergencyStop\<close>.
\<close>

definition first_transition_drained :: "nat list" where
  "first_transition_drained = [1] @ replicate 9 0 @ replicate 9 1"

lemma drain_invents_stop:
  assumes "arb_wf a" "arb_logHead a = 0" "arb_transitionCount a = 0" "1 \<le> sz" "buf \<noteq> []"
    and "arb_transitionLog a ! 31 = SafeStateTransition_default"
  shows "fst (trail_run first_transition_drained ([LgCount r, DrHead sz buf], a)) =
    [LgDone, DrDone 1 (buf[0 := SafeStateTransition_default])]"
proof -
  define a1 where "a1 = LogTransition (tr_fromState r) (tr_toState r) (tr_triggerDomain r) (tr_transitionMs r)
    (tr_timestampMs r) (a\<lparr>arb_transitionCount := arb_transitionCount a + 1\<rparr>)"
  have "drain_index 0 0 = 31" by (simp add: drain_index_def)
  then have a1: "arb_transitionCount a1 = 1" "arb_transitionLog a1 ! drain_index 0 0 = SafeStateTransition_default"
    using assms(1-3,6) by (simp_all add: a1_def LogTransition_def Let_def arb_wf_def)
  have sz: "(if 1 < sz then 1 else sz) = 1" using assms(4) by (auto simp: not_less)
  have nine: "replicate 9 (1 :: nat) = [1, 1, 1, 1, 1, 1, 1, 1, 1]" by (simp add: numeral_eq_Suc)
  have "trail_run first_transition_drained ([LgCount r, DrHead sz buf], a) =
      trail_run (replicate 9 1) (trail_run (replicate 9 0) ([LgCount r, DrTest 0 sz buf], a))"
    using assms(2) by (simp add: first_transition_drained_def run_schedule_append [symmetric])
  also have "\<dots> = trail_run (replicate 9 1) ([LgDone, DrTest 0 sz buf], a1)"
    unfolding transition_alone [OF assms(1)] a1_def ..
  also have "fst \<dots> = [LgDone, DrDone 1 (buf[0 := SafeStateTransition_default])]"
    unfolding nine using assms(5) a1 sz
    by (cases "buf ! 0") (simp add: copy_field_def SafeStateTransition_default_def)
  finally show ?thesis .
qed

end
