(* ===== verification/CommandRace.thy ===== *)
theory CommandRace
  imports SafetyFacts Interleave
begin

text \<open>
  \<open>lastCommand_\<close> of \<open>src/SafetyArbitrator.cpp\<close> is a plain structure, written by \<open>ExecuteTransition\<close> and
  copied by \<open>GetLastCommand\<close>, which other threads may call. The copy of a structure is a sequence of
  member accesses; their order is the compiler's, so it is a parameter here.
\<close>

section \<open>Accesses\<close>

text \<open>Copies the \<open>k\<close>-th of the nine members.\<close>

definition copy_member :: "nat \<Rightarrow> SafeStateCommand \<Rightarrow> SafeStateCommand \<Rightarrow> SafeStateCommand" where
  "copy_member k src dst =
     (if k = 0 then dst\<lparr>cmd_magic := cmd_magic src\<rparr>
      else if k = 1 then dst\<lparr>cmd_state := cmd_state src\<rparr>
      else if k = 2 then dst\<lparr>cmd_activeDomains := cmd_activeDomains src\<rparr>
      else if k = 3 then dst\<lparr>cmd_faultBitmask := cmd_faultBitmask src\<rparr>
      else if k = 4 then dst\<lparr>cmd_reserved := cmd_reserved src\<rparr>
      else if k = 5 then dst\<lparr>cmd_maxSpeedKph := cmd_maxSpeedKph src\<rparr>
      else if k = 6 then dst\<lparr>cmd_maxDecelMps2 := cmd_maxDecelMps2 src\<rparr>
      else if k = 7 then dst\<lparr>cmd_transitionMs := cmd_transitionMs src\<rparr>
      else dst\<lparr>cmd_sequenceNum := cmd_sequenceNum src\<rparr>)"

text \<open>\<open>CwPut\<close>: the writer with its command and the members still to store; \<open>CrGet\<close>: the reader.\<close>

datatype command_pc = CwPut "nat list" SafeStateCommand | CrGet "nat list" SafeStateCommand

fun command_access :: "command_pc \<Rightarrow> SafeStateCommand \<Rightarrow> command_pc \<times> SafeStateCommand" where
  "command_access (CwPut (k # ks) c) cur = (CwPut ks c, copy_member k c cur)"
| "command_access (CrGet (k # ks) out) cur = (CrGet ks (copy_member k cur out), cur)"
| "command_access p cur = (p, cur)"

abbreviation command_run :: "nat list \<Rightarrow> command_pc list \<times> SafeStateCommand \<Rightarrow> command_pc list \<times> SafeStateCommand"
where "command_run \<equiv> run_schedule command_access"

definition same_member :: "nat \<Rightarrow> SafeStateCommand \<Rightarrow> SafeStateCommand \<Rightarrow> bool" where
  "same_member k x y \<longleftrightarrow>
     (k = 0 \<longrightarrow> cmd_magic x = cmd_magic y) \<and> (k = 1 \<longrightarrow> cmd_state x = cmd_state y) \<and>
     (k = 2 \<longrightarrow> cmd_activeDomains x = cmd_activeDomains y) \<and>
     (k = 3 \<longrightarrow> cmd_faultBitmask x = cmd_faultBitmask y) \<and> (k = 4 \<longrightarrow> cmd_reserved x = cmd_reserved y) \<and>
     (k = 5 \<longrightarrow> cmd_maxSpeedKph x = cmd_maxSpeedKph y) \<and>
     (k = 6 \<longrightarrow> cmd_maxDecelMps2 x = cmd_maxDecelMps2 y) \<and>
     (k = 7 \<longrightarrow> cmd_transitionMs x = cmd_transitionMs y) \<and>
     (k = 8 \<longrightarrow> cmd_sequenceNum x = cmd_sequenceNum y)"

lemma same_members:
  assumes "\<And>k. k < 9 \<Longrightarrow> same_member k x y"
  shows "x = y"
  using assms [of 0] assms [of 1] assms [of 2] assms [of 3] assms [of 4] assms [of 5] assms [of 6]
    assms [of 7] assms [of 8]
  by (cases x; cases y) (simp add: same_member_def)

lemma same_member_copy: "k < 9 \<Longrightarrow> l < 9 \<Longrightarrow> same_member l (copy_member k x y) z \<longleftrightarrow>
    (if l = k then same_member l x z else same_member l y z)"
  by (simp add: same_member_def copy_member_def)

lemma same_member_refl: "same_member k x x"
  by (simp add: same_member_def)

section \<open>What a reader can get\<close>

text \<open>
  Member by member: before it is stored it is that of the old command, afterwards that of the new
  one; so a complete copy has each member from one of the two.
\<close>

definition torn_inv :: "SafeStateCommand \<Rightarrow> SafeStateCommand \<Rightarrow> command_pc list \<Rightarrow> SafeStateCommand \<Rightarrow> bool" where
  "torn_inv old new ps cur \<longleftrightarrow>
     (\<exists>ws rs out. ps = [CwPut ws new, CrGet rs out] \<and> set ws \<subseteq> {..<9} \<and> set rs \<subseteq> {..<9} \<and>
        (\<forall>k<9. same_member k cur new \<or> same_member k cur old) \<and>
        (\<forall>k<9. k \<notin> set rs \<longrightarrow> same_member k out new \<or> same_member k out old))"

lemma torn_access:
  assumes "torn_inv old new ps cur" "i < length ps" "command_access (ps ! i) cur = (p, cur')"
  shows "torn_inv old new (ps[i := p]) cur'"
proof -
  obtain ws rs out where ps: "ps = [CwPut ws new, CrGet rs out]" "set ws \<subseteq> {..<9}" "set rs \<subseteq> {..<9}"
    "\<forall>k<9. same_member k cur new \<or> same_member k cur old"
    "\<forall>k<9. k \<notin> set rs \<longrightarrow> same_member k out new \<or> same_member k out old"
    using assms(1) by (auto simp: torn_inv_def)
  consider "i = 0" | "i = 1" using assms(2) ps(1) by fastforce
  then show ?thesis
  proof cases
    case 1
    then show ?thesis
      using assms(3) ps by (cases ws) (auto simp: torn_inv_def same_member_copy same_member_refl)
  next
    case 2
    then show ?thesis
      using assms(3) ps by (cases rs) (auto simp: torn_inv_def same_member_copy)
  qed
qed

lemma copy_is_mixture:
  assumes "set ws \<subseteq> {..<9}" "set rs = {..<9}"
    and "command_run xs ([CwPut ws new, CrGet rs out0], old) = ([p, CrGet [] out], cur)" "k < 9"
  shows "same_member k out new \<or> same_member k out old"
proof -
  have "case_prod (torn_inv old new) (command_run xs ([CwPut ws new, CrGet rs out0], old))"
    by (rule run_schedule_invariant [where I = "\<lambda>_. torn_inv old new"])
      (use assms(1,2) in \<open>auto simp: torn_inv_def [of _ _ "[_, _]"] same_member_refl intro: torn_access\<close>)
  then show ?thesis using assms(3,4) by (auto simp: torn_inv_def)
qed

text \<open>
  A reader that comes between two stores of the writer gets the members stored so far from the new
  command and the others from the old one.
\<close>

lemma writer_runs:
  "command_run (replicate j 0) ([CwPut ws new, q], cur) =
     ([CwPut (drop j ws) new, q], fold (\<lambda>k. copy_member k new) (take j ws) cur)"
proof (induction j arbitrary: ws cur)
  case (Suc j)
  then show ?case by (cases ws) simp_all
qed simp

lemma reader_runs:
  "command_run (replicate j 1) ([p, CrGet rs out], cur) =
     ([p, CrGet (drop j rs) (fold (\<lambda>k. copy_member k cur) (take j rs) out)], cur)"
proof (induction j arbitrary: rs out)
  case (Suc j)
  then show ?case by (cases rs) simp_all
qed simp

lemma copy_all: "set ks = {..<9} \<Longrightarrow> fold (\<lambda>k. copy_member k x) ks y = x"
proof (rule same_members)
  fix k :: nat
  assume ks: "set ks = {..<9}" and "k < 9"
  have "set ls \<subseteq> {..<9} \<Longrightarrow> same_member k y x \<or> k \<in> set ls \<Longrightarrow>
      same_member k (fold (\<lambda>k. copy_member k x) ls y) x" for ls
  proof (induction ls arbitrary: y)
    case (Cons l ls)
    have "l < 9" using Cons.prems by simp
    then have "same_member k (copy_member l x y) x \<or> k \<in> set ls"
      using Cons.prems(2) \<open>k < 9\<close> by (auto simp: same_member_copy same_member_refl)
    then show ?case using Cons.IH Cons.prems(1) by simp
  qed simp
  then show "same_member k (fold (\<lambda>k. copy_member k x) ks y) x" using ks \<open>k < 9\<close> by blast
qed

lemma reader_between:
  assumes "set rs = {..<9}" "length rs = 9" "length ws = 9" "j \<le> 9"
  shows "command_run (replicate j 0 @ replicate 9 1 @ replicate (9 - j) 0) ([CwPut ws new, CrGet rs out0], old) =
    ([CwPut [] new, CrGet [] (fold (\<lambda>k. copy_member k new) (take j ws) old)],
     fold (\<lambda>k. copy_member k new) ws old)"
proof -
  have "fold (\<lambda>k. copy_member k new) (drop j ws) (fold (\<lambda>k. copy_member k new) (take j ws) old) =
      fold (\<lambda>k. copy_member k new) ws old"
    by (metis append_take_drop_id comp_apply fold_append)
  moreover have "take 9 rs = rs" "drop 9 rs = []" "drop (9 - j) (drop j ws) = []" "take (9 - j) (drop j ws) = drop j ws"
    using assms(2-4) by simp_all
  ultimately show ?thesis
    unfolding run_schedule_append writer_runs reader_runs by (simp only: copy_all [OF assms(1)])
qed

lemma stored_members:
  "cmd_state (fold (\<lambda>k. copy_member k x) ks y) = (if 1 \<in> set ks then cmd_state x else cmd_state y)"
  "cmd_maxSpeedKph (fold (\<lambda>k. copy_member k x) ks y) = (if 5 \<in> set ks then cmd_maxSpeedKph x else cmd_maxSpeedKph y)"
  by (induction ks arbitrary: y) (auto simp: copy_member_def)

text \<open>
  So in whatever orders the members are copied, some interleaving returns a state with the speed cap
  of another state.
\<close>

lemma command_can_be_torn:
  assumes "set ws = {..<9}" "distinct ws" "set rs = {..<9}" "length rs = 9"
  shows "\<exists>xs out cur. command_run xs ([CwPut ws new, CrGet rs out0], old) = ([CwPut [] new, CrGet [] out], cur) \<and>
    (cmd_state out, cmd_maxSpeedKph out) \<in>
      {(cmd_state new, cmd_maxSpeedKph old), (cmd_state old, cmd_maxSpeedKph new)}"
proof -
  have len: "length ws = 9" using assms(1,2) distinct_card [of ws] by simp
  have "1 \<in> set ws" "5 \<in> set ws" by (simp_all add: assms(1))
  then obtain i l where i: "i < 9" "ws ! i = 1" and l: "l < 9" "ws ! l = 5"
    unfolding in_set_conv_nth len by blast
  define j where "j = Suc (min i l)"
  have j: "j \<le> 9" using i l by (simp add: j_def)
  have mem: "ws ! n \<in> set (take j ws) \<longleftrightarrow> n < j" if "n < 9" for n
  proof
    assume "ws ! n \<in> set (take j ws)"
    then obtain m where "m < j" "m < 9" "ws ! m = ws ! n" by (auto simp: in_set_conv_nth len)
    then show "n < j" using that len nth_eq_iff_index_eq [OF assms(2), of m n] by simp
  next
    assume "n < j"
    then show "ws ! n \<in> set (take j ws)" using that len by (auto simp: in_set_conv_nth intro!: exI [of _ n])
  qed
  have ne: "i \<noteq> l" using i l by auto
  have "(1 \<in> set (take j ws)) = (i < l)" "(5 \<in> set (take j ws)) = (l < i)"
    using mem [OF i(1)] mem [OF l(1)] i(2) l(2) ne by (auto simp: j_def)
  then have "(cmd_state (fold (\<lambda>k. copy_member k new) (take j ws) old),
      cmd_maxSpeedKph (fold (\<lambda>k. copy_member k new) (take j ws) old)) \<in>
      {(cmd_state new, cmd_maxSpeedKph old), (cmd_state old, cmd_maxSpeedKph new)}"
    using ne by (auto simp: stored_members)
  then show ?thesis using reader_between [OF assms(3,4) len j] by blast
qed

end
