(* ===== verification/Periodic.thy ===== *)
theory Periodic
  imports Prelude
begin

text \<open>
  Components that are scanned periodically: runs with a clock, in which other operations happen
  at any time and the scan reads the clock. The loop is on time while the clock is at most a
  period past the last scan; this is an assumption of the runs, not something the code
  enforces. The locale \<open>periodic_scan\<close> bounds the time after which a condition is found,
  \<open>exact_scan\<close> adds that it is not found too early.
\<close>

section \<open>Runs with a clock\<close>

record 's timed =
  td_state :: 's
  td_now :: u64
  td_scan :: u64

inductive timed_step :: "nat \<Rightarrow> ('s \<Rightarrow> 's \<Rightarrow> bool) \<Rightarrow> (u64 \<Rightarrow> 's \<Rightarrow> 's \<Rightarrow> bool) \<Rightarrow>
    's timed \<Rightarrow> 's timed \<Rightarrow> bool" for period others scan where
  d_clock: "td_now s \<le> t \<Longrightarrow> unat t \<le> unat (td_scan s) + period \<Longrightarrow>
    timed_step period others scan s (s\<lparr>td_now := t\<rparr>)"
| d_others: "others (td_state s) a \<Longrightarrow> timed_step period others scan s (s\<lparr>td_state := a\<rparr>)"
| d_scan: "scan (td_now s) (td_state s) a \<Longrightarrow>
    timed_step period others scan s (s\<lparr>td_state := a, td_scan := td_now s\<rparr>)"

text \<open>The loop can be on time: a run of \<open>n\<close> periods exists if a scan is always possible.\<close>

lemma timed_tick:
  assumes "\<And>t a. \<exists>b. scan t a b" "td_scan s = td_now s" "unat (td_now s) + period < 2 ^ 64"
  shows "\<exists>s'. (timed_step period others scan)\<^sup>*\<^sup>* s s' \<and>
    td_now s' = td_now s + word_of_nat period \<and> td_scan s' = td_now s'"
proof -
  let ?t = "td_now s + word_of_nat period" and ?step = "timed_step period others scan"
  let ?s = "s\<lparr>td_now := ?t\<rparr>"
  have t: "unat ?t = unat (td_now s) + period"
    using assms(3) by (simp add: unat_word_ariths unat_of_nat)
  have "?step s ?s"
    using t assms(2) by (intro d_clock) (simp_all add: word_le_nat_alt)
  moreover obtain b where "scan ?t (td_state ?s) b" using assms(1) by blast
  then have "?step ?s (?s\<lparr>td_state := b, td_scan := ?t\<rparr>)" using d_scan [of scan ?s] by simp
  ultimately show ?thesis
    by (intro exI [of _ "?s\<lparr>td_state := b, td_scan := ?t\<rparr>"])
      (auto intro: converse_rtranclp_into_rtranclp)
qed

lemma timed_ticks:
  assumes "\<And>t a. \<exists>b. scan t a b"
  shows "td_scan s = td_now s \<Longrightarrow> unat (td_now s) + period * n < 2 ^ 64 \<Longrightarrow>
     \<exists>s'. (timed_step period others scan)\<^sup>*\<^sup>* s s' \<and>
       td_now s' = td_now s + word_of_nat (period * n) \<and> td_scan s' = td_now s'"
proof (induction n arbitrary: s)
  case (Suc n)
  obtain s1 where s1: "(timed_step period others scan)\<^sup>*\<^sup>* s s1"
    "td_now s1 = td_now s + word_of_nat period" "td_scan s1 = td_now s1"
    using timed_tick [of scan s period others, OF assms Suc.prems(1)] Suc.prems(2) by fastforce
  then have "unat (td_now s1) + period * n < 2 ^ 64"
    using Suc.prems(2) by (simp add: unat_word_ariths unat_of_nat)
  from Suc.IH [OF s1(3) this] s1 show ?case
    by (auto simp: algebra_simps intro: rtranclp_trans)
qed auto

section \<open>Finding a condition in time\<close>

text \<open>
  \<open>limit\<close> is the last instant at which the condition need not be found. Other operations keep the
  invariant and what has been found; a scan later than \<open>limit\<close> finds it.
\<close>

locale periodic_scan =
  fixes others :: "'s \<Rightarrow> 's \<Rightarrow> bool" and scan :: "u64 \<Rightarrow> 's \<Rightarrow> 's \<Rightarrow> bool"
    and inv :: "'s \<Rightarrow> bool" and found :: "'s \<Rightarrow> bool" and limit :: nat
  assumes others_inv: "others a b \<Longrightarrow> inv a \<Longrightarrow> inv b"
    and others_found: "others a b \<Longrightarrow> inv a \<Longrightarrow> found a \<Longrightarrow> found b"
    and scan_inv: "scan t a b \<Longrightarrow> inv a \<Longrightarrow> inv b"
    and scan_found: "scan t a b \<Longrightarrow> inv a \<Longrightarrow> limit < unat t \<Longrightarrow> found b"
begin

definition on_time :: "nat \<Rightarrow> 's timed \<Rightarrow> bool" where
  "on_time period s \<longleftrightarrow> inv (td_state s) \<and> unat (td_now s) \<le> unat (td_scan s) + period \<and>
     (limit < unat (td_scan s) \<longrightarrow> found (td_state s))"

lemma on_time_step: "timed_step period others scan s s' \<Longrightarrow> on_time period s \<Longrightarrow> on_time period s'"
  by (induction rule: timed_step.induct)
    (auto simp: on_time_def intro: others_inv others_found scan_inv scan_found)

lemma on_time_run: "(timed_step period others scan)\<^sup>*\<^sup>* s s' \<Longrightarrow> on_time period s \<Longrightarrow> on_time period s'"
  by (induction rule: rtranclp_induct) (auto intro: on_time_step)

lemma found_in_time:
  assumes "(timed_step period others scan)\<^sup>*\<^sup>* s s'" "inv (td_state s)"
    and "unat (td_now s) \<le> unat (td_scan s) + period" "unat (td_scan s) \<le> limit"
    and "limit + period < unat (td_now s')"
  shows "found (td_state s')" "inv (td_state s')"
proof -
  have "on_time period s" using assms(2-4) by (simp add: on_time_def)
  from on_time_run [OF assms(1) this] assms(5)
  show "found (td_state s')" "inv (td_state s')" by (simp_all add: on_time_def)
qed

end

text \<open>No other operation and no earlier scan finds it.\<close>

locale exact_scan = periodic_scan +
  assumes others_unfound: "others a b \<Longrightarrow> inv a \<Longrightarrow> found b \<Longrightarrow> found a"
    and scan_unfound: "scan t a b \<Longrightarrow> inv a \<Longrightarrow> unat t \<le> limit \<Longrightarrow> found b \<Longrightarrow> found a"
begin

definition not_early :: "'a timed \<Rightarrow> bool" where
  "not_early s \<longleftrightarrow> inv (td_state s) \<and> td_scan s \<le> td_now s \<and>
     (unat (td_scan s) \<le> limit \<longrightarrow> \<not> found (td_state s))"

lemma not_early_step: "timed_step period others scan s s' \<Longrightarrow> not_early s \<Longrightarrow> not_early s'"
  by (induction rule: timed_step.induct)
    (auto simp: not_early_def word_le_nat_alt dest: others_inv scan_inv others_unfound scan_unfound)

lemma not_found_early:
  assumes "(timed_step period others scan)\<^sup>*\<^sup>* s s'" "not_early s" "unat (td_scan s') \<le> limit"
  shows "\<not> found (td_state s')" "inv (td_state s')"
proof -
  have "not_early s'"
    using assms(1,2) by (induction rule: rtranclp_induct) (auto intro: not_early_step)
  then show "\<not> found (td_state s')" "inv (td_state s')"
    using assms(3) by (simp_all add: not_early_def)
qed

end

end
