(* ===== verification/SafetyTiming.thy ===== *)
theory SafetyTiming
  imports SafetyRows Periodic
begin

text \<open>
  The arbitrator on its period (\<open>docs/architecture.md\<close>, sections 3.5 and 5: \<open>Arbitrate\<close> every 10 ms):
  timed runs in which one domain is silent while anything else may arrive, and their
  interpretation of \<open>periodic_scan\<close>.
\<close>

definition kLoopPeriodMs :: nat where [simp]: "kLoopPeriodMs = 10"

text \<open>Every operation but those that concern domain \<open>k\<close>, and other traffic on the link.\<close>

inductive others_step :: "nat \<Rightarrow> 'l SafetyArbitrator \<Rightarrow> 'l SafetyArbitrator \<Rightarrow> bool" for k where
  o_fault: "unat (fe_domain e) \<noteq> k \<Longrightarrow> others_step k a (snd (IngestFault e now a))"
| o_inject: "unat d \<noteq> k \<Longrightarrow> others_step k a (snd (InjectFault d h dtc stamp now a))"
| o_event: "unat (ev_payload ev ! 0) \<noteq> k \<Longrightarrow> others_step k a (snd (IngestSoaEvent ev now a))"
| o_beat: "unat d \<noteq> k \<Longrightarrow> others_step k a (snd (RecordHeartbeat d now a))"
| o_listener: "others_step k a (snd (RegisterListener l a))"
| o_link: "ipc_wf ipc \<Longrightarrow> others_step k a (a\<lparr>arb_ipc := ipc\<rparr>)"

definition others_run :: "nat \<Rightarrow> 'l safety_run \<Rightarrow> 'l safety_run \<Rightarrow> bool" where
  "others_run k s s' \<longleftrightarrow> (\<exists>a. others_step k (sr_arb s) a \<and> s' = s\<lparr>sr_arb := a\<rparr>)"

definition cycle_run :: "u64 \<Rightarrow> 'l safety_run \<Rightarrow> 'l safety_run \<Rightarrow> bool" where
  "cycle_run t s s' \<longleftrightarrow> (\<exists>ct. ct_scan ct = t \<and> s' = s\<lparr>sr_arb := cycle ct (sr_arb s),
     sr_hist := sr_hist s @ hist_step ct (sr_arb s)\<rparr>)"

section \<open>What the others leave alone\<close>

definition row_frame :: "nat \<Rightarrow> 'l SafetyArbitrator \<Rightarrow> 'l SafetyArbitrator \<Rightarrow> bool" where
  "row_frame k a b \<longleftrightarrow> arb_domains b ! k = arb_domains a ! k \<and> arb_faultBitmask b = arb_faultBitmask a"

lemma row_frame_update: "i \<noteq> k \<Longrightarrow> row_frame k a (update_domain i f a)"
  by (simp add: row_frame_def update_domain_def)

lemma row_frame_refl: "row_frame k a a"
  by (simp add: row_frame_def)

lemma row_frame_ingest:
  "unat (fe_domain e) \<noteq> k \<Longrightarrow> row_frame k a (snd (IngestFault e now a))"
  "unat d \<noteq> k \<Longrightarrow> row_frame k a (snd (RecordHeartbeat d now a))"
  by (simp_all add: IngestFault_def RecordHeartbeat_def Let_def row_frame_update row_frame_refl)

lemma others_frame:
  assumes "others_step k a b" "arb_wf a"
  shows "same_core a b" "arb_wf b" "row_frame k a b"
  using assms
  by (induction rule: others_step.induct)
    (simp_all add: same_core_ingest ingest_wf row_frame_ingest InjectFault_def IngestSoaEvent_def decode_fault_def,
      auto simp: row_frame_def RegisterListener_def same_core_def arb_wf_def)

section \<open>A silent domain is found in time\<close>

definition sensor_lost_seen :: "nat \<Rightarrow> 'l SafetyArbitrator \<Rightarrow> bool" where
  "sensor_lost_seen k a \<longleftrightarrow> bit (arb_faultBitmask a) k \<and> failed a k \<and>
     (k \<le> 4 \<longrightarrow> arb_currentState a \<noteq> kFullOperation)"

lemma degraded_if_lost:
  fixes k :: nat
  assumes "k \<le> 4" "if k = 0 then L else if k = 1 then R else if k = 2 then C else if k = 3 then G else I"
  shows "degradation_matrix M L R C G I \<noteq> kFullOperation"
proof -
  have "k \<in> {0, 1, 2, 3, 4}" using assms(1) by auto
  then show ?thesis using assms(2) by (auto simp: degradation_matrix_def)
qed

lemma lost_cycle:
  assumes "arb_wf a" "arb_initialised a" "arb_currentState a \<noteq> kEmergencyStop" "k < 8"
    and "lost (ct_scan ct) a k"
  shows "sensor_lost_seen k (cycle ct a)"
proof -
  have "required_state (ct_scan ct) a \<noteq> kFullOperation" if "k \<le> 4"
    unfolding required_state_eq [OF assms(1)] using that assms(5)
    by (intro degraded_if_lost [of k]) (auto simp: le_Suc_eq numeral_eq_Suc)
  then show ?thesis
    using cycle_fault_mask [OF assms(1,2), where ct = ct and i = k] assms(4,5)
    by (simp add: sensor_lost_seen_def cycle_state [OF assms(1-3)])
qed

lemma lastHeartbeat_cycle:
  assumes "arb_wf a" "arb_initialised a" "k < 8"
  shows "dom_lastHeartbeat (arb_domains (cycle ct a) ! k) = dom_lastHeartbeat (arb_domains a ! k)"
  using assms by (simp add: domains_cycle scan_domain_eq arb_wf_def)

definition silent_run :: "nat \<Rightarrow> u64 \<Rightarrow> 'l safety_run \<Rightarrow> bool" where
  "silent_run k t0 s \<longleftrightarrow> run_inv s \<and> k < 8 \<and> dom_lastHeartbeat (arb_domains (sr_arb s) ! k) = t0"

lemma silent_others:
  assumes "others_run k s s'" "silent_run k t0 s"
  shows "silent_run k t0 s'" "sensor_lost_seen k (sr_arb s) \<Longrightarrow> sensor_lost_seen k (sr_arb s')"
proof -
  have inv: "run_inv s" using assms(2) by (simp add: silent_run_def)
  obtain a where a: "others_step k (sr_arb s) a" "s' = s\<lparr>sr_arb := a\<rparr>"
    using assms(1) by (auto simp: others_run_def)
  note f = others_frame [OF a(1) run_inv_wf [OF inv]]
  have "run_inv s'" unfolding a(2) using f by (intro run_inv_same_core [OF inv])
  then show "silent_run k t0 s'" using assms(2) f a(2) by (simp add: silent_run_def row_frame_def)
  show "sensor_lost_seen k (sr_arb s) \<Longrightarrow> sensor_lost_seen k (sr_arb s')"
    using f a(2) by (simp add: sensor_lost_seen_def row_frame_def same_core_def failed_def)
qed

lemma silent_cycle:
  assumes "cycle_run t s s'" "silent_run k t0 s"
  shows "silent_run k t0 s'" "unat t0 + 100 < unat t \<Longrightarrow> sensor_lost_seen k (sr_arb s')"
proof -
  have inv: "run_inv s" and k: "k < 8" using assms(2) by (simp_all add: silent_run_def)
  then have a: "arb_wf (sr_arb s)" "arb_initialised (sr_arb s)" "arb_currentState (sr_arb s) \<noteq> kEmergencyStop"
    by (simp_all add: run_inv_def Let_def)
  obtain ct where ct: "ct_scan ct = t"
    "s' = s\<lparr>sr_arb := cycle ct (sr_arb s), sr_hist := sr_hist s @ hist_step ct (sr_arb s)\<rparr>"
    using assms(1) by (auto simp: cycle_run_def)
  show "silent_run k t0 s'"
    using assms(2) run_inv_cycle [OF inv, of ct] lastHeartbeat_cycle [OF a(1,2) k, of ct] ct(2)
    by (simp add: silent_run_def)
  show "sensor_lost_seen k (sr_arb s')" if "unat t0 + 100 < unat t"
    using that assms(2) lost_cycle [OF a k, of ct] ct
    by (simp add: lost_def timed_out_def silent_run_def)
qed

interpretation silent_sensor: periodic_scan "others_run k" cycle_run "silent_run k t0"
    "\<lambda>s. sensor_lost_seen k (sr_arb s)" "unat t0 + 100" for k t0
  by unfold_locales (auto intro: silent_others silent_cycle)

definition tick_times :: "u64 \<Rightarrow> cycle_times" where
  "tick_times t = \<lparr>ct_scan = t, ct_start = t, ct_end = t, ct_log = t\<rparr>"

lemma cycle_run_possible: "\<exists>s'. cycle_run t s s'"
  by (auto simp: cycle_run_def tick_times_def intro!: exI [of _ "tick_times t"])

end
