(* ===== verification/SafetyProps.thy ===== *)
theory SafetyProps
  imports LogRace CommandRace SafetyTiming
begin

text \<open>
  Properties of the safety arbitrator, with the sample arbitrator their witnesses run on: a
  bridge over a fresh ring, domain 0 mandatory, initialised at 1000 ms.
\<close>

section \<open>A sample arbitrator\<close>

definition sample_ring :: IpcRingBuffer where
  "sample_ring = \<lparr>rb_head = 0, rb_tail = 0, rb_magic = 0, rb_pad = 0,
     rb_slots = replicate 32 IpcSlot_zero\<rparr>"

definition sample_bridge :: IpcBridge where
  "sample_bridge = snd (IpcBridge_Init (IpcBridge_new (Some sample_ring)))"

definition sample_new :: "IpcBridge \<Rightarrow> nat SafetyArbitrator" where
  "sample_new b = SafetyArbitrator_new (Some b)"

definition sample_arb :: "IpcBridge \<Rightarrow> nat SafetyArbitrator" where
  "sample_arb b = snd (SafetyArbitrator_Init 1 1000 (sample_new b))"

definition sample_times :: "u64 \<Rightarrow> cycle_times" where
  "sample_times t = \<lparr>ct_scan = t, ct_start = t, ct_end = t + 2, ct_log = t + 2\<rparr>"

lemma sample_times_simps [simp]:
  "ct_scan (sample_times t) = t" "ct_start (sample_times t) = t" "ct_end (sample_times t) = t + 2"
  "ct_log (sample_times t) = t + 2"
  by (simp_all add: sample_times_def)

lemma sample_bridge_facts:
  "bridge_wf sample_bridge" "br_initialised sample_bridge" "br_pending sample_bridge = []"
  "br_seqCounter sample_bridge = 0"
  by (simp_all add: sample_bridge_def Init_cases IpcBridge_new_def bridge_wf_def ring_wf_def
      br_pending_def ring_pending_def ring_list_def)

lemma sample_new_wf: "bridge_wf b \<Longrightarrow> arb_wf (sample_new b)"
  by (simp add: sample_new_def arb_wf_new ipc_wf_def)

lemma sample_init: "SafetyArbitrator_Init 1 1000 (sample_new b) = (Ok (), sample_arb b)"
  by (simp add: sample_arb_def sample_new_def SafetyArbitrator_new_def SafetyArbitrator_Init_def)

lemma sample_arb_wf: "bridge_wf b \<Longrightarrow> arb_wf (sample_arb b)"
  using arb_wf_Init [OF sample_new_wf, of b 1 1000] by (simp add: sample_init)

lemma sample_arb_facts [simp]:
  "arb_initialised (sample_arb b)" "arb_currentState (sample_arb b) = kFullOperation"
  "arb_ipc (sample_arb b) = Some b" "arb_mandatoryMask (sample_arb b) = 1"
  "arb_sequenceNum (sample_arb b) = 0" "arb_transitionCount (sample_arb b) = 0"
  "arb_faultBitmask (sample_arb b) = 0" "arb_listenerCount (sample_arb b) = 0"
  "arb_logHead (sample_arb b) = 0"
  "arb_domains (sample_arb b) = map (init_domain 1 1000) [0..<8]"
  by (simp_all add: sample_arb_def sample_new_def SafetyArbitrator_new_def SafetyArbitrator_Init_def)

lemma sample_row [simp]:
  "dom_health (init_domain m t i) = 3" "dom_lastHeartbeat (init_domain m t i) = t"
  "dom_faultCount (init_domain m t i) = 0"
  by (simp_all add: init_domain_def)

lemma sample_lost: "i < 8 \<Longrightarrow> lost now (sample_arb b) i \<longleftrightarrow> 1100 < unat now"
  by (simp add: lost_def timed_out_def)

lemma sample_required:
  assumes "bridge_wf b" "1100 < unat now"
  shows "required_state now (sample_arb b) = kMinimalRiskCondition"
  using assms(2) unfolding required_state_eq [OF sample_arb_wf [OF assms(1)]]
  by (simp add: sample_lost degradation_matrix_def)

section \<open>The decision\<close>

text \<open>C4: in an arbitration cycle the scan, the bitmasks and the priority chain of
  \<open>ComputeRequiredState\<close> together implement the degradation matrix, whatever listeners are
  registered and whether or not the command could be sent. Bit \<open>i\<close> of the fault bitmask is set
  exactly for the rows \<open>i < 8\<close> that are lost (failed, or silent for more than 100 ms) when the cycle
  starts, and each of those ends with health \<open>kFailed\<close>; unless the arbitrator is in the emergency
  stop, the state is the one the matrix gives for the lost domains, with the mandatory escalation
  first.\<close>

theorem arbitrate_applies_matrix:
  assumes "arb_wf a" "arb_initialised a"
    and "a' = fst (snd (Arbitrate (plain_listener eff) ct (a, w)))"
  shows "(\<forall>i. (bit (arb_faultBitmask a') i \<longleftrightarrow> i < 8 \<and> lost (ct_scan ct) a i) \<and>
      (bit (arb_faultBitmask a') i \<longrightarrow> failed a' i)) \<and>
    (arb_currentState a \<noteq> kEmergencyStop \<longrightarrow>
      arb_currentState a' = degradation_matrix (mandatory_escalation (ct_scan ct) a) (lost (ct_scan ct) a 0)
        (lost (ct_scan ct) a 1) (lost (ct_scan ct) a 2) (lost (ct_scan ct) a 3) (lost (ct_scan ct) a 4))"
  unfolding assms(3) cycle_Arbitrate [OF assms(1)]
  using cycle_fault_mask [OF assms(1,2)] cycle_state [OF assms(1,2)] required_state_eq [OF assms(1)]
  by simp

theorem arbitrate_applies_matrix_witness:
  "(let a' = fst (snd (Arbitrate (plain_listener (\<lambda>l c w. w)) (sample_times 1101) (sample_arb sample_bridge, ())))
    in arb_currentState a' = kMinimalRiskCondition \<and> bit (arb_faultBitmask a') 6 \<and> failed a' 6)"
  using arbitrate_applies_matrix [OF sample_arb_wf _ refl, of sample_bridge "\<lambda>l c w. w" "sample_times 1101" "()"]
  by (simp add: sample_bridge_facts sample_lost degradation_matrix_def Let_def)

section \<open>The command on the link\<close>

text \<open>C5: when a cycle changes the state and the ring has a free slot, exactly one slot is
  appended to what the other core has not read yet. It passes the E2E check with the bridge's
  counter, and the receiver decodes from it the new state, the caps of that state, the
  bitmasks of this cycle and the next sequence number. The transition time in it is 0, since it
  is measured after the command was sent; only the copy kept by the arbitrator has it.\<close>

theorem transition_reaches_m7:
  assumes "arb_wf a" "arb_initialised a" "arb_currentState a \<noteq> kEmergencyStop"
    and "required_state (ct_scan ct) a \<noteq> arb_currentState a"
    and "arb_ipc a = Some b" "br_initialised b" "length (br_pending b) < 31"
    and "a' = fst (snd (Arbitrate (plain_listener eff) ct (a, w)))"
  shows "\<exists>b' sl cmd. arb_ipc a' = Some b' \<and> br_pending b' = br_pending b @ [sl] \<and>
    VerifyE2e sl (br_seqCounter b) = Ok () \<and> decode_command (sl_payload sl) = Some cmd \<and>
    cmd = (arb_lastCommand a')\<lparr>cmd_transitionMs := 0\<rparr> \<and> cmd_magic cmd = kArbitratorMagic \<and>
    cmd_state cmd = arb_currentState a' \<and>
    (cmd_maxSpeedKph cmd, cmd_maxDecelMps2 cmd) = state_caps (arb_currentState a') \<and>
    cmd_faultBitmask cmd = arb_faultBitmask a' \<and> cmd_activeDomains cmd = arb_activeBitmask a' \<and>
    cmd_sequenceNum cmd = arb_sequenceNum a + 1"
  unfolding assms(8) cycle_Arbitrate [OF assms(1)] by (rule cycle_command [OF assms(1-7)])

theorem transition_reaches_m7_witness:
  "\<exists>b' sl cmd. arb_ipc (fst (snd (Arbitrate (plain_listener (\<lambda>l c w. w)) (sample_times 1101)
      (sample_arb sample_bridge, ())))) = Some b' \<and> br_pending b' = [sl] \<and>
    VerifyE2e sl 0 = Ok () \<and> decode_command (sl_payload sl) = Some cmd"
  using transition_reaches_m7 [of "sample_arb sample_bridge" "sample_times 1101" sample_bridge _
      "\<lambda>l c w. w" "()", OF sample_arb_wf, OF _ _ _ _ _ _ _ refl]
  by (auto simp: sample_bridge_facts sample_required)

definition full_bridge :: IpcBridge where
  "full_bridge = \<lparr>br_ring = Some (sample_ring\<lparr>rb_head := 31, rb_magic := kIpcMagic\<rparr>),
     br_seqCounter = 31, br_initialised = True\<rparr>"

lemma full_bridge_facts:
  "bridge_wf full_bridge" "br_initialised full_bridge" "length (br_pending full_bridge) = 31"
  by (simp_all add: full_bridge_def sample_ring_def bridge_wf_def ring_wf_def br_pending_def
      ring_pending_def)

text \<open>C6: when the ring is full the command of a transition is lost for good. The cycle reports
  \<open>kE2eViolation\<close>, but the new state is committed with nothing written to the link, and a later
  cycle that still requires that state returns \<open>Ok\<close> without sending anything.\<close>

theorem lost_command_not_resent:
  assumes "arb_wf a" "arb_initialised a" "arb_currentState a \<noteq> kEmergencyStop"
    and "required_state (ct_scan ct) a \<noteq> arb_currentState a" "latency ct \<le> 50"
    and "arb_ipc a = Some b" "br_initialised b" "length (br_pending b) = 31"
    and "a' = fst (snd (Arbitrate (plain_listener eff) ct (a, w)))"
  shows "fst (Arbitrate (plain_listener eff) ct (a, w)) = Err kE2eViolation \<and>
    arb_currentState a' = required_state (ct_scan ct) a \<and> arb_ipc a' = Some b \<and>
    (\<forall>ct' w'. required_state (ct_scan ct') a' = arb_currentState a' \<longrightarrow>
       fst (Arbitrate (plain_listener eff) ct' (a', w')) = Ok () \<and>
       arb_ipc (fst (snd (Arbitrate (plain_listener eff) ct' (a', w')))) = Some b)"
proof -
  let ?c = "cycle_start (ct_scan ct) a" and ?t = "required_state (ct_scan ct) a"
  let ?cmd = "build_command ?t (arb_sequenceNum a) ?c"
  have len: "length (arb_domains a) = 8" using assms(1) by (simp add: arb_wf_def)
  note fr = cycle_start_frame [OF len, of "ct_scan ct"]
  have send: "SendCommandToM7 ?cmd ?c = (Err kIpcBufferFull, ?c)"
    using SendCommandToM7_full [OF arb_wf_cycle_start [OF assms(1)] _ assms(7,8)] assms(6) fr by simp
  have arb: "Arbitrate (plain_listener eff) ct (a, w) = (Err kE2eViolation, executed ct ?t ?c,
      notify_all eff (final_command ct ?t ?c) (take (unat (arb_listenerCount a)) (arb_listeners a)) w)"
    using assms(2-5) by (simp add: Arbitrate_plain [OF assms(1)] Let_def transition_result_def send fr(5))
  have a': "a' = executed ct ?t ?c" by (simp add: assms(9) arb)
  have wf': "arb_wf a'" using arb_wf_executed [OF arb_wf_cycle_start [OF assms(1)]] by (simp add: a')
  then have len': "length (arb_domains a') = 8" by (simp add: arb_wf_def)
  have ipc: "arb_ipc a' = Some b" by (simp add: a' executed_def fr(4,5) send assms(6))
  have "arb_initialised a'" using assms(2) fr by (simp add: a')
  then show ?thesis
    using cycle_start_frame(4) [OF len'] ipc
    by (simp add: arb Arbitrate_plain [OF wf'] Let_def a' [symmetric]) (simp add: a')
qed

theorem lost_command_not_resent_witness:
  "fst (Arbitrate (plain_listener (\<lambda>l c w. w)) (sample_times 1101) (sample_arb full_bridge, ()))
     = Err kE2eViolation"
  using lost_command_not_resent [of "sample_arb full_bridge" "sample_times 1101" full_bridge _
      "\<lambda>l c w. w" "()", OF sample_arb_wf, OF _ _ _ _ _ _ _ _ refl]
  by (simp add: full_bridge_facts sample_required latency_def)

text \<open>C7: the outcome of a cycle on every branch: not initialised; no change required (or an
  emergency stop in force), where listeners are not called; a transition, where each registered
  listener is called once, in order of registration, with the command that was built, and the
  result is \<open>kTimeout\<close> if the measured latency is above 50 ms, \<open>kE2eViolation\<close> if the command
  could not be sent.\<close>

theorem arbitrate_outcome:
  assumes "arb_wf a"
  shows "(let req = required_state (ct_scan ct) a; b = cycle_start (ct_scan ct) a;
              (r, a', w') = Arbitrate (plain_listener eff) ct (a, w)
    in (if \<not> arb_initialised a then r = Err kNotInitialized \<and> a' = a \<and> w' = w
        else if req = arb_currentState a \<or> arb_currentState a = kEmergencyStop
        then r = Ok () \<and> a' = b \<and> w' = w
        else r = (if latency ct > 50 then Err kTimeout
                  else if fst (SendCommandToM7 (build_command req (arb_sequenceNum a) b) b) \<noteq> Ok ()
                  then Err kE2eViolation else Ok ()) \<and>
          arb_currentState a' = req \<and> arb_transitionCount a' = arb_transitionCount a + 1 \<and>
          w' = fold (\<lambda>l w. eff l (arb_lastCommand a') w)
                 (List.map_filter id (take (unat (arb_listenerCount a)) (arb_listeners a))) w))"
  using assms by (simp add: Arbitrate_plain Let_def transition_result_def notify_all_def arb_wf_def)

theorem arbitrate_outcome_witness:
  "fst (Arbitrate (plain_listener (\<lambda>l c n. Suc n)) (sample_times 1050) (sample_arb sample_bridge, 7)) = Ok () \<and>
   snd (snd (Arbitrate (plain_listener (\<lambda>l c n. Suc n)) (sample_times 1050) (sample_arb sample_bridge, 7))) = 7"
proof -
  have "required_state 1050 (sample_arb sample_bridge) = kFullOperation"
    by (simp add: required_state_eq sample_arb_wf sample_bridge_facts sample_lost degradation_matrix_def
        mandatory_escalation_def)
  then show ?thesis
    using arbitrate_outcome [OF sample_arb_wf [OF sample_bridge_facts(1)], of "sample_times 1050"
        "\<lambda>l c n. Suc n" 7]
    by (simp add: Let_def split_beta)
qed

section \<open>Every run\<close>

text \<open>The run of the witnesses: one cycle after the silence of all domains.\<close>

definition sample_cycled :: "nat safety_run" where
  "sample_cycled =
     (run_start (sample_arb sample_bridge))
       \<lparr>sr_arb := cycle (sample_times 1101) (sample_arb sample_bridge),
        sr_hist := hist_step (sample_times 1101) (sample_arb sample_bridge)\<rparr>"

lemma sample_cycled_reachable: "safety_step\<^sup>*\<^sup>* (run_start (sample_arb sample_bridge)) sample_cycled"
  using s_cycle [of "run_start (sample_arb sample_bridge)" "sample_times 1101"]
  by (intro r_into_rtranclp) (simp add: sample_cycled_def run_start_def)

lemma sample_cycle_state:
  "arb_currentState (cycle (sample_times 1101) (sample_arb sample_bridge)) = kMinimalRiskCondition"
  by (simp add: cycle_state sample_arb_wf sample_bridge_facts sample_required)

lemma sample_cycled_hist:
  "sr_hist sample_cycled = [log_entry (sample_times 1101) kMinimalRiskCondition
     (cycle_start 1101 (sample_arb sample_bridge))]"
  by (simp add: sample_cycled_def hist_step_def sample_cycle_state)

lemmas sample_run = sample_cycled_reachable sample_init
  sample_new_wf [OF sample_bridge_facts(1)]

text \<open>C8: no run reaches \<open>kEmergencyStop\<close> or commands it: from \<open>Init\<close>, under any sequence of
  fault events, heartbeats, registrations, repeated \<open>Init\<close> calls, traffic on the link and cycles,
  the state the header calls final is never entered. In every reachable state the last command
  carries the current state, its caps and the current sequence number, and the number of
  transitions equals the number of commands built.\<close>

theorem run_state_and_command:
  assumes "safety_step\<^sup>*\<^sup>* (run_start a') s" "SafetyArbitrator_Init m now a = (Ok (), a')" "arb_wf a"
  shows "arb_currentState (sr_arb s) \<noteq> kEmergencyStop \<and>
    cmd_state (arb_lastCommand (sr_arb s)) = arb_currentState (sr_arb s) \<and>
    (cmd_maxSpeedKph (arb_lastCommand (sr_arb s)), cmd_maxDecelMps2 (arb_lastCommand (sr_arb s)))
      = state_caps (arb_currentState (sr_arb s)) \<and>
    cmd_sequenceNum (arb_lastCommand (sr_arb s)) = arb_sequenceNum (sr_arb s) \<and>
    arb_transitionCount (sr_arb s) = arb_sequenceNum (sr_arb s)"
  using run_inv_reachable [OF assms] by (simp add: run_inv_def command_ok_def Let_def)

theorem run_state_and_command_witness:
  "cmd_state (arb_lastCommand (sr_arb sample_cycled)) = kMinimalRiskCondition"
  using run_state_and_command [OF sample_run] sample_cycle_state by (simp add: sample_cycled_def)

text \<open>C9: the transitions of a run form a chain: the first starts in \<open>kFullOperation\<close>, each
  starts where the previous one ended and changes the state, the last ends in the current
  state, they are numbered from 1, and the 32 newest are in the log.\<close>

theorem audit_trail_chain:
  assumes "safety_step\<^sup>*\<^sup>* (run_start a') s" "SafetyArbitrator_Init m now a = (Ok (), a')" "arb_wf a"
  shows "linked kFullOperation (sr_hist s) (arb_currentState (sr_arb s)) \<and>
    log_holds (arb_transitionLog (sr_arb s)) (sr_hist s) \<and>
    (\<forall>j < length (sr_hist s). tr_sequenceNum (sr_hist s ! j) = word_of_nat (Suc j))"
  using run_inv_reachable [OF assms] by (simp add: run_inv_def Let_def)

theorem audit_trail_chain_witness:
  "linked kFullOperation (sr_hist sample_cycled) kMinimalRiskCondition"
  using audit_trail_chain [OF sample_run] sample_cycle_state by (simp add: sample_cycled_def)

text \<open>C10: the diagnostic task may drain the transition log while the main loop makes a
  transition. In every interleaving of their single accesses, whatever the drain returns are the
  newest records first, of the transitions before this one or of those with it, at most as many
  as fit the buffer, whose other cells are left alone; what can be wrong is a last record in
  excess of the transitions made, and the records from the 32nd on, whose slot is being
  written. Without a transition beside it the drain is exact.\<close>

theorem drain_beside_transition:
  assumes "safety_step\<^sup>*\<^sup>* (run_start a') s" "SafetyArbitrator_Init m now a = (Ok (), a')" "arb_wf a"
    and "Suc (length (sr_hist s)) < 2 ^ 32" "unat sz \<le> length buf"
    and "trail_run is ([LgCount r, DrHead sz buf], sr_arb s) = ([w, DrDone k out], a2)"
  shows "(\<exists>H \<in> {sr_hist s, sr_hist s @ [logged (arb_transitionCount (sr_arb s)) r]}.
      unat k \<le> min (unat sz) (min (Suc (length (sr_hist s))) 33) \<and>
      drop (unat k) out = drop (unat k) buf \<and>
      (\<forall>i < min (unat k) (min (length H) 31). out ! i = rev H ! i)) \<and>
    DrainTransitionLog (Some buf) sz (sr_arb s) =
      (let k = min (min (length (sr_hist s)) 32) (unat sz)
       in (word_of_nat k, Some (take k (rev (sr_hist s)) @ drop k buf)))"
proof -
  have inv: "run_inv s" by (rule run_inv_reachable [OF assms(1-3)])
  then have "arb_wf (sr_arb s)" "log_holds (arb_transitionLog (sr_arb s)) (sr_hist s)"
    "unat (arb_logHead (sr_arb s)) = length (sr_hist s) mod 32"
    "arb_transitionCount (sr_arb s) = word_of_nat (length (sr_hist s))"
    by (simp_all add: run_inv_def Let_def)
  from trail_drain [OF assms(6,4) this assms(5)] Drain_newest_first [OF inv _ assms(5)] assms(4)
  show ?thesis by simp
qed

text \<open>The wrong record is possible: in the witness it is a transition to \<open>kEmergencyStop\<close>.\<close>

definition two_records :: "SafeStateTransition list" where
  "two_records = replicate 2 SafeStateTransition_default"

theorem drain_beside_transition_witness:
  "\<exists>out. fst (trail_run first_transition_drained
      ([LgCount SafeStateTransition_default, DrHead 2 two_records], sample_arb sample_bridge)) =
      [LgDone, DrDone 1 out] \<and> tr_toState (out ! 0) = kEmergencyStop \<and> drop 1 out = drop 1 two_records"
proof -
  let ?x = "([LgCount SafeStateTransition_default, DrHead 2 two_records], sample_arb sample_bridge)"
  let ?out = "two_records[0 := SafeStateTransition_default]"
  have "arb_transitionLog (sample_arb sample_bridge) ! 31 = SafeStateTransition_default"
    by (simp add: sample_arb_def sample_new_def SafetyArbitrator_new_def SafetyArbitrator_Init_def)
  then have bad: "fst (trail_run first_transition_drained ?x) = [LgDone, DrDone 1 ?out]"
    by (intro drain_invents_stop) (simp_all add: sample_arb_wf sample_bridge_facts two_records_def)
  then obtain a2 where "trail_run first_transition_drained ?x = ([LgDone, DrDone 1 ?out], a2)"
    by (cases "trail_run first_transition_drained ?x") simp
  then have "drop 1 ?out = drop 1 two_records"
    using drain_beside_transition [OF _ sample_init sample_new_wf [OF sample_bridge_facts(1)],
        where s = "run_start (sample_arb sample_bridge)"]
    by (fastforce simp: run_start_def two_records_def)
  then show ?thesis
    using bad by (auto simp: two_records_def SafeStateTransition_default_def)
qed

section \<open>Escalation and recovery\<close>

text \<open>Three failure reports on a mandatory domain, at any times and whatever its state was,
  make the minimal risk condition the required state (its 32-bit counter must not wrap).\<close>

theorem mandatory_domain_escalates:
  assumes "arb_wf a" "arb_initialised a" "unat d < 7" "bit (arb_mandatoryMask a) (unat d)"
    and "unat (dom_faultCount (arb_domains a ! unat d)) + 3 < 2 ^ 32"
  shows "required_state now
     (fold (\<lambda>(c, t) a. snd (IngestFault \<lparr>fe_domain = d, fe_health = kFailed, fe_timestampMs = 0,
        fe_faultCode = c\<rparr> t a)) [(c1, t1), (c2, t2), (c3, t3)] a) = kMinimalRiskCondition"
proof -
  let ?f = "\<lambda>c dm. (dm :: DomainState)\<lparr>dom_health := 2, dom_dtcCode := c, dom_faultCount := dom_faultCount dm + 1\<rparr>"
  have d: "\<not> 7 \<le> d" using assms(3) by (simp add: word_le_nat_alt)
  have len: "length (arb_domains a) = 8" using assms(1) by (simp add: arb_wf_def)
  have step: "snd (IngestFault \<lparr>fe_domain = d, fe_health = kFailed, fe_timestampMs = 0, fe_faultCode = c\<rparr> t b)
      = update_domain (unat d) (?f c) b" if "arb_initialised b" for c t and b :: "'a SafetyArbitrator"
    using that d by (simp add: IngestFault_def update_domain_def Let_def)
  define b where "b = update_domain (unat d) (?f c3) (update_domain (unat d) (?f c2)
      (update_domain (unat d) (?f c1) a))"
  have fold: "fold (\<lambda>(c, t) a. snd (IngestFault \<lparr>fe_domain = d, fe_health = kFailed, fe_timestampMs = 0,
        fe_faultCode = c\<rparr> t a)) [(c1, t1), (c2, t2), (c3, t3)] a = b"
    using assms(2) by (simp add: step b_def del: kFailed_def)
  have row: "dom_health (arb_domains b ! unat d) = 2"
    "dom_faultCount (arb_domains b ! unat d) = dom_faultCount (arb_domains a ! unat d) + 3"
    using assms(3) len by (simp_all add: b_def update_domain_nth)
  have cnt: "unat (dom_faultCount (arb_domains a ! unat d) + 3) = unat (dom_faultCount (arb_domains a ! unat d)) + 3"
    using assms(5) by (simp add: unat_word_ariths)
  have "mandatory_escalation now b"
    unfolding mandatory_escalation_def
  proof (intro conjI exI [of _ "unat d"])
    show "lost now b (unat d)" "3 \<le> unat (fault_ticks now b (unat d))"
      using row cnt by (simp_all add: lost_def fault_ticks_def Let_def)
  qed (use assms(3,4) in \<open>simp_all add: b_def\<close>)
  moreover have "arb_wf b" using assms(1) by (simp add: b_def)
  ultimately show ?thesis
    unfolding fold by (simp add: required_state_eq degradation_matrix_def)
qed

theorem mandatory_domain_escalates_witness:
  "required_state 1010
     (fold (\<lambda>(c, t) a. snd (IngestFault \<lparr>fe_domain = 0, fe_health = kFailed, fe_timestampMs = 0,
        fe_faultCode = c\<rparr> t a)) [(1, 1001), (2, 1002), (3, 1003)] (sample_arb sample_bridge))
   = kMinimalRiskCondition"
  by (rule mandatory_domain_escalates) (simp_all add: sample_arb_wf sample_bridge_facts)

text \<open>C11: silence is found in time. From any state the arbitrator can reach, let row \<open>k\<close> fall
  silent after a heartbeat at \<open>t0\<close>, while other domains report, fail and recover, listeners
  register and the link changes at will. If no more than 10 ms pass between two cycles, then
  more than 110 ms after \<open>t0\<close> the fault bit of the row is set and its health is \<open>kFailed\<close>; for the five
  sensors of the matrix the state is no longer \<open>kFullOperation\<close>, nor is that of the last
  command.\<close>

theorem silence_detected_in_time:
  assumes "safety_step\<^sup>*\<^sup>* (run_start a') (td_state s0)" "SafetyArbitrator_Init m now a = (Ok (), a')" "arb_wf a"
    and "k < 8" "dom_lastHeartbeat (arb_domains (sr_arb (td_state s0)) ! k) = t0"
    and "unat (td_scan s0) \<le> unat t0 + 100" "unat (td_now s0) \<le> unat (td_scan s0) + kLoopPeriodMs"
    and "(timed_step kLoopPeriodMs (others_run k) cycle_run)\<^sup>*\<^sup>* s0 s"
    and "unat t0 + 100 + kLoopPeriodMs < unat (td_now s)"
  shows "bit (arb_faultBitmask (sr_arb (td_state s))) k \<and>
    GetDomainHealth (word_of_nat k) (sr_arb (td_state s)) = kFailed \<and>
    (k \<le> 4 \<longrightarrow> arb_currentState (sr_arb (td_state s)) \<noteq> kFullOperation \<and>
               cmd_state (arb_lastCommand (sr_arb (td_state s))) \<noteq> kFullOperation)"
proof -
  have "silent_run k t0 (td_state s0)"
    using run_inv_reachable [OF assms(1-3)] assms(4,5) by (simp add: silent_run_def)
  note f = silent_sensor.found_in_time [OF assms(8) this assms(7,6,9)]
  then have "command_ok (sr_arb (td_state s))" by (simp add: silent_run_def run_inv_def Let_def)
  then show ?thesis
    using f(1) assms(4)
    by (auto simp: sensor_lost_seen_def command_ok_def failed_def GetDomainHealth_def unat_of_nat)
qed

theorem silence_detected_in_time_witness:
  "\<exists>s. (timed_step kLoopPeriodMs (others_run 2) cycle_run)\<^sup>*\<^sup>*
       \<lparr>td_state = run_start (sample_arb sample_bridge), td_now = 1000, td_scan = 1000\<rparr> s \<and>
     td_now s = 1120 \<and> bit (arb_faultBitmask (sr_arb (td_state s))) 2 \<and>
     arb_currentState (sr_arb (td_state s)) \<noteq> kFullOperation"
proof -
  let ?s = "\<lparr>td_state = run_start (sample_arb sample_bridge), td_now = 1000, td_scan = 1000\<rparr>"
  obtain s where "(timed_step kLoopPeriodMs (others_run 2) cycle_run)\<^sup>*\<^sup>* ?s s" "td_now s = 1120"
    using timed_ticks [of cycle_run ?s kLoopPeriodMs 12, OF cycle_run_possible] by auto
  then show ?thesis
    using silence_detected_in_time [OF _ sample_init sample_new_wf [OF sample_bridge_facts(1)],
        where ?s0.0 = ?s and k = 2 and ?t0.0 = 1000 and s = s]
    by (auto simp: run_start_def)
qed

text \<open>C13: a run in which sensors are lost by silence alone (heartbeats, cycles, listeners, link traffic, but no fault
  report) enters the minimal risk condition only through the loss of both LiDAR and radar: a
  timeout counts as one fault however long the silence lasts, so the loss of a mandatory
  domain alone never reaches the threshold.\<close>

theorem silence_never_escalates:
  assumes "quiet_step\<^sup>*\<^sup>* a' b" "SafetyArbitrator_Init m now a = (Ok (), a')" "arb_wf a"
  shows "(arb_currentState b = kMinimalRiskCondition \<longrightarrow> failed b 0 \<and> failed b 1) \<and>
    (\<forall>t. \<not> mandatory_escalation t b)"
  using quiet_inv_reachable [OF assms] quiet_no_escalation [of b] by (auto simp: quiet_inv_def)

lemma sample_quiet: "quiet_step\<^sup>*\<^sup>* (sample_arb sample_bridge) (cycle (sample_times 1101) (sample_arb sample_bridge))"
  by (intro r_into_rtranclp r_cycle)

theorem silence_never_escalates_witness:
  "failed (cycle (sample_times 1101) (sample_arb sample_bridge)) 0 \<and>
   \<not> mandatory_escalation 99999 (cycle (sample_times 1101) (sample_arb sample_bridge))"
  using silence_never_escalates [OF sample_quiet sample_init sample_new_wf [OF sample_bridge_facts(1)]]
  by (simp add: sample_cycle_state)

text \<open>C14: a failure report that is complete stands. Whatever calls then run on other threads
  (heartbeats, further failure reports, the timeout scan), begun before or after, in any
  interleaving of their atomic accesses, the domain does not become nominal again, as long as
  no nominal report is among them, no heartbeat had already found the counter at zero, and
  the counter does not wrap. A nominal report that runs alone does reset health, counter and
  timestamp.\<close>

theorem complete_report_stands:
  assumes "list_all no_recovery ps" "dom_health d \<noteq> kNominal" "dom_faultCount d \<noteq> 0"
    and "unat (dom_faultCount d) + length is < 2 ^ 32" "fe_health e = kNominal"
  shows "dom_health (snd (race is (ps, d))) \<noteq> kNominal \<and> dom_faultCount (snd (race is (ps, d))) \<noteq> 0 \<and>
    (let r = row_alone (InHealth e t) d
     in dom_health r = kNominal \<and> dom_faultCount r = 0 \<and> dom_lastHeartbeat r = t)"
  using no_recovery_race [OF assms(1-4)] assms(5) by (simp add: row_alone_def)

definition sample_fault :: SensorFaultEvent where
  "sample_fault = \<lparr>fe_domain = 2, fe_health = 1, fe_timestampMs = 0, fe_faultCode = 7\<rparr>"

definition failed_row :: DomainState where
  "failed_row = DomainState_default\<lparr>dom_health := kFailed, dom_faultCount := 1\<rparr>"

theorem complete_report_stands_witness:
  "dom_health (snd (race [0, 2, 1, 0, 3, 1, 2, 2, 3]
     ([HbBeat 5, HbLoad, ScBeat 900, InCount sample_fault 3], failed_row))) \<noteq> kNominal"
  using complete_report_stands [of "[HbBeat 5, HbLoad, ScBeat 900, InCount sample_fault 3]" failed_row
      "[0, 2, 1, 0, 3, 1, 2, 2, 3]" "sample_fault\<lparr>fe_health := kNominal\<rparr>"]
  by (simp add: failed_row_def sample_fault_def)

text \<open>C16: a heartbeat that overlaps a failure report can hide it, although each call alone keeps the
  report. Of the twenty interleavings of a LiDAR failure report and a LiDAR heartbeat, each of
  three atomic accesses, only the five of \<open>report_stands\<close> leave the LiDAR failed; after the other
  fifteen the row is nominal, and the next cycle requires full operation instead of the
  fallback. (Other sensors healthy, no domain with two faults counted, the cycle within
  100 ms of the heartbeat.)\<close>

theorem heartbeat_hides_failure:
  assumes "arb_wf a" "xs \<in> shuffles [0, 0, 0] [1, 1, 1]"
    and "fe_health e = kFailed" "dom_faultCount (arb_domains a ! 0) = 0"
    and "b = update_domain 0 (\<lambda>d. snd (race xs ([InHealth e t, HbBeat t], d))) a"
    and "t \<le> now" "unat now \<le> unat t + 100"
    and "\<forall>i \<in> {1..4}. \<not> lost now a i" "\<forall>i<8. unat (dom_faultCount (arb_domains a ! i)) < 2"
  shows "required_state now b = (if report_stands xs then kRadarCameraFallback else kFullOperation)"
proof -
  have len: "length (arb_domains a) = 8" using assms(1) by (simp add: arb_wf_def)
  have "fe_health e \<noteq> kNominal" using assms(3) by simp
  note out = race_outcome [OF assms(2,4) this, of t]
  have b: "b = update_domain 0 (\<lambda>d. d\<lparr>dom_health := (if report_stands xs then kFailed else kNominal),
      dom_dtcCode := fe_faultCode e, dom_faultCount := 1, dom_lastHeartbeat := t\<rparr>) a"
    using out assms(3,5) by (simp add: update_domain_def)
  have row: "arb_domains b ! i = (if i = 0 then (arb_domains a ! 0)\<lparr>
      dom_health := (if report_stands xs then kFailed else kNominal),
      dom_dtcCode := fe_faultCode e, dom_faultCount := 1, dom_lastHeartbeat := t\<rparr>
      else arb_domains a ! i)" if "i < 8" for i
    using that len by (auto simp: b update_domain_nth)
  have wf: "arb_wf b" using assms(1) by (simp add: b)
  have "\<not> timed_out now (arb_domains b ! 0)"
    using row [of 0] assms(6,7) by (simp add: timed_out_def Let_def word_less_nat_alt word_le_nat_alt unat_sub)
  then have l0: "lost now b 0 \<longleftrightarrow> report_stands xs"
    using row [of 0] by (simp add: lost_def)
  have l: "\<not> lost now b i" if "i \<in> {1..4}" for i
    using row [of i] that assms(8) by (auto simp: lost_def)
  have "unat (fault_ticks now b i) < 3" if "i < 8" for i
    using row [OF that] assms(9) that
    by (auto simp: fault_ticks_def Let_def unat_word_ariths intro: le_less_trans [OF mod_less_eq_dividend])
  then have "\<not> mandatory_escalation now b"
    by (auto simp: mandatory_escalation_def dest: leD)
  then show ?thesis
    using l0 l [of 1] l [of 2] l [of 3] l [of 4] by (simp add: required_state_eq [OF wf] degradation_matrix_def)
qed

theorem heartbeat_hides_failure_witness:
  "required_state 1050 (update_domain 0 (\<lambda>d. snd (race [1, 1, 0, 0, 0, 1]
     ([InHealth \<lparr>fe_domain = kLidar, fe_health = kFailed, fe_timestampMs = 0, fe_faultCode = 17\<rparr> 1010,
       HbBeat 1010], d))) (sample_arb sample_bridge)) = kFullOperation"
proof -
  have xs: "[1, 1, 0, 0, 0, 1] \<in> shuffles [0, 0, 0] [1, 1, 1 :: nat]" by simp
  have healthy: "\<forall>i \<in> {1..4}. \<not> lost 1050 (sample_arb sample_bridge) i"
    by (auto simp: lost_def timed_out_def)
  have "required_state 1050 (update_domain 0 (\<lambda>d. snd (race [1, 1, 0, 0, 0, 1]
     ([InHealth \<lparr>fe_domain = kLidar, fe_health = kFailed, fe_timestampMs = 0, fe_faultCode = 17\<rparr> 1010,
       HbBeat 1010], d))) (sample_arb sample_bridge))
    = (if report_stands [1, 1, 0, 0, 0, 1] then kRadarCameraFallback else kFullOperation)"
    by (rule heartbeat_hides_failure [OF sample_arb_wf xs _ _ refl _ _ healthy])
      (simp_all add: sample_bridge_facts)
  moreover have "\<not> report_stands [1, 1, 0, 0, 0, 1]" by (simp add: report_stands_def)
  ultimately show ?thesis by (simp only: if_False)
qed

text \<open>The table has eight rows for seven domains, and no event can reach the eighth: in every
  run, each cycle later than 100 ms after \<open>Init\<close> leaves bit 7 of the fault bitmask set and the
  domain failed, so the bitmask sent to the other core is never clear again.\<close>

theorem spare_row_always_faulted:
  assumes "safety_step\<^sup>*\<^sup>* (run_start a') s" "SafetyArbitrator_Init m t0 a = (Ok (), a')" "arb_wf a"
    and "unat t0 + 100 < unat (ct_scan ct)"
  shows "bit (arb_faultBitmask (cycle ct (sr_arb s))) 7 \<and> GetDomainHealth 7 (cycle ct (sr_arb s)) = kFailed"
  using row7_lost [OF row7_reachable [OF assms(1-3)] assms(4)]
  by (simp add: GetDomainHealth_def failed_def)

theorem spare_row_always_faulted_witness:
  "bit (arb_faultBitmask (cycle (sample_times 1200) (sr_arb sample_cycled))) 7"
  using spare_row_always_faulted [OF sample_run, of "sample_times 1200"] by simp

section \<open>Inputs and limits\<close>

text \<open>A sensor-health event is decoded exactly: a payload in the documented layout is the
  fault event that was encoded, whatever follows it; and on every branch the effect is the
  stated one, with nothing but the row of the named domain touched.\<close>

theorem soa_event_ingested:
  assumes "ev_payload ev = encode_fault e @ rest"
  shows "IngestSoaEvent ev now a =
    (if \<not> arb_initialised a then (Err kNotInitialized, a)
     else if unat (ev_payloadLen ev) < 12 \<or> 7 \<le> unat (fe_domain e) then (Err kInvalidArgument, a)
     else (Ok (), a\<lparr>arb_domains := (arb_domains a)[unat (fe_domain e) :=
         (let d = arb_domains a ! unat (fe_domain e); ok = (fe_health e = kNominal)
          in d\<lparr>dom_health := fe_health e, dom_dtcCode := fe_faultCode e,
               dom_faultCount := (if ok then 0 else dom_faultCount d + 1),
               dom_lastHeartbeat := (if ok then now else dom_lastHeartbeat d)\<rparr>)]\<rparr>))"
  using assms
  by (simp add: IngestSoaEvent_def decode_encode_fault IngestFault_def update_domain_def Let_def
      word_less_nat_alt word_le_nat_alt)

theorem soa_event_ingested_witness:
  "fst (IngestSoaEvent (SoaEvent_default\<lparr>ev_payloadLen := 12, ev_payload := encode_fault sample_fault @
     replicate 244 0\<rparr>) 1000 (sample_arb sample_bridge)) = Ok ()"
  by (subst soa_event_ingested [of _ sample_fault "replicate 244 0"]) (simp_all add: sample_fault_def)

text \<open>C15: \<open>GetDomainHealth\<close> returns an enumerator of \<open>SensorHealth\<close> in every state reached by
  reports that carry one, by heartbeats, cycles and link traffic. The arbitrator itself does
  not check this: the health byte of an event is stored as it is, and a sensor whose byte is
  neither \<open>kNominal\<close> nor \<open>kFailed\<close> appears in neither bitmask until it times out.\<close>

theorem health_stays_enumerated:
  assumes "(reported_step (\<lambda>e. health_typed (fe_health e)))\<^sup>*\<^sup>* a' b"
    and "SafetyArbitrator_Init m now a = (Ok (), a')" "arb_wf a"
  shows "health_typed (GetDomainHealth d b) \<and>
    (12 \<le> unat (ev_payloadLen ev) \<and> ev_payload ev ! 0 = k \<and> k < kNumSensorDomains \<longrightarrow>
      (let c = snd (IngestSoaEvent ev t b); v = ev_payload ev ! 1
       in GetDomainHealth k c = v \<and>
          (v \<notin> {kNominal, kFailed} \<longrightarrow> \<not> bit (GetFaultBitmask (UpdateBitmasks c)) (unat k) \<and>
             \<not> bit (GetActiveDomainBitmask (UpdateBitmasks c)) (unat k))))"
proof -
  have rows: "typed_rows.rows b" by (rule typed_rows.rows_reachable [OF assms])
  then have b: "length (arb_domains b) = 8" "arb_initialised b"
    by (simp_all add: typed_rows.rows_def arb_wf_def)
  have "health_typed (GetDomainHealth d b)"
    using typed_rows.rows_nth [OF rows, of "unat d"] by (simp add: GetDomainHealth_def health_typed_def)
  then show ?thesis
    using b unat_less_7 [of k]
    by (auto simp: IngestSoaEvent_def IngestFault_def decode_fault_def Let_def GetDomainHealth_def
        GetFaultBitmask_def GetActiveDomainBitmask_def UpdateBitmasks_bits update_domain_nth
        word_less_nat_alt word_le_nat_alt not_le)
qed

definition odd_health_event :: SoaEvent where
  "odd_health_event = SoaEvent_default\<lparr>ev_payloadLen := 12,
     ev_payload := [0, 77] @ replicate 254 0\<rparr>"

theorem health_stays_enumerated_witness:
  "GetDomainHealth 0 (snd (IngestSoaEvent odd_health_event 1010 (sample_arb sample_bridge))) = 77 \<and>
   \<not> bit (GetFaultBitmask (UpdateBitmasks (snd (IngestSoaEvent odd_health_event 1010
     (sample_arb sample_bridge))))) 0"
  using health_stays_enumerated [OF rtranclp.rtrancl_refl sample_init sample_new_wf [OF sample_bridge_facts(1)],
      of 0 odd_health_event 0 1010]
  by (simp add: odd_health_event_def Let_def)

text \<open>C17: the envelope checks accept a number exactly when it lies within the physical limit, by
  absolute value for steering, deceleration and lateral acceleration; and each of them accepts
  every NaN, since all comparisons with a NaN are false.\<close>

theorem envelope_checks:
  "(ValidateSteeringAngle x = Ok () \<longleftrightarrow> f32_is_nan x \<or> \<bar>f32_val x\<bar> \<le> f32_val kMaxSteeringAngleDeg) \<and>
   (ValidateDeceleration x = Ok () \<longleftrightarrow> f32_is_nan x \<or> \<bar>f32_val x\<bar> \<le> f32_val kMaxLongitudinalDecelMps2) \<and>
   (ValidateLateralAccel x = Ok () \<longleftrightarrow> f32_is_nan x \<or> \<bar>f32_val x\<bar> \<le> f32_val kMaxLateralAccelMps2) \<and>
   (ValidateFrictionCoeff x = Ok () \<longleftrightarrow> f32_is_nan x \<or>
      f32_val kMinFrictionCoeff \<le> f32_val x \<and> f32_val x \<le> f32_val kMaxFrictionCoeff)"
  using ValidateSteeringAngle_iff ValidateDeceleration_iff ValidateLateralAccel_iff
    ValidateFrictionCoeff_iff by blast

end
