(* ===== verification/SramLink.thy ===== *)
theory SramLink
  imports IpcChannel Simulation
begin

text \<open>
  \<open>IpcBridge::Send\<close> (\<open>src/IpcBridge.cpp\<close>) at the grain of single loads and stores. \<open>IpcBridge\<close> treats a
  call as one step; here the other core may act between any two of its memory accesses, and the
  stores of the calling core pass through a buffer that empties in any order that keeps two
  stores to the same place in order. A fence (\<open>std::atomic_thread_fence\<close>, DMB on this core) lets the
  core go on when its buffer is empty. The main result is that each such run is a run of
  \<open>ipc_step\<close>: a call takes effect when its store to \<open>head\<close> reaches memory.
\<close>

section \<open>Stores\<close>

datatype slot_store =
    StServiceId u16 | StEventId u16 | StSessionId u32 | StPayloadLen u8
  | StReserved nat u8 | StPayload nat u8
  | StCounter u8 | StDataId u8 | StLength u16 | StE2eReserved u16 | StCrc u16

text \<open>The effect of a store on the slot it addresses.\<close>

fun put_slot :: "slot_store \<Rightarrow> IpcSlot \<Rightarrow> IpcSlot" where
  "put_slot (StServiceId v) s = s\<lparr>sl_serviceId := v\<rparr>"
| "put_slot (StEventId v) s = s\<lparr>sl_eventId := v\<rparr>"
| "put_slot (StSessionId v) s = s\<lparr>sl_sessionId := v\<rparr>"
| "put_slot (StPayloadLen v) s = s\<lparr>sl_payloadLen := v\<rparr>"
| "put_slot (StReserved i v) s = s\<lparr>sl_reserved := (sl_reserved s)[i := v]\<rparr>"
| "put_slot (StPayload i v) s = s\<lparr>sl_payload := (sl_payload s)[i := v]\<rparr>"
| "put_slot (StCounter v) s = s\<lparr>sl_e2eHeader := (sl_e2eHeader s)\<lparr>e2e_counter := v\<rparr>\<rparr>"
| "put_slot (StDataId v) s = s\<lparr>sl_e2eHeader := (sl_e2eHeader s)\<lparr>e2e_dataId := v\<rparr>\<rparr>"
| "put_slot (StLength v) s = s\<lparr>sl_e2eHeader := (sl_e2eHeader s)\<lparr>e2e_length := v\<rparr>\<rparr>"
| "put_slot (StE2eReserved v) s = s\<lparr>sl_e2eHeader := (sl_e2eHeader s)\<lparr>e2e_reserved := v\<rparr>\<rparr>"
| "put_slot (StCrc v) s = s\<lparr>sl_e2eHeader := (sl_e2eHeader s)\<lparr>e2e_crc := v\<rparr>\<rparr>"

text \<open>The place a store writes, as an offset from the start of the slot.\<close>

fun store_offset :: "slot_store \<Rightarrow> nat" where
  "store_offset (StCrc _) = 0"
| "store_offset (StCounter _) = 2"
| "store_offset (StDataId _) = 3"
| "store_offset (StLength _) = 4"
| "store_offset (StE2eReserved _) = 6"
| "store_offset (StServiceId _) = 8"
| "store_offset (StEventId _) = 10"
| "store_offset (StSessionId _) = 12"
| "store_offset (StPayloadLen _) = 16"
| "store_offset (StReserved i _) = 17 + i"
| "store_offset (StPayload i _) = 20 + i"

text \<open>A store to a slot of the ring, or the store to \<open>head\<close>.\<close>

datatype sram_store = SlotStore nat slot_store | HeadStore u32

fun put_ring :: "sram_store \<Rightarrow> IpcRingBuffer \<Rightarrow> IpcRingBuffer" where
  "put_ring (SlotStore i st) r = r\<lparr>rb_slots := (rb_slots r)[i := put_slot st (rb_slots r ! i)]\<rparr>"
| "put_ring (HeadStore v) r = r\<lparr>rb_head := v\<rparr>"

fun same_place :: "sram_store \<Rightarrow> sram_store \<Rightarrow> bool" where
  "same_place (SlotStore i a) (SlotStore j b) \<longleftrightarrow> i = j \<and> store_offset a = store_offset b"
| "same_place (HeadStore _) (HeadStore _) \<longleftrightarrow> True"
| "same_place _ _ \<longleftrightarrow> False"

text \<open>
  The stores of one call before its CRC, in program order: the fields of the event, \<open>memset\<close> and
  \<open>memcpy\<close> byte by byte, then the header fields of \<open>ApplyE2eHeader\<close>.
\<close>

definition event_stores :: "SoaEvent \<Rightarrow> slot_store list" where
  "event_stores e =
     [StServiceId (ev_serviceId e), StEventId (ev_eventId e), StSessionId (ev_sessionId e),
      StPayloadLen (ev_payloadLen e), StReserved 0 0, StReserved 1 0, StReserved 2 0] @
     map (\<lambda>i. StPayload i 0) [0..<kIpcPayloadBytes] @
     (if ev_payloadLen e > 0
      then map (\<lambda>i. StPayload i (ev_payload e ! i)) [0..<unat (ev_payloadLen e)] else [])"

definition header_stores :: "u8 \<Rightarrow> slot_store list" where
  "header_stores c =
     [StCounter c, StDataId 0x01, StLength (word_of_nat sizeof_IpcSlot), StE2eReserved 0x0000,
      StCrc 0x0000]"

definition send_stores :: "u8 \<Rightarrow> SoaEvent \<Rightarrow> slot_store list" where
  "send_stores c e = event_stores e @ header_stores c"

section \<open>The two cores\<close>

text \<open>
  Where the calling core stands: \<open>PcLoadHead\<close> is past the guards of \<open>Send\<close>, \<open>PcFill\<close> holds the stores
  still to be issued, \<open>PcSeal\<close> computes and stores the CRC, \<open>PcBump\<close> advances the sequence counter,
  the two fences are \<open>PcFenceSlot\<close> and \<open>PcFenceHead\<close>.
\<close>

datatype send_pc =
    PcIdle
  | PcLoadHead SoaEvent
  | PcLoadTail SoaEvent u32
  | PcTestFull SoaEvent u32 u32
  | PcFill SoaEvent u32 "slot_store list"
  | PcSeal SoaEvent u32
  | PcBump SoaEvent u32
  | PcFenceSlot SoaEvent u32
  | PcStoreHead SoaEvent u32
  | PcFenceHead SoaEvent

record sram_link =
  sm_bridge :: IpcBridge
  sm_buffer :: "sram_store list"
  sm_pc :: send_pc
  sm_returned :: "(SoaEvent \<times> VoidResult) list"
  sm_taken :: "IpcSlot list"

definition sram_start :: "IpcBridge \<Rightarrow> sram_link" where
  "sram_start b =
     \<lparr>sm_bridge = b, sm_buffer = [], sm_pc = PcIdle, sm_returned = [], sm_taken = []\<rparr>"

text \<open>The guards of \<open>Send\<close>: a call that fails one returns at once.\<close>

definition send_call :: "SoaEvent \<Rightarrow> sram_link \<Rightarrow> sram_link" where
  "send_call e s =
     (let b = sm_bridge s;
          fail = (\<lambda>x. s\<lparr>sm_returned := sm_returned s @ [(e, Err x)]\<rparr>)
      in if \<not> br_initialised b then fail kNotInitialized
         else case br_ring b of
           None \<Rightarrow> fail kNullPointer
         | Some _ \<Rightarrow>
             if ev_payloadLen e > word_of_nat kIpcPayloadBytes then fail kInvalidArgument
             else s\<lparr>sm_pc := PcLoadHead e\<rparr>)"

text \<open>What the calling core itself reads from a slot: memory overlaid with its own stores.\<close>

definition own_slot :: "sram_store list \<Rightarrow> IpcRingBuffer \<Rightarrow> nat \<Rightarrow> IpcSlot" where
  "own_slot buf r i = rb_slots (fold put_ring buf r) ! i"

text \<open>The next access of the calling core; \<open>None\<close> while it is idle or waits at a fence.\<close>

fun send_next :: "IpcRingBuffer \<Rightarrow> sram_link \<Rightarrow> sram_link option" where
  "send_next r s =
     (case sm_pc s of
        PcIdle \<Rightarrow> None
      | PcLoadHead e \<Rightarrow> Some (s\<lparr>sm_pc := PcLoadTail e (rb_head r)\<rparr>)
      | PcLoadTail e head \<Rightarrow> Some (s\<lparr>sm_pc := PcTestFull e head (rb_tail r)\<rparr>)
      | PcTestFull e head tail \<Rightarrow>
          Some (if u32_mask_next kIpcRingSlotMask head = tail
                then s\<lparr>sm_pc := PcIdle, sm_returned := sm_returned s @ [(e, Err kIpcBufferFull)]\<rparr>
                else s\<lparr>sm_pc := PcFill e head (send_stores (br_seqCounter (sm_bridge s)) e)\<rparr>)
      | PcFill e head [] \<Rightarrow> Some (s\<lparr>sm_pc := PcSeal e head\<rparr>)
      | PcFill e head (st # sts) \<Rightarrow>
          Some (s\<lparr>sm_buffer := sm_buffer s @ [SlotStore (unat head) st], sm_pc := PcFill e head sts\<rparr>)
      | PcSeal e head \<Rightarrow>
          let c = ComputeE2eCrc
                    (Some (drop 2 (IpcSlot_bytes (own_slot (sm_buffer s) r (unat head)))))
                    (word_of_nat (sizeof_IpcSlot - 2))
          in Some (s\<lparr>sm_buffer := sm_buffer s @ [SlotStore (unat head) (StCrc c)],
                     sm_pc := PcBump e head\<rparr>)
      | PcBump e head \<Rightarrow>
          Some (s\<lparr>sm_bridge := (sm_bridge s)\<lparr>br_seqCounter := br_seqCounter (sm_bridge s) + 1\<rparr>,
                  sm_pc := PcFenceSlot e head\<rparr>)
      | PcFenceSlot e head \<Rightarrow>
          if sm_buffer s = [] then Some (s\<lparr>sm_pc := PcStoreHead e head\<rparr>) else None
      | PcStoreHead e head \<Rightarrow>
          Some (s\<lparr>sm_buffer := sm_buffer s @ [HeadStore (u32_mask_next kIpcRingSlotMask head)],
                  sm_pc := PcFenceHead e\<rparr>)
      | PcFenceHead e \<Rightarrow>
          if sm_buffer s = []
          then Some (s\<lparr>sm_pc := PcIdle, sm_returned := sm_returned s @ [(e, Ok ())]\<rparr>) else None)"

declare send_next.simps [simp del]

text \<open>
  A step of the sending core while a call runs: its next access, or one buffered store
  reaching memory ahead of those before it that address other places.
\<close>

inductive core_step :: "sram_link \<Rightarrow> sram_link \<Rightarrow> bool" where
  access: "br_ring (sm_bridge s) = Some r \<Longrightarrow> send_next r s = Some s' \<Longrightarrow> core_step s s'"
| drain: "br_ring (sm_bridge s) = Some r \<Longrightarrow> sm_buffer s = pre @ st # post \<Longrightarrow>
    list_all (\<lambda>st'. \<not> same_place st' st) pre \<Longrightarrow>
    core_step s (s\<lparr>sm_buffer := pre @ post,
                   sm_bridge := (sm_bridge s)\<lparr>br_ring := Some (put_ring st r)\<rparr>\<rparr>)"

text \<open>
  The other core takes the oldest slot when it sees \<open>tail\<close> and \<open>head\<close> in memory differ.
\<close>

inductive m7_step :: "sram_link \<Rightarrow> sram_link \<Rightarrow> bool" where
  take_slot: "br_ring (sm_bridge s) = Some r \<Longrightarrow> rb_tail r \<noteq> rb_head r \<Longrightarrow>
    m7_step s (s\<lparr>sm_bridge := (sm_bridge s)\<lparr>br_ring :=
                    Some (r\<lparr>rb_tail := u32_mask_next kIpcRingSlotMask (rb_tail r)\<rparr>)\<rparr>,
                 sm_taken := sm_taken s @ [rb_slots r ! unat (rb_tail r)]\<rparr>)"

inductive sram_step :: "sram_link \<Rightarrow> sram_link \<Rightarrow> bool" where
  call: "sm_pc s = PcIdle \<Longrightarrow> event_wf e \<Longrightarrow> sram_step s (send_call e s)"
| core: "core_step s s' \<Longrightarrow> sram_step s s'"
| m7: "m7_step s s' \<Longrightarrow> sram_step s s'"

inductive_cases core_stepE: "core_step s s'"
inductive_cases m7_stepE: "m7_step s s'"
inductive_cases sram_stepE: "sram_step s s'"

section \<open>Stores to different places commute\<close>

lemma put_slot_commute:
  "store_offset a \<noteq> store_offset b \<Longrightarrow> put_slot a (put_slot b s) = put_slot b (put_slot a s)"
  by (cases a; cases b; cases s) (auto simp: list_update_swap)

lemma slot_wf_put_slot [simp]: "slot_wf (put_slot st s) = slot_wf s"
  by (cases st) (simp_all add: slot_wf_def)

lemma put_ring_commute:
  assumes "\<not> same_place a b"
  shows "put_ring b (put_ring a r) = put_ring a (put_ring b r)"
proof (cases a; cases b)
  fix i x j y
  assume ab: "a = SlotStore i x" "b = SlotStore j y"
  show ?thesis
  proof (cases "i = j")
    case True
    then have "put_slot x (put_slot y s) = put_slot y (put_slot x s)" for s
      using assms ab by (intro put_slot_commute) simp
    then show ?thesis
      using ab True by (cases "i < length (rb_slots r)") (simp_all add: list_update_beyond)
  next
    case False
    then show ?thesis using ab by (simp add: list_update_swap)
  qed
qed (use assms in auto)

text \<open>A store that leaves the buffer early has, for its own core, the effect it had in order.\<close>

lemma fold_put_ring_early:
  "list_all (\<lambda>st'. \<not> same_place st' st) pre \<Longrightarrow>
     fold put_ring (pre @ post) (put_ring st r) = fold put_ring (pre @ st # post) r"
proof (induction pre arbitrary: r)
  case (Cons a pre)
  then have "put_ring a (put_ring st r) = put_ring st (put_ring a r)"
    by (simp add: put_ring_commute)
  then show ?case using Cons by simp
qed simp

lemma put_ring_tail: "put_ring st (r\<lparr>rb_tail := t\<rparr>) = (put_ring st r)\<lparr>rb_tail := t\<rparr>"
  by (cases st) simp_all

lemma own_slot_Nil [simp]: "own_slot [] r i = rb_slots r ! i"
  by (simp add: own_slot_def)

lemma own_slot_tail [simp]: "own_slot buf (r\<lparr>rb_tail := t\<rparr>) i = own_slot buf r i"
proof -
  have "fold put_ring buf (r\<lparr>rb_tail := t\<rparr>) = (fold put_ring buf r)\<lparr>rb_tail := t\<rparr>"
    by (induction buf arbitrary: r) (simp_all add: put_ring_tail)
  then show ?thesis by (simp add: own_slot_def)
qed

lemma own_slot_drain:
  "list_all (\<lambda>st'. \<not> same_place st' st) pre \<Longrightarrow>
     own_slot (pre @ post) (put_ring st r) i = own_slot (pre @ st # post) r i"
  by (simp only: own_slot_def fold_put_ring_early)

lemma length_put_ring [simp]: "length (rb_slots (put_ring st r)) = length (rb_slots r)"
  by (cases st) simp_all

lemma length_fold_put_ring [simp]: "length (rb_slots (fold put_ring buf r)) = length (rb_slots r)"
  by (induction buf arbitrary: r) simp_all

lemma own_slot_snoc:
  "i < length (rb_slots r) \<Longrightarrow>
     own_slot (buf @ [SlotStore i st]) r i = put_slot st (own_slot buf r i)"
  by (simp add: own_slot_def)

lemma slots_wf_put_ring:
  "list_all slot_wf (rb_slots r) \<Longrightarrow> list_all slot_wf (rb_slots (put_ring st r))"
proof (cases st)
  case (SlotStore i x)
  assume "list_all slot_wf (rb_slots r)"
  then show ?thesis
    using SlotStore
    by (cases "i < length (rb_slots r)")
      (auto simp: list_all_length nth_list_update list_update_beyond)
qed simp

section \<open>The stores of a call write the frame of the event\<close>

lemma fold_bytes:
  "fold put_slot (map (\<lambda>i. StPayload i (f i)) is) s
     = s\<lparr>sl_payload := fold (\<lambda>i xs. xs[i := f i]) is (sl_payload s)\<rparr>"
  by (induction "is" arbitrary: s) simp_all

lemma fold_list_update:
  "n \<le> length xs \<Longrightarrow> fold (\<lambda>i xs. xs[i := f i]) [0..<n] xs = map f [0..<n] @ drop n xs"
proof (induction n)
  case (Suc n)
  then have "drop n xs = xs ! n # drop (Suc n) xs"
    by (simp add: Cons_nth_drop_Suc)
  with Suc show ?case by (simp add: list_update_append)
qed simp

lemma event_bytes:
  assumes "event_wf e" "unat (ev_payloadLen e) \<le> 128" "length xs = 128"
  shows "fold (\<lambda>i xs. xs[i := ev_payload e ! i]) [0..<unat (ev_payloadLen e)]
      (fold (\<lambda>i xs. xs[i := 0]) [0..<128] xs) = ipc_payload e"
proof -
  have "map (\<lambda>i. ev_payload e ! i) [0..<unat (ev_payloadLen e)]
      = take (unat (ev_payloadLen e)) (ev_payload e)"
    using assms by (intro nth_equalityI) (simp_all add: event_wf_def)
  then show ?thesis
    using assms by (simp add: fold_list_update ipc_payload_def map_replicate_const)
qed

lemma fold_send_stores:
  assumes "event_wf e" "unat (ev_payloadLen e) \<le> 128" "slot_wf s"
  shows "fold put_slot (send_stores c e) s = ipc_frame c e"
proof -
  have len: "length (sl_payload s) = 128" "length (sl_reserved s) = 3"
    using assms(3) by (simp_all add: slot_wf_def)
  then obtain a b d where "sl_reserved s = [a, b, d]"
    by (auto simp: numeral_eq_Suc length_Suc_conv)
  then show ?thesis
    using event_bytes [OF assms(1,2) len(1)]
    by (cases "unat (ev_payloadLen e) = 0")
      (simp_all add: send_stores_def event_stores_def header_stores_def fold_bytes ipc_frame_def
        word_gt_0 unat_eq_0)
qed

section \<open>The simulation\<close>

text \<open>
  The events whose slots are published: those whose call returned \<open>Ok\<close>, and the one whose call
  waits at the last fence while its store to \<open>head\<close> is already in memory.
\<close>

definition published :: "sram_link \<Rightarrow> SoaEvent list" where
  "published s = map fst (filter (res_ok \<circ> snd) (sm_returned s)) @
     (case sm_pc s of PcFenceHead e \<Rightarrow> (if sm_buffer s = [] then [e] else []) | _ \<Rightarrow> [])"

lemma published_memory [simp]:
  "published (s\<lparr>sm_bridge := b\<rparr>) = published s" "published (s\<lparr>sm_taken := ms\<rparr>) = published s"
  by (cases "sm_pc s"; simp add: published_def)+

definition sendable :: "SoaEvent \<Rightarrow> bool" where
  "sendable e \<longleftrightarrow> event_wf e \<and> unat (ev_payloadLen e) \<le> 128"

text \<open>While a call fills its slot: the slot is not in the queue, and only stores to it are buffered.\<close>

definition filling :: "IpcRingBuffer \<Rightarrow> sram_store list \<Rightarrow> SoaEvent \<Rightarrow> u32 \<Rightarrow> bool" where
  "filling r buf e h \<longleftrightarrow> sendable e \<and> h = rb_head r \<and>
     u32_mask_next kIpcRingSlotMask h \<noteq> rb_tail r \<and>
     list_all (\<lambda>st. \<exists>x. st = SlotStore (unat h) x) buf"

text \<open>What holds at each place of a call that stamps its slot with the counter \<open>c\<close>.\<close>

fun pc_ok :: "u8 \<Rightarrow> IpcRingBuffer \<Rightarrow> sram_store list \<Rightarrow> send_pc \<Rightarrow> bool" where
  "pc_ok c r buf PcIdle \<longleftrightarrow> buf = []"
| "pc_ok c r buf (PcLoadHead e) \<longleftrightarrow> buf = [] \<and> sendable e"
| "pc_ok c r buf (PcLoadTail e h) \<longleftrightarrow> buf = [] \<and> sendable e \<and> h = rb_head r"
| "pc_ok c r buf (PcTestFull e h t) \<longleftrightarrow> buf = [] \<and> sendable e \<and> h = rb_head r \<and>
     (u32_mask_next kIpcRingSlotMask h \<noteq> t \<longrightarrow> u32_mask_next kIpcRingSlotMask h \<noteq> rb_tail r)"
| "pc_ok c r buf (PcFill e h sts) \<longleftrightarrow> filling r buf e h \<and>
     fold put_slot sts (own_slot buf r (unat h)) = ipc_frame c e"
| "pc_ok c r buf (PcSeal e h) \<longleftrightarrow> filling r buf e h \<and> own_slot buf r (unat h) = ipc_frame c e"
| "pc_ok c r buf (PcBump e h) \<longleftrightarrow> filling r buf e h \<and> own_slot buf r (unat h) = ipc_slot c e"
| "pc_ok c r buf (PcFenceSlot e h) \<longleftrightarrow> filling r buf e h \<and> own_slot buf r (unat h) = ipc_slot c e"
| "pc_ok c r buf (PcStoreHead e h) \<longleftrightarrow> filling r buf e h \<and> buf = [] \<and>
     rb_slots r ! unat h = ipc_slot c e"
| "pc_ok c r buf (PcFenceHead e) \<longleftrightarrow> buf = [] \<or>
     (filling r [] e (rb_head r) \<and> rb_slots r ! unat (rb_head r) = ipc_slot c e \<and>
      buf = [HeadStore (u32_mask_next kIpcRingSlotMask (rb_head r))])"

text \<open>The counter is one ahead between its increment and the publication of the slot.\<close>

fun counter_ahead :: "sram_store list \<Rightarrow> send_pc \<Rightarrow> bool" where
  "counter_ahead buf (PcFenceSlot _ _) \<longleftrightarrow> True"
| "counter_ahead buf (PcStoreHead _ _) \<longleftrightarrow> True"
| "counter_ahead buf (PcFenceHead _) \<longleftrightarrow> buf \<noteq> []"
| "counter_ahead buf _ \<longleftrightarrow> False"

text \<open>The two rings agree but for the free slot at \<open>head\<close>.\<close>

definition ring_sim :: "IpcRingBuffer \<Rightarrow> IpcRingBuffer \<Rightarrow> bool" where
  "ring_sim r q \<longleftrightarrow> ring_wf r \<and> ring_wf q \<and> list_all slot_wf (rb_slots r) \<and>
     rb_head r = rb_head q \<and> rb_tail r = rb_tail q \<and>
     (\<forall>i < 32. i \<noteq> unat (rb_head q) \<longrightarrow> rb_slots r ! i = rb_slots q ! i)"

definition sram_sim :: "sram_link \<Rightarrow> ipc_link \<Rightarrow> bool" where
  "sram_sim s l \<longleftrightarrow> link_inv l \<and> lk_taken l = sm_taken s \<and> lk_sent l = published s \<and>
     br_initialised (sm_bridge s) \<and>
     br_seqCounter (sm_bridge s) =
       br_seqCounter (lk_bridge l) + (if counter_ahead (sm_buffer s) (sm_pc s) then 1 else 0) \<and>
     (\<exists>r q. br_ring (sm_bridge s) = Some r \<and> br_ring (lk_bridge l) = Some q \<and> ring_sim r q \<and>
        pc_ok (br_seqCounter (lk_bridge l)) r (sm_buffer s) (sm_pc s))"

lemma ring_simD:
  assumes "ring_sim r q"
  shows "rb_head r = rb_head q" "rb_tail r = rb_tail q" "ring_wf r" "ring_wf q"
    "length (rb_slots r) = 32" "unat (rb_head r) < 32" "unat (rb_tail r) < 32"
    "list_all slot_wf (rb_slots r)"
  using assms by (auto simp: ring_sim_def ring_wf_def)

lemma ring_sim_put_slot:
  assumes "ring_sim r q"
  shows "ring_sim (put_ring (SlotStore (unat (rb_head r)) st) r) q"
  using assms slots_wf_put_ring [of r "SlotStore (unat (rb_head r)) st"]
  by (auto simp: ring_sim_def ring_wf_def)

lemma ring_sim_tail:
  "ring_sim r q \<Longrightarrow> unat t < 32 \<Longrightarrow> ring_sim (r\<lparr>rb_tail := t\<rparr>) (q\<lparr>rb_tail := t\<rparr>)"
  by (simp add: ring_sim_def ring_wf_def)

lemma ring_sim_nth:
  "ring_sim r q \<Longrightarrow> i < 32 \<Longrightarrow> i \<noteq> unat (rb_head q) \<Longrightarrow> rb_slots r ! i = rb_slots q ! i"
  by (simp add: ring_sim_def)

lemma ring_sim_pending: "ring_sim r q \<Longrightarrow> ring_pending r = ring_pending q"
proof -
  assume sim: "ring_sim r q"
  note d = ring_simD [OF sim]
  have "rb_slots r ! ((unat (rb_tail q) + k) mod 32) = rb_slots q ! ((unat (rb_tail q) + k) mod 32)"
    if "k < (unat (rb_head q) + 32 - unat (rb_tail q)) mod 32" for k
    using ring_slot_ne_head [of "unat (rb_tail q)" 32 "unat (rb_head q)" k] that d
    by (intro ring_sim_nth [OF sim]) simp_all
  then show ?thesis
    using d by (simp add: ring_pending_def ring_list_def)
qed

lemma ring_sim_publish:
  assumes "ring_sim r q" "rb_slots r ! unat (rb_head r) = s" "unat n < 32"
  shows "ring_sim (r\<lparr>rb_head := n\<rparr>)
    (q\<lparr>rb_slots := (rb_slots q)[unat (rb_head q) := s], rb_head := n\<rparr>)"
  using assms by (auto simp: ring_sim_def ring_wf_def nth_list_update)

text \<open>The parts of the simulation, for a state with its two rings at hand.\<close>

lemma sram_simE:
  assumes "sram_sim s l" "br_ring (sm_bridge s) = Some r"
  obtains q where "br_ring (lk_bridge l) = Some q" "ring_sim r q"
    "pc_ok (br_seqCounter (lk_bridge l)) r (sm_buffer s) (sm_pc s)"
  using assms by (auto simp: sram_sim_def)

lemma sram_simI:
  assumes "link_inv l" "lk_taken l = sm_taken s" "lk_sent l = published s"
    "br_initialised (sm_bridge s)" "br_ring (sm_bridge s) = Some r" "br_ring (lk_bridge l) = Some q"
    "br_seqCounter (sm_bridge s) =
       br_seqCounter (lk_bridge l) + (if counter_ahead (sm_buffer s) (sm_pc s) then 1 else 0)"
    "ring_sim r q" "pc_ok (br_seqCounter (lk_bridge l)) r (sm_buffer s) (sm_pc s)"
  shows "sram_sim s l"
  using assms by (simp add: sram_sim_def)

lemma sim_call:
  assumes "sram_sim s l" "sm_pc s = PcIdle" "event_wf e"
  shows "sram_sim (send_call e s) l"
  using assms payloadLen_le [of e]
  by (auto simp: sram_sim_def send_call_def Let_def published_def sendable_def not_less
      split: option.splits)

lemma fill_done:
  assumes "filling r buf e h" "ring_sim r q"
  shows "own_slot (buf @ [SlotStore (unat h) st]) r (unat h) = put_slot st (own_slot buf r (unat h))"
    and "filling r (buf @ [SlotStore (unat h) st]) e h"
  using assms ring_simD [OF assms(2)] by (auto simp: own_slot_snoc filling_def)

lemma seal_frame:
  "sendable e \<Longrightarrow>
     put_slot (StCrc (ComputeE2eCrc (Some (drop 2 (IpcSlot_bytes (ipc_frame c e)))) 146)) (ipc_frame c e)
       = ipc_slot c e"
  using ComputeE2eCrc_slot [OF slot_wf_ipc_frame [of e c]] by (simp add: sendable_def ipc_slot_def)

lemma sim_access:
  assumes sim: "sram_sim s l" and r: "br_ring (sm_bridge s) = Some r" and step: "send_next r s = Some s'"
  shows "sram_sim s' l"
proof -
  obtain q where q: "br_ring (lk_bridge l) = Some q" "ring_sim r q"
    and ok: "pc_ok (br_seqCounter (lk_bridge l)) r (sm_buffer s) (sm_pc s)"
    using sram_simE [OF sim r] .
  note d = ring_simD [OF q(2)]
  have l: "link_inv l" "lk_taken l = sm_taken s" "lk_sent l = published s"
    "br_initialised (sm_bridge s)" and c: "br_seqCounter (sm_bridge s) =
       br_seqCounter (lk_bridge l) + (if counter_ahead (sm_buffer s) (sm_pc s) then 1 else 0)"
    using sim by (simp_all add: sram_sim_def)
  show ?thesis
  proof (cases "sm_pc s")
    case (PcTestFull e h t)
    then have "slot_wf (rb_slots r ! unat h)"
      using ok d by (simp add: list_all_length)
    then show ?thesis
      using PcTestFull ok step l c r q fold_send_stores [of e "rb_slots r ! unat h"]
      by (intro sram_simI [where r = r and q = q])
        (auto simp: send_next.simps published_def filling_def sendable_def split: if_splits)
  next
    case (PcFill e h sts)
    then show ?thesis
      using ok step l c r q fill_done [OF _ q(2), of "sm_buffer s" e h]
      by (intro sram_simI [where r = r and q = q])
        (cases sts; auto simp: send_next.simps published_def)+
  next
    case (PcSeal e h)
    then have "filling r (sm_buffer s) e h" "sendable e"
      using ok by (auto simp: filling_def)
    then show ?thesis
      using PcSeal ok step l c r q fill_done [OF _ q(2), of "sm_buffer s" e h] seal_frame [of e]
      by (intro sram_simI [where r = r and q = q])
        (auto simp: send_next.simps published_def)
  qed (use ok step l c r q in \<open>auto intro!: sram_simI [where r = r and q = q]
      simp: send_next.simps published_def filling_def split: if_splits\<close>)
qed

lemma filling_slot:
  "filling r (pre @ SlotStore i st # post) e h \<Longrightarrow> i = unat (rb_head r)"
  by (auto simp: filling_def)

lemma sim_drain_slot:
  assumes sim: "sram_sim s l" and r: "br_ring (sm_bridge s) = Some r"
    and buf: "sm_buffer s = pre @ SlotStore i st # post"
    and early: "list_all (\<lambda>st'. \<not> same_place st' (SlotStore i st)) pre"
  shows "sram_sim (s\<lparr>sm_buffer := pre @ post, sm_bridge := (sm_bridge s)\<lparr>br_ring :=
      Some (put_ring (SlotStore i st) r)\<rparr>\<rparr>) l"
proof -
  let ?r = "put_ring (SlotStore i st) r"
  obtain q where q: "br_ring (lk_bridge l) = Some q" "ring_sim r q"
    and ok: "pc_ok (br_seqCounter (lk_bridge l)) r (sm_buffer s) (sm_pc s)"
    using sram_simE [OF sim r] .
  have i: "i = unat (rb_head r)" and pc: "\<forall>e. sm_pc s \<noteq> PcFenceHead e"
    using ok filling_slot [of r pre i st post] unfolding buf
    by (cases "sm_pc s"; fastforce simp: append_eq_Cons_conv)+
  have own: "own_slot (pre @ post) ?r j = own_slot (sm_buffer s) r j" for j
    unfolding buf by (rule own_slot_drain [OF early])
  have fill: "filling ?r (pre @ post) e h" if "filling r (sm_buffer s) e h" for e h
    using that by (auto simp: filling_def buf)
  have "pc_ok (br_seqCounter (lk_bridge l)) ?r (pre @ post) (sm_pc s)"
    using ok pc buf by (cases "sm_pc s") (auto simp: own fill simp del: put_ring.simps)
  then show ?thesis
    using sim r q ring_sim_put_slot [OF q(2), of st] i pc
    by (intro sram_simI [where r = ?r and q = q])
      (cases "sm_pc s"; auto simp: sram_sim_def published_def simp del: put_ring.simps)+
qed

lemma unat_next_less: "unat i < 32 \<Longrightarrow> unat (u32_mask_next kIpcRingSlotMask i) < 32"
  by (rule ipc_ring.pos_next_less) simp

text \<open>The store to \<open>head\<close> reaches memory: the call takes effect.\<close>

lemma sim_drain_head:
  assumes sim: "sram_sim s l" and r: "br_ring (sm_bridge s) = Some r"
    and buf: "sm_buffer s = pre @ HeadStore v # post"
  obtains l' where "ipc_step l l'"
    "sram_sim (s\<lparr>sm_buffer := pre @ post, sm_bridge := (sm_bridge s)\<lparr>br_ring :=
      Some (put_ring (HeadStore v) r)\<rparr>\<rparr>) l'"
proof -
  obtain q where q: "br_ring (lk_bridge l) = Some q" "ring_sim r q"
    and ok: "pc_ok (br_seqCounter (lk_bridge l)) r (sm_buffer s) (sm_pc s)"
    using sram_simE [OF sim r] .
  note d = ring_simD [OF q(2)]
  let ?c = "br_seqCounter (lk_bridge l)" and ?n = "u32_mask_next kIpcRingSlotMask (rb_head q)"
  obtain e where e: "sm_pc s = PcFenceHead e" and f: "filling r [] e (rb_head r)"
    and slot: "rb_slots r ! unat (rb_head r) = ipc_slot ?c e" and v: "pre = []" "post = []" "v = ?n"
    using ok buf d(1) by (cases "sm_pc s") (auto simp: filling_def append_eq_Cons_conv)
  have inv: "link_inv l" "br_initialised (lk_bridge l)" and wf: "event_wf e" "unat (ev_payloadLen e) \<le> 128"
    using sim f by (auto simp: sram_sim_def link_inv_def filling_def sendable_def)
  let ?q = "q\<lparr>rb_slots := (rb_slots q)[unat (rb_head q) := ipc_slot ?c e], rb_head := ?n\<rparr>"
  let ?b = "(lk_bridge l)\<lparr>br_seqCounter := ?c + 1, br_ring := Some ?q\<rparr>"
  have nf: "?n \<noteq> rb_tail q"
    using f d by (simp add: filling_def)
  have "IpcBridge_Send e (lk_bridge l) = (Ok (), ?b)"
    using Send_eq [OF q(1) inv(2) wf(1)] wf(2) nf by simp
  from produce [OF wf(1) this] have st: "ipc_step l (l\<lparr>lk_bridge := ?b, lk_sent := lk_sent l @ [e]\<rparr>)"
    by simp
  have "ring_sim (r\<lparr>rb_head := ?n\<rparr>) ?q"
    using ring_sim_publish [OF q(2) slot unat_next_less] d by simp
  then have "sram_sim (s\<lparr>sm_buffer := pre @ post, sm_bridge := (sm_bridge s)\<lparr>br_ring :=
      Some (put_ring (HeadStore v) r)\<rparr>\<rparr>) (l\<lparr>lk_bridge := ?b, lk_sent := lk_sent l @ [e]\<rparr>)"
    using sim link_inv_step [OF st inv(1)] e v buf
    by (intro sram_simI [where r = "r\<lparr>rb_head := ?n\<rparr>" and q = ?q])
      (auto simp: sram_sim_def published_def)
  with st show thesis by (rule that)
qed

lemma sim_take:
  assumes sim: "sram_sim s l" and r: "br_ring (sm_bridge s) = Some r" and ne: "rb_tail r \<noteq> rb_head r"
  obtains l' where "ipc_step l l'"
    "sram_sim (s\<lparr>sm_bridge := (sm_bridge s)\<lparr>br_ring :=
        Some (r\<lparr>rb_tail := u32_mask_next kIpcRingSlotMask (rb_tail r)\<rparr>)\<rparr>,
      sm_taken := sm_taken s @ [rb_slots r ! unat (rb_tail r)]\<rparr>) l'"
proof -
  obtain q where q: "br_ring (lk_bridge l) = Some q" "ring_sim r q"
    and ok: "pc_ok (br_seqCounter (lk_bridge l)) r (sm_buffer s) (sm_pc s)"
    using sram_simE [OF sim r] .
  note d = ring_simD [OF q(2)]
  let ?t = "u32_mask_next kIpcRingSlotMask (rb_tail q)"
  let ?l = "l\<lparr>lk_bridge := (lk_bridge l)\<lparr>br_ring := Some (q\<lparr>rb_tail := ?t\<rparr>)\<rparr>,
      lk_taken := lk_taken l @ [rb_slots q ! unat (rb_tail q)]\<rparr>"
  have ne': "rb_tail q \<noteq> rb_head q" using ne d by simp
  have st: "ipc_step l ?l" by (rule consume [OF q(1) ne'])
  have slot: "rb_slots r ! unat (rb_tail r) = rb_slots q ! unat (rb_tail q)"
    using ring_sim_nth [OF q(2), of "unat (rb_tail q)"] ne' d by (simp add: word_unat_eq_iff)
  have next_ne: "u32_mask_next kIpcRingSlotMask (rb_head r) \<noteq> ?t"
    using ne' d ipc_ring.next_idx_inj [of "rb_head q" "rb_tail q"] by simp
  have "pc_ok (br_seqCounter (lk_bridge l)) (r\<lparr>rb_tail := ?t\<rparr>) (sm_buffer s) (sm_pc s)"
    using ok next_ne by (cases "sm_pc s") (auto simp: filling_def)
  moreover have "ring_sim (r\<lparr>rb_tail := ?t\<rparr>) (q\<lparr>rb_tail := ?t\<rparr>)"
    using ring_sim_tail [OF q(2) unat_next_less] d by simp
  ultimately have "sram_sim (s\<lparr>sm_bridge := (sm_bridge s)\<lparr>br_ring :=
        Some (r\<lparr>rb_tail := u32_mask_next kIpcRingSlotMask (rb_tail r)\<rparr>)\<rparr>,
      sm_taken := sm_taken s @ [rb_slots r ! unat (rb_tail r)]\<rparr>) ?l"
    using sim link_inv_step [OF st] slot d
    by (intro sram_simI [where r = "r\<lparr>rb_tail := ?t\<rparr>" and q = "q\<lparr>rb_tail := ?t\<rparr>"])
      (simp_all add: sram_sim_def)
  with st show thesis by (rule that)
qed

lemma sim_core:
  assumes "core_step s s'" "sram_sim s l"
  shows "\<exists>l'. ipc_step\<^sup>*\<^sup>* l l' \<and> sram_sim s' l'"
  using assms(1)
proof (rule core_stepE)
  fix r
  assume "br_ring (sm_bridge s) = Some r" "send_next r s = Some s'"
  then have "sram_sim s' l" by (rule sim_access [OF assms(2)])
  then show ?thesis by blast
next
  fix r pre st post
  assume r: "br_ring (sm_bridge s) = Some r" and buf: "sm_buffer s = pre @ st # post"
    and early: "list_all (\<lambda>st'. \<not> same_place st' st) pre"
    and s': "s' = s\<lparr>sm_buffer := pre @ post,
      sm_bridge := (sm_bridge s)\<lparr>br_ring := Some (put_ring st r)\<rparr>\<rparr>"
  show ?thesis
  proof (cases st)
    case (SlotStore i x)
    then show ?thesis
      using sim_drain_slot [OF assms(2) r, of pre i x post] buf early s' by blast
  next
    case (HeadStore v)
    then obtain l' where "ipc_step l l'" "sram_sim s' l'"
      using sim_drain_head [OF assms(2) r, of pre v post] buf s' by blast
    then show ?thesis by blast
  qed
qed

lemma sim_m7:
  assumes "m7_step s s'" "sram_sim s l"
  shows "\<exists>l'. ipc_step\<^sup>*\<^sup>* l l' \<and> sram_sim s' l'"
  using assms(1)
proof cases
  case (take_slot r)
  obtain l' where "ipc_step l l'" "sram_sim s' l'"
    using sim_take [OF assms(2) take_slot(2,3)] take_slot(1) by blast
  then show ?thesis by blast
qed

lemma sim_step:
  "sram_sim s l \<Longrightarrow> sram_step s s' \<Longrightarrow> \<exists>l'. ipc_step\<^sup>*\<^sup>* l l' \<and> sram_sim s' l'"
  by (auto elim!: sram_stepE intro: sim_core sim_m7 sim_call)

text \<open>What the two cores can see of the link: the slots taken, those waiting, those published.\<close>

definition sram_view :: "sram_link \<Rightarrow> IpcSlot list \<times> IpcSlot list \<times> SoaEvent list" where
  "sram_view s = (sm_taken s, br_pending (sm_bridge s), published s)"

definition link_view :: "ipc_link \<Rightarrow> IpcSlot list \<times> IpcSlot list \<times> SoaEvent list" where
  "link_view l = (lk_taken l, br_pending (lk_bridge l), lk_sent l)"

lemma sim_view: "sram_sim s l \<Longrightarrow> sram_view s = link_view l"
  using ring_sim_pending by (auto simp: sram_sim_def sram_view_def link_view_def br_pending_def)

interpretation sram: forward_simulation sram_step ipc_step sram_sim sram_view link_view
  by unfold_locales (auto intro: sim_step sim_view)

lemma sim_start:
  assumes "IpcBridge_Init b0 = (Ok (), b)"
  shows "sram_sim (sram_start b) (link_start b)"
proof -
  obtain r where r: "br_ring b = Some r" "rb_slots r = replicate 32 IpcSlot_zero"
    using assms by (auto simp: Init_cases split: if_splits)
  moreover have "slot_wf IpcSlot_zero"
    by (simp add: slot_wf_def IpcSlot_zero_def)
  moreover have "bridge_wf b" "br_initialised b"
    using Init_empty [OF assms] by simp_all
  ultimately show ?thesis
    using link_inv_start [OF assms]
    by (intro sram_simI [where r = r and q = r])
      (auto simp: sram_start_def link_start_def published_def ring_sim_def bridge_wf_def
        list_all_length)
qed

lemma sim_reachable:
  assumes "sram_step\<^sup>*\<^sup>* (sram_start b) s" "IpcBridge_Init b0 = (Ok (), b)"
  shows "\<exists>l. ipc_step\<^sup>*\<^sup>* (link_start b) l \<and> sram_sim s l"
  by (rule sram.matched_run [OF assms(1) sim_start [OF assms(2)]])

section \<open>A call ends\<close>

text \<open>
  The number of accesses and drains a running call has left, whatever the other core does.
\<close>

fun accesses_left :: "send_pc \<Rightarrow> nat" where
  "accesses_left PcIdle = 0"
| "accesses_left (PcFenceHead _) = 1"
| "accesses_left (PcStoreHead _ _) = 3"
| "accesses_left (PcFenceSlot _ _) = 4"
| "accesses_left (PcBump _ _) = 5"
| "accesses_left (PcSeal _ _) = 7"
| "accesses_left (PcFill _ _ sts) = 8 + 2 * length sts"
| "accesses_left (PcTestFull e _ _) = 9 + 2 * length (send_stores 0 e)"
| "accesses_left (PcLoadTail e _) = 10 + 2 * length (send_stores 0 e)"
| "accesses_left (PcLoadHead e) = 11 + 2 * length (send_stores 0 e)"

definition steps_left :: "sram_link \<Rightarrow> nat" where
  "steps_left s = accesses_left (sm_pc s) + length (sm_buffer s)"

lemma length_send_stores:
  "length (send_stores c e) = 140 + unat (ev_payloadLen e)"
  by (simp add: send_stores_def event_stores_def header_stores_def word_gt_0 unat_eq_0)

lemma core_step_decreases: "core_step s s' \<Longrightarrow> steps_left s' < steps_left s"
proof (elim core_stepE)
  fix r
  assume "send_next r s = Some s'"
  then show ?thesis
    by (cases "sm_pc s"; (cases "\<exists>e h sts. sm_pc s = PcFill e h sts")?)
      (auto simp: send_next.simps steps_left_def length_send_stores split: if_splits list.splits)
qed (simp add: steps_left_def)

lemma m7_step_leaves: "m7_step s s' \<Longrightarrow> steps_left s' = steps_left s \<and> sm_pc s' = sm_pc s"
  by (auto elim!: m7_stepE simp: steps_left_def)

lemma core_step_enabled:
  assumes "sram_sim s l" "sm_pc s \<noteq> PcIdle"
  shows "\<exists>s'. core_step s s'"
proof -
  obtain r where r: "br_ring (sm_bridge s) = Some r"
    using assms(1) by (auto simp: sram_sim_def)
  show ?thesis
  proof (cases "sm_buffer s")
    case Nil
    then have "send_next r s \<noteq> None"
      using assms(2) by (cases "sm_pc s") (auto simp: send_next.simps split: list.splits)
    then obtain s' where "send_next r s = Some s'" by blast
    then show ?thesis using access [OF r] by blast
  next
    case (Cons st post)
    then show ?thesis using drain [OF r, of "[]" st post] by auto
  qed
qed

lemma call_steps_left:
  assumes "sram_sim s l" "sm_pc s = PcIdle"
  shows "steps_left (send_call e s) \<le> 547"
  using assms payloadLen_le [of e]
  by (auto simp: send_call_def Let_def steps_left_def length_send_stores sram_sim_def
      split: option.splits)

lemma steps_left_bound:
  assumes "sram_step\<^sup>*\<^sup>* (sram_start b) s" "IpcBridge_Init b0 = (Ok (), b)"
  shows "steps_left s \<le> 547"
  using assms(1)
proof induction
  case base
  then show ?case by (simp add: steps_left_def sram_start_def)
next
  case (step s s')
  obtain l where "sram_sim s l"
    using sim_reachable [OF step.hyps(1) assms(2)] by blast
  with step show ?case
    using call_steps_left core_step_decreases m7_step_leaves by (fastforce elim!: sram_stepE)
qed

interpretation send_run: bounded_run core_step "\<lambda>s. sm_pc s = PcIdle" "\<lambda>s. \<exists>l. sram_sim s l" steps_left
  by unfold_locales (erule core_step_decreases, blast intro: core_step_enabled, blast dest: sim_core)

text \<open>The same with any number of the other core's steps before each step of the call.\<close>

lemma sim_m7_run: "m7_step\<^sup>*\<^sup>* s s' \<Longrightarrow> sram_sim s l \<Longrightarrow> \<exists>l'. sram_sim s' l'"
  by (induction rule: rtranclp_induct) (blast dest: sim_m7)+

lemma m7_run_leaves: "m7_step\<^sup>*\<^sup>* s s' \<Longrightarrow> steps_left s' = steps_left s"
  by (induction rule: rtranclp_induct) (simp_all add: m7_step_leaves)

interpretation mixed_run: bounded_run "m7_step\<^sup>*\<^sup>* OO core_step" "\<lambda>s. sm_pc s = PcIdle"
    "\<lambda>s. \<exists>l. sram_sim s l" steps_left
proof unfold_locales
  fix s s'
  assume "(m7_step\<^sup>*\<^sup>* OO core_step) s s'"
  then show "steps_left s' < steps_left s"
    using m7_run_leaves core_step_decreases by fastforce
next
  fix s
  assume "\<exists>l. sram_sim s l" "sm_pc s \<noteq> PcIdle"
  then show "\<exists>s'. (m7_step\<^sup>*\<^sup>* OO core_step) s s'"
    using core_step_enabled by blast
next
  fix s s'
  assume "\<exists>l. sram_sim s l" "(m7_step\<^sup>*\<^sup>* OO core_step) s s'"
  then show "\<exists>l. sram_sim s' l"
    by (elim exE relcomppE) (blast dest: sim_m7_run sim_core)
qed

section \<open>A call that runs alone\<close>

text \<open>
  Where a call for \<open>e\<close> that began with the bridge \<open>b\<close> stands while the other core is silent.
\<close>

fun alone_pc :: "IpcBridge \<Rightarrow> SoaEvent \<Rightarrow> send_pc \<Rightarrow> bool" where
  "alone_pc b e PcIdle \<longleftrightarrow> False"
| "alone_pc b e (PcLoadHead f) \<longleftrightarrow> f = e"
| "alone_pc b e (PcLoadTail f h) \<longleftrightarrow> f = e \<and> Some h = map_option rb_head (br_ring b)"
| "alone_pc b e (PcTestFull f h t) \<longleftrightarrow> f = e \<and> Some h = map_option rb_head (br_ring b) \<and>
     Some t = map_option rb_tail (br_ring b)"
| "alone_pc b e (PcFill f h _) \<longleftrightarrow> f = e \<and> fst (IpcBridge_Send e b) = Ok ()"
| "alone_pc b e (PcSeal f h) \<longleftrightarrow> f = e \<and> fst (IpcBridge_Send e b) = Ok ()"
| "alone_pc b e (PcBump f h) \<longleftrightarrow> f = e \<and> fst (IpcBridge_Send e b) = Ok ()"
| "alone_pc b e (PcFenceSlot f h) \<longleftrightarrow> f = e \<and> fst (IpcBridge_Send e b) = Ok ()"
| "alone_pc b e (PcStoreHead f h) \<longleftrightarrow> f = e \<and> fst (IpcBridge_Send e b) = Ok ()"
| "alone_pc b e (PcFenceHead f) \<longleftrightarrow> f = e \<and> fst (IpcBridge_Send e b) = Ok ()"

fun early_pc :: "send_pc \<Rightarrow> bool" where
  "early_pc (PcLoadHead _) \<longleftrightarrow> True"
| "early_pc (PcLoadTail _ _) \<longleftrightarrow> True"
| "early_pc (PcTestFull _ _ _) \<longleftrightarrow> True"
| "early_pc _ \<longleftrightarrow> False"

definition alone :: "sram_link \<Rightarrow> SoaEvent \<Rightarrow> sram_link \<Rightarrow> bool" where
  "alone s0 e s \<longleftrightarrow> sm_taken s = sm_taken s0 \<and>
     (if sm_pc s = PcIdle
      then sm_returned s = sm_returned s0 @ [(e, fst (IpcBridge_Send e (sm_bridge s0)))]
      else sm_returned s = sm_returned s0 \<and> alone_pc (sm_bridge s0) e (sm_pc s) \<and>
           (early_pc (sm_pc s) \<longrightarrow> sm_bridge s = sm_bridge s0 \<and> sm_buffer s = [] \<and> sendable e))"

lemma alone_call:
  assumes "sram_sim s l" "sm_pc s = PcIdle" "event_wf e"
  shows "alone s e (send_call e s)"
proof -
  obtain r where r: "br_ring (sm_bridge s) = Some r" "br_initialised (sm_bridge s)"
    and "sm_buffer s = []"
    using assms(1,2) by (auto simp: sram_sim_def)
  then show ?thesis
    using assms(2,3) payloadLen_le [of e] Send_eq [OF r assms(3)]
    by (auto simp: alone_def send_call_def Let_def sendable_def)
qed

lemma alone_access:
  assumes "alone s0 e s" "br_ring (sm_bridge s) = Some r" "send_next r s = Some s'"
    "br_initialised (sm_bridge s0)"
  shows "alone s0 e s'"
proof (cases "sm_pc s")
  case (PcTestFull f h t)
  then have b: "sm_bridge s = sm_bridge s0" "f = e" "h = rb_head r" "t = rb_tail r" "sendable e"
    using assms(1,2) by (auto simp: alone_def)
  then show ?thesis
    using assms PcTestFull Send_eq [of "sm_bridge s0" r e]
    by (auto simp: alone_def send_next.simps sendable_def)
qed (use assms in \<open>auto simp: alone_def send_next.simps split: if_splits list.splits\<close>)

lemma alone_step:
  assumes "core_step s s'" "alone s0 e s" "br_initialised (sm_bridge s0)"
  shows "alone s0 e s'"
  using assms(1)
proof cases
  case (access r)
  then show ?thesis by (rule alone_access [OF assms(2) _ _ assms(3)])
next
  case (drain r pre st post)
  then show ?thesis
    using assms(2) by (cases "sm_pc s") (auto simp: alone_def)
qed

lemma alone_run:
  assumes "core_step\<^sup>*\<^sup>* (send_call e s) s'" "sram_sim s l" "sm_pc s = PcIdle" "event_wf e"
  shows "alone s e s'" "\<exists>l'. ipc_step\<^sup>*\<^sup>* l l' \<and> sram_sim s' l'"
proof -
  have i: "br_initialised (sm_bridge s)" using assms(2) by (simp add: sram_sim_def)
  show "alone s e s'"
    using assms(1)
    by induction (use alone_call [OF assms(2-4)] alone_step i in blast)+
  have "sram_step\<^sup>*\<^sup>* (send_call e s) s'"
    using assms(1) by (rule rtranclp_mono [THEN predicate2D, rotated]) (blast intro: core)
  then have "sram_step\<^sup>*\<^sup>* s s'"
    using call [OF assms(3,4)] by (rule converse_rtranclp_into_rtranclp [rotated])
  then show "\<exists>l'. ipc_step\<^sup>*\<^sup>* l l' \<and> sram_sim s' l'"
    using assms(2) by (rule sram.matched_run)
qed

text \<open>
  A call that runs alone returns what the one-step \<open>Send\<close> returns and leaves the queue and the
  counter that it leaves.
\<close>

lemma alone_agrees:
  assumes "sram_sim s l" "sm_pc s = PcIdle" "event_wf e"
    and run: "core_step\<^sup>*\<^sup>* (send_call e s) s'" "sm_pc s' = PcIdle"
    and send: "IpcBridge_Send e (sm_bridge s) = (r, b')"
  shows "sm_returned s' = sm_returned s @ [(e, r)]" "sm_taken s' = sm_taken s"
    "br_pending (sm_bridge s') = br_pending b'"
    "br_seqCounter (sm_bridge s') = br_seqCounter b'"
proof -
  obtain l' where l': "sram_sim s' l'"
    using alone_run(2) [OF run(1) assms(1-3)] by blast
  have "alone s e s'" by (rule alone_run(1) [OF run(1) assms(1-3)])
  then show ret: "sm_returned s' = sm_returned s @ [(e, r)]" and tk: "sm_taken s' = sm_taken s"
    using run(2) send by (simp_all add: alone_def)
  have pub: "published s' = published s @ (if res_ok r then [e] else [])"
    using ret run(2) assms(2) by (simp add: published_def)
  have c: "br_seqCounter (sm_bridge s) = word_of_nat (length (published s))"
    and "br_seqCounter (sm_bridge s') = word_of_nat (length (published s'))"
    using assms(1,2) l' run(2) by (auto simp: sram_sim_def link_inv_def)
  moreover have q: "sm_taken s @ br_pending (sm_bridge s) = stamps (published s)"
    and "sm_taken s' @ br_pending (sm_bridge s') = stamps (published s')"
    using assms(1) l' sim_view by (fastforce simp: sram_sim_def link_inv_def sram_view_def link_view_def)+
  moreover have "bridge_wf (sm_bridge s)"
    using assms(1) ring_simD(3) by (fastforce simp: sram_sim_def bridge_wf_def)
  note ok = Send_Ok [OF this assms(3)]
  ultimately have "br_pending (sm_bridge s') = br_pending b' \<and>
      br_seqCounter (sm_bridge s') = br_seqCounter b'"
  proof (cases r)
    case (Ok u)
    then have "IpcBridge_Send e (sm_bridge s) = (Ok (), b')" using send by simp
    note ok = ok [OF this]
    show ?thesis
      using \<open>sm_taken s' @ br_pending (sm_bridge s') = stamps (published s')\<close> pub Ok tk c ok(4,5)
        \<open>br_seqCounter (sm_bridge s') = word_of_nat (length (published s'))\<close>
      by (simp add: stamps_snoc flip: q)
  next
    case (Err x)
    then show ?thesis
      using \<open>sm_taken s' @ br_pending (sm_bridge s') = stamps (published s')\<close> pub tk c
        \<open>br_seqCounter (sm_bridge s') = word_of_nat (length (published s'))\<close> send
        Send_error_unchanged [of e "sm_bridge s" x b']
      by (simp flip: q)
  qed
  then show "br_pending (sm_bridge s') = br_pending b'"
    "br_seqCounter (sm_bridge s') = br_seqCounter b'" by simp_all
qed

end
