(* ===== verification/LinkProps.thy ===== *)
theory LinkProps
  imports SafetyProps SramLink
begin

text \<open>
  Properties of the shared-memory link: delivery over every interleaving of the two cores at the
  grain of single stores, the end of every call, the branches of \<open>Send\<close>, and what the CRC of a
  slot detects.
\<close>

section \<open>Delivery\<close>

lemma sample_bridge_init: "IpcBridge_Init (IpcBridge_new (Some sample_ring)) = (Ok (), sample_bridge)"
  by (simp add: sample_bridge_def Init_cases IpcBridge_new_def)

definition sample_event :: SoaEvent where
  "sample_event = SoaEvent_default\<lparr>ev_serviceId := 0x0100, ev_eventId := 0x8001, ev_payloadLen := 12,
     ev_payload := encode_fault sample_fault @ replicate 244 0\<rparr>"

lemma sample_event_wf: "event_wf sample_event" "unat (ev_payloadLen sample_event) = 12"
  by (simp_all add: sample_event_def event_wf_def)

lemma sample_send: "IpcBridge_Send sample_event sample_bridge
    = (Ok (), snd (IpcBridge_Send sample_event sample_bridge))"
  using Send_result [OF sample_bridge_facts(1,2) sample_event_wf(1)]
  by (simp add: prod_eq_iff sample_event_wf sample_bridge_facts)

lemma sample_sram_run:
  "\<exists>s. sram_step\<^sup>*\<^sup>* (sram_start sample_bridge) s \<and> sm_pc s = PcIdle \<and> sm_taken s = [] \<and>
     sm_returned s = [(sample_event, Ok ())]"
proof -
  have sim: "sram_sim (sram_start sample_bridge) (link_start sample_bridge)"
    by (rule sim_start [OF sample_bridge_init])
  have idle: "sm_pc (sram_start sample_bridge) = PcIdle" by (simp add: sram_start_def)
  have "\<exists>l. sram_sim (send_call sample_event (sram_start sample_bridge)) l"
    using sim_call [OF sim idle sample_event_wf(1)] by blast
  then obtain s where s: "core_step\<^sup>*\<^sup>* (send_call sample_event (sram_start sample_bridge)) s" "sm_pc s = PcIdle"
    using send_run.run_ends by blast
  have "sram_step\<^sup>*\<^sup>* (send_call sample_event (sram_start sample_bridge)) s"
    using s(1) by (rule rtranclp_mono [THEN predicate2D, rotated]) (blast intro: core)
  then have "sram_step\<^sup>*\<^sup>* (sram_start sample_bridge) s"
    using call [OF idle sample_event_wf(1)] by (rule converse_rtranclp_into_rtranclp [rotated])
  moreover have "IpcBridge_Send sample_event (sm_bridge (sram_start sample_bridge))
      = (Ok (), snd (IpcBridge_Send sample_event sample_bridge))"
    using sample_send by (simp add: sram_start_def)
  note alone_agrees [OF sim idle sample_event_wf(1) s this]
  ultimately show ?thesis
    using s(2) by (auto simp: sram_start_def)
qed

text \<open>C18: in every interleaving of the single loads and stores of \<open>Send\<close> calls, of the moments at which
  buffered stores reach memory, and of the reading core, the slots taken and the slots waiting
  are together the published events in order, slot \<open>i\<close> stamped with the counter \<open>i mod 256\<close>. The
  published events are those whose call returned \<open>Ok\<close>, with the one whose call is about to. At
  most 31 slots wait. No slot is taken half-written: each carries its event's fields, its
  payload is zero beyond \<open>payloadLen\<close>, and it passes \<open>VerifyE2e\<close> with the counter \<open>i mod 256\<close> and no
  other, so a receiver that counts sees every slot exactly once.\<close>

theorem link_delivers_in_order:
  assumes "sram_step\<^sup>*\<^sup>* (sram_start b) s" "IpcBridge_Init b0 = (Ok (), b)"
  shows "sm_taken s @ br_pending (sm_bridge s) = stamps (published s) \<and>
    length (br_pending (sm_bridge s)) \<le> 31 \<and>
    (\<forall>i < length (sm_taken s). i < length (published s) \<and>
       sl_serviceId (sm_taken s ! i) = ev_serviceId (published s ! i) \<and>
       sl_eventId (sm_taken s ! i) = ev_eventId (published s ! i) \<and>
       sl_sessionId (sm_taken s ! i) = ev_sessionId (published s ! i) \<and>
       sl_payload (sm_taken s ! i) = ipc_payload (published s ! i) \<and>
       (\<forall>c. VerifyE2e (sm_taken s ! i) c = (if c = word_of_nat i then Ok () else Err kSequenceError)))"
proof -
  obtain l where l: "sram_sim s l"
    using sim_reachable [OF assms] by blast
  then have inv: "link_inv l" and taken: "lk_taken l = sm_taken s" and sent: "lk_sent l = published s"
    and pend: "br_pending (lk_bridge l) = br_pending (sm_bridge s)"
    using sim_view [OF l] by (simp_all add: sram_sim_def sram_view_def link_view_def)
  have "i < length (published s) \<and> sm_taken s ! i = ipc_slot (word_of_nat i) (published s ! i) \<and>
      event_wf (published s ! i) \<and> unat (ev_payloadLen (published s ! i)) \<le> 128"
    if "i < length (sm_taken s)" for i
    using link_takenD [OF inv, of i] inv that taken sent by (simp add: link_inv_def list_all_length)
  then show ?thesis
    using inv pending_less_32 [of "sm_bridge s"] taken sent pend
    by (auto simp: link_inv_def VerifyE2e_ipc_slot)
qed

theorem link_delivers_in_order_witness:
  "\<exists>s. sram_step\<^sup>*\<^sup>* (sram_start sample_bridge) s \<and> br_pending (sm_bridge s) = [ipc_slot 0 sample_event]"
proof -
  obtain s where s: "sram_step\<^sup>*\<^sup>* (sram_start sample_bridge) s" "sm_pc s = PcIdle" "sm_taken s = []"
    "sm_returned s = [(sample_event, Ok ())]"
    using sample_sram_run by blast
  then have "br_pending (sm_bridge s) = [ipc_slot 0 sample_event]"
    using link_delivers_in_order [OF s(1) sample_bridge_init] by (simp add: published_def stamps_def)
  with s(1) show ?thesis by blast
qed

text \<open>C19: a call of \<open>Send\<close> ends whatever the other core does. From every reachable state the calling
  core takes at most 547 further accesses and drains, however many slots the other core takes
  in between, and it is never stuck: it can always go on to the return of the call. And a call that
  runs while the other core is silent, store by store and with its stores reaching memory in any
  admissible order, returns what the one-step \<open>Send\<close> returns and leaves the queue and the sequence
  counter that it leaves.\<close>

theorem send_always_ends:
  assumes "sram_step\<^sup>*\<^sup>* (sram_start b) s" "IpcBridge_Init b0 = (Ok (), b)"
  shows "(\<exists>s'. core_step\<^sup>*\<^sup>* s s' \<and> sm_pc s' = PcIdle) \<and>
    (((m7_step\<^sup>*\<^sup>* OO core_step) ^^ n) s s' \<longrightarrow> n \<le> 547) \<and>
    (sm_pc s = PcIdle \<and> event_wf e \<and> core_step\<^sup>*\<^sup>* (send_call e s) s1 \<and> sm_pc s1 = PcIdle \<longrightarrow>
      (let (r, b') = IpcBridge_Send e (sm_bridge s)
       in sm_returned s1 = sm_returned s @ [(e, r)] \<and> sm_taken s1 = sm_taken s \<and>
          br_pending (sm_bridge s1) = br_pending b' \<and>
          br_seqCounter (sm_bridge s1) = br_seqCounter b'))"
proof -
  obtain l where l: "sram_sim s l"
    using sim_reachable [OF assms] by blast
  obtain r b' where "IpcBridge_Send e (sm_bridge s) = (r, b')" by fastforce
  then have "sm_returned s1 = sm_returned s @ [(e, r)] \<and> sm_taken s1 = sm_taken s \<and>
      br_pending (sm_bridge s1) = br_pending b' \<and> br_seqCounter (sm_bridge s1) = br_seqCounter b'"
    if "sm_pc s = PcIdle" "event_wf e" "core_step\<^sup>*\<^sup>* (send_call e s) s1" "sm_pc s1 = PcIdle"
    using alone_agrees [OF l that] by simp
  moreover have "\<exists>s'. core_step\<^sup>*\<^sup>* s s' \<and> sm_pc s' = PcIdle" using send_run.run_ends l by blast
  moreover have "((m7_step\<^sup>*\<^sup>* OO core_step) ^^ n) s s' \<longrightarrow> n \<le> 547"
    using mixed_run.run_length [of n s s'] steps_left_bound [OF assms] by fastforce
  ultimately show ?thesis using \<open>IpcBridge_Send e (sm_bridge s) = (r, b')\<close> by simp
qed

theorem send_always_ends_witness:
  "\<exists>s. core_step\<^sup>*\<^sup>* (send_call sample_event (sram_start sample_bridge)) s \<and>
     sm_returned s = [(sample_event, Ok ())] \<and> br_seqCounter (sm_bridge s) = 1"
proof -
  have idle: "sm_pc (sram_start sample_bridge) = PcIdle" by (simp add: sram_start_def)
  have "sram_step (sram_start sample_bridge) (send_call sample_event (sram_start sample_bridge))"
    by (rule call [OF idle sample_event_wf(1)])
  then obtain s where s: "core_step\<^sup>*\<^sup>* (send_call sample_event (sram_start sample_bridge)) s" "sm_pc s = PcIdle"
    using send_always_ends [OF r_into_rtranclp sample_bridge_init] by blast
  have "br_seqCounter (snd (IpcBridge_Send sample_event sample_bridge)) = 1"
    using Send_Ok(5) [OF sample_bridge_facts(1) sample_event_wf(1) sample_send]
      Init_empty [OF sample_bridge_init] by simp
  then show ?thesis
    using send_always_ends [OF rtranclp.rtrancl_refl sample_bridge_init] idle sample_event_wf(1) s
      sample_send by (fastforce simp: sram_start_def split_beta Let_def prod_eq_iff)
qed

section \<open>One call\<close>

text \<open>C20: \<open>Send\<close> on every branch. It refuses before \<open>Init\<close>, for a payload above 128 bytes, and
  exactly when 31 slots wait; a refused call changes nothing, not even the sequence counter.
  An accepted call appends one slot, stamped with the counter, and advances the counter
  modulo 256.\<close>

theorem send_outcome:
  assumes "bridge_wf b" "event_wf e"
  shows "(let (r, b') = IpcBridge_Send e b
    in if \<not> br_initialised b then r = Err kNotInitialized \<and> b' = b
       else if 128 < unat (ev_payloadLen e) then r = Err kInvalidArgument \<and> b' = b
       else if length (br_pending b) = 31 then r = Err kIpcBufferFull \<and> b' = b
       else r = Ok () \<and> bridge_wf b' \<and> br_seqCounter b' = br_seqCounter b + 1 \<and>
            br_pending b' = br_pending b @ [ipc_slot (br_seqCounter b) e])"
proof (cases "br_initialised b")
  case False
  then show ?thesis by (simp add: Send_not_initialised)
next
  case True
  obtain r b' where s: "IpcBridge_Send e b = (r, b')" by fastforce
  note res = Send_result [OF assms(1) True assms(2)]
  show ?thesis
  proof (cases r)
    case (Ok u)
    then show ?thesis
      using s res True Send_Ok [OF assms, of b'] by simp
  next
    case (Err x)
    then show ?thesis
      using s res True Send_error_unchanged [of e b x b'] by (auto split: if_splits)
  qed
qed

theorem send_outcome_witness:
  "fst (IpcBridge_Send sample_event full_bridge) = Err kIpcBufferFull"
  using send_outcome [OF full_bridge_facts(1) sample_event_wf(1)]
  by (simp add: full_bridge_facts sample_event_wf split_beta Let_def)

section \<open>Error detection\<close>

definition sample_slot :: IpcSlot where
  "sample_slot = ipc_slot 0 sample_event"

lemma sample_slot_facts: "slot_wf sample_slot" "VerifyE2e sample_slot 0 = Ok ()"
  using sample_event_wf by (simp_all add: sample_slot_def slot_wf_ipc_slot VerifyE2e_ipc_slot)

lemma sample_slot_burst:
  "\<exists>pre. IpcSlot_bytes sample_slot = pre @ [0, 0] @ [] \<and> 2 \<le> length pre \<and>
    IpcSlot_bytes (sample_slot\<lparr>sl_payload := (sl_payload sample_slot)[126 := 1]\<rparr>) = pre @ [1, 0] @ []"
proof -
  let ?s' = "sample_slot\<lparr>sl_payload := (sl_payload sample_slot)[126 := 1]\<rparr>"
  define p where "p = sl_payload sample_slot"
  define h where "h = E2eProfile5Header_bytes (sl_e2eHeader sample_slot) @ le16 (sl_serviceId sample_slot) @
      le16 (sl_eventId sample_slot) @ le32 (sl_sessionId sample_slot) @ [sl_payloadLen sample_slot] @
      sl_reserved sample_slot"
  have "replicate 116 (0 :: u8) = replicate 114 0 @ [0, 0]"
    using replicate_add [of 114 2 "0 :: u8"] by (simp add: numeral_2_eq_2)
  then have p: "p = encode_fault sample_fault @ replicate 114 0 @ [0, 0]"
    by (simp add: p_def sample_slot_def ipc_payload_def sample_event_def)
  have q: "p[126 := 1] = encode_fault sample_fault @ replicate 114 0 @ [1, 0]"
    unfolding p by (simp add: list_update_append)
  have "IpcSlot_bytes sample_slot = (h @ encode_fault sample_fault @ replicate 114 0) @ [0, 0] @ []"
    "IpcSlot_bytes ?s' = (h @ encode_fault sample_fault @ replicate 114 0) @ [1, 0] @ []"
    using p q by (simp_all add: IpcSlot_bytes_def h_def p_def)
  then show ?thesis by (intro exI conjI) (assumption | simp)+
qed

lemma parity_detected:
  assumes "slot_wf s" "VerifyE2e s c = Ok ()" "slot_wf s'"
    and "bytes_parity (IpcSlot_bytes s') \<noteq> bytes_parity (IpcSlot_bytes s)"
  shows "VerifyE2e s' c' = Err kChecksumMismatch"
proof (rule ccontr)
  assume "VerifyE2e s' c' \<noteq> Err kChecksumMismatch"
  then have "VerifyE2e s' (e2e_counter (sl_e2eHeader s')) = Ok ()"
    by (simp add: VerifyE2e_eq [OF assms(3)] split: if_splits)
  then show False
    using VerifyE2e_Ok_parity [OF assms(3)] VerifyE2e_Ok_parity [OF assms(1,2)] assms(4) by blast
qed

text \<open>C21: a valid slot that is altered on its way is rejected with \<open>kChecksumMismatch\<close>, whichever
  counter is expected, in each of three cases: two adjacent bytes outside the CRC field are
  altered in any way (every burst of up to 9 bits, and many longer); an odd number of bits is
  flipped anywhere in the 148 bytes; only the CRC field is altered.\<close>

theorem corruption_is_rejected:
  assumes "slot_wf s" "VerifyE2e s c = Ok ()" "slot_wf s'"
    and "(\<exists>pre x0 x1 y0 y1 post. IpcSlot_bytes s = pre @ [x0, x1] @ post \<and>
            IpcSlot_bytes s' = pre @ [y0, y1] @ post \<and> (x0, x1) \<noteq> (y0, y1) \<and> 2 \<le> length pre) \<or>
         bytes_parity (IpcSlot_bytes s') \<noteq> bytes_parity (IpcSlot_bytes s) \<or>
         (\<exists>v. v \<noteq> e2e_crc (sl_e2eHeader s) \<and> s' = s\<lparr>sl_e2eHeader := (sl_e2eHeader s)\<lparr>e2e_crc := v\<rparr>\<rparr>)"
  shows "VerifyE2e s' c' = Err kChecksumMismatch"
  using assms(4) burst_detected [OF assms(1,2,3)] parity_detected [OF assms(1-3)]
    crc_field_detected [OF assms(1,2)] by blast

theorem corruption_is_rejected_witness:
  "VerifyE2e (sample_slot\<lparr>sl_payloadLen := 13\<rparr>) 0 = Err kChecksumMismatch \<and>
   VerifyE2e (sample_slot\<lparr>sl_payload := (sl_payload sample_slot)[126 := 1]\<rparr>) 7 = Err kChecksumMismatch"
proof
  have "sl_payloadLen sample_slot = 12" by (simp add: sample_slot_def sample_event_def)
  then have "bytes_parity (IpcSlot_bytes (sample_slot\<lparr>sl_payloadLen := 13\<rparr>))
      \<noteq> bytes_parity (IpcSlot_bytes sample_slot)"
    by (simp add: IpcSlot_bytes_def bytes_parity_append) (simp add: numeral_eq_Suc)
  then show "VerifyE2e (sample_slot\<lparr>sl_payloadLen := 13\<rparr>) 0 = Err kChecksumMismatch"
    using sample_slot_facts(1)
    by (intro corruption_is_rejected [OF sample_slot_facts]) (simp_all add: slot_wf_def)
next
  let ?s' = "sample_slot\<lparr>sl_payload := (sl_payload sample_slot)[126 := 1]\<rparr>"
  show "VerifyE2e ?s' 7 = Err kChecksumMismatch"
    using sample_slot_facts(1) sample_slot_burst
    by (intro corruption_is_rejected [OF sample_slot_facts] disjI1) (simp add: slot_wf_def, fastforce)
qed

text \<open>C22: the table-driven CRC of the code is the serial shift register fed with the bits of the
  first \<open>len\<close> bytes, least significant bit first, for every buffer and length.\<close>

theorem crc_table_is_serial:
  "ComputeE2eCrc (Some bs) len = crc_serial 0 (take (unat len) bs)"
  by (simp add: ComputeE2eCrc_def crc_loop_serial)

end
