(* ===== verification/ManagerProps.thy ===== *)
theory ManagerProps
  imports CommitIndex ServiceLife EventThreads LinkProps
begin

text \<open>
  Properties of the service manager, with the sample manager their witnesses run on: one
  service, one subscriber (handler 7), and optionally one published event.
\<close>

section \<open>A sample manager\<close>

definition sample_service :: ServiceDescriptor where
  "sample_service = ServiceDescriptor_default\<lparr>sd_serviceId := 0x0100, sd_instanceId := 1\<rparr>"

definition sample_mgr0 :: "nat SoaServiceManager" where
  "sample_mgr0 = snd (SoaServiceManager_Init SoaServiceManager_new)"

definition sample_mgr :: "nat SoaServiceManager" where
  "sample_mgr = snd (Subscribe 0x0100 0x8001 (Some 7) (snd (RegisterService sample_service sample_mgr0)))"

definition sample_busy :: "nat SoaServiceManager" where
  "sample_busy = snd (PublishEvent sample_event sample_mgr)"

lemma sample_mgr0_facts:
  "mgr_wf sample_mgr0" "sm_initialised sample_mgr0" "services sample_mgr0 = []"
  "subscriptions sample_mgr0 = []" "pending_events sample_mgr0 = []"
  using mgr_wf_Init [OF mgr_wf_new, where ?'a = nat]
    Init_Ok_empty [of SoaServiceManager_new "sample_mgr0"]
  by (simp_all add: sample_mgr0_def SoaServiceManager_Init_def SoaServiceManager_new_def)

lemma sample_registered:
  "mgr_wf (snd (RegisterService sample_service sample_mgr0))"
  "RegisterService sample_service sample_mgr0 = (Ok (), snd (RegisterService sample_service sample_mgr0))"
  "services (snd (RegisterService sample_service sample_mgr0)) = [sample_service]"
proof -
  show ok: "RegisterService sample_service sample_mgr0
      = (Ok (), snd (RegisterService sample_service sample_mgr0))"
    by (simp add: RegisterService_cases sample_mgr0_facts)
  show "services (snd (RegisterService sample_service sample_mgr0)) = [sample_service]"
    using RegisterService_Ok(3) [OF sample_mgr0_facts(1) ok]
    by (simp add: sample_mgr0_facts sample_service_def ServiceDescriptor_default_def)
qed (rule mgr_wf_RegisterService [OF sample_mgr0_facts(1)])

lemma sample_mgr_facts:
  "mgr_wf sample_mgr" "sm_initialised sample_mgr" "services sample_mgr = [sample_service]"
  "subscriptions sample_mgr = [\<lparr>sub_serviceId = 0x0100, sub_eventId = 0x8001, sub_handler = Some 7\<rparr>]"
  "pending_events sample_mgr = []"
proof -
  let ?m = "snd (RegisterService sample_service sample_mgr0)"
  have i: "sm_initialised ?m" by (simp add: api_frames sample_mgr0_facts)
  have none: "subscriptions ?m = []" by (simp add: api_frames sample_mgr0_facts)
  have ok: "Subscribe 0x0100 0x8001 (Some 7) ?m = (Ok (), sample_mgr)"
    by (simp add: sample_mgr_def Subscribe_cases [OF sample_registered(1)] i none)
  show "mgr_wf sample_mgr"
    "subscriptions sample_mgr = [\<lparr>sub_serviceId = 0x0100, sub_eventId = 0x8001, sub_handler = Some 7\<rparr>]"
    using Subscribe_Ok(3,4) [OF sample_registered(1) ok] none by simp_all
  show "sm_initialised sample_mgr" "services sample_mgr = [sample_service]"
    "pending_events sample_mgr = []"
    using sample_mgr0_facts(2,5)
    by (simp_all add: sample_mgr_def api_frames i sample_registered(3) pending_events_def)
qed

lemma sample_busy_facts:
  "mgr_wf sample_busy" "sm_initialised sample_busy" "pending_events sample_busy = [sample_event]"
  "subscriptions sample_busy = subscriptions sample_mgr"
proof -
  have "PublishEvent sample_event sample_mgr = (Ok (), sample_busy)"
    by (simp add: sample_busy_def PublishEvent_cases sample_mgr_facts)
  from PublishEvent_Ok [OF sample_mgr_facts(1) this]
  show "mgr_wf sample_busy" "pending_events sample_busy = [sample_event]"
    "subscriptions sample_busy = subscriptions sample_mgr"
    by (simp_all add: sample_mgr_facts)
  show "sm_initialised sample_busy" by (simp add: sample_busy_def api_frames sample_mgr_facts)
qed

lemma sample_reachable:
  "mgr_step\<^sup>*\<^sup>* SoaServiceManager_new sample_mgr" "mgr_step\<^sup>*\<^sup>* SoaServiceManager_new sample_busy"
proof -
  have "mgr_step\<^sup>*\<^sup>* SoaServiceManager_new sample_mgr0"
    unfolding sample_mgr0_def by (intro r_into_rtranclp mgr_init)
  then have "mgr_step\<^sup>*\<^sup>* SoaServiceManager_new (snd (RegisterService sample_service sample_mgr0))"
    by (rule rtranclp.rtrancl_into_rtrancl) (intro mgr_api api_register)
  then show m: "mgr_step\<^sup>*\<^sup>* SoaServiceManager_new sample_mgr"
    unfolding sample_mgr_def by (rule rtranclp.rtrancl_into_rtrancl) (intro mgr_api api_subscribe)
  show "mgr_step\<^sup>*\<^sup>* SoaServiceManager_new sample_busy"
    unfolding sample_busy_def
    by (rule rtranclp.rtrancl_into_rtrancl [OF m]) (intro mgr_api api_publish sample_event_wf)
qed

section \<open>Registry and life cycle\<close>

text \<open>C23: in every state a manager can reach through its operations, no two services have the
  same service and instance id, at most 32 services, 16 subscriptions and 63 events are held,
  every subscription has a handler, and no service is in the state \<open>kRequested\<close>, which the
  code tests for but never sets.\<close>

theorem manager_invariant:
  assumes "mgr_step\<^sup>*\<^sup>* SoaServiceManager_new m"
  shows "distinct (map service_key (services m)) \<and> length (services m) \<le> 32 \<and>
    length (subscriptions m) \<le> 16 \<and> length (pending_events m) \<le> 63 \<and>
    (\<forall>sub \<in> set (subscriptions m). sub_handler sub \<noteq> None) \<and>
    (\<forall>d \<in> set (services m). sd_state d \<noteq> kRequested)"
proof -
  note inv = mgr_inv_reachable [OF assms]
  have "length (pending_events m) < 64"
    unfolding pending_events_queue by (rule mgr_ring.length_queue_less)
  then show ?thesis
    using inv by (simp add: mgr_inv_def mgr_wf_def services_def subscriptions_def)
qed

theorem manager_invariant_witness:
  "distinct (map service_key (services sample_busy)) \<and> length (pending_events sample_busy) \<le> 63"
  using manager_invariant [OF sample_reachable(2)] by simp

text \<open>C24: a registered service is never removed, replaced or moved: every step keeps its
  row except for the state, which only moves along Down, Available, Stopping and back to Down.
  Nor is a subscription: no operation takes one away, so the table of the subscribers that ever
  were fills up.\<close>

theorem service_life_cycle:
  assumes "mgr_step\<^sup>*\<^sup>* SoaServiceManager_new m" "mgr_step m m'" "i < length (services m)"
  shows "(\<exists>new. subscriptions m' = subscriptions m @ new) \<and> i < length (services m') \<and>
    (let old = services m ! i; new = services m' ! i
     in new = old\<lparr>sd_state := sd_state new\<rparr> \<and>
        (sd_state new = sd_state old \<or>
         (sd_state old, sd_state new) \<in> {(kDown, kAvailable), (kAvailable, kStopping), (kStopping, kDown)}))"
proof -
  note inv = mgr_inv_reachable [OF assms(1)]
  have "services m ! i \<in> set (services m)" using assms(3) by simp
  then have "sd_state (services m ! i) \<noteq> kRequested" using inv by (simp add: mgr_inv_def)
  then show ?thesis
    using row_evolves_step [OF assms(2) inv assms(3)] subscriptions_grow [OF assms(2) inv]
    by (cases "sd_state (services m ! i)") (auto simp: row_evolves_def Let_def)
qed

theorem service_life_cycle_witness:
  "sd_serviceId (services (snd (OfferService 0x0100 1 sample_mgr)) ! 0) = 0x0100"
proof -
  have "mgr_step sample_mgr (snd (OfferService 0x0100 1 sample_mgr))"
    by (intro mgr_api api_offer)
  from service_life_cycle [OF sample_reachable(1) this, of 0] show ?thesis
    by (auto simp: sample_mgr_facts sample_service_def Let_def)
qed

text \<open>C25: the commit index of \<open>docs/architecture.md\<close>, section 3.1. While one thread registers services or
  subscribes, store by store, and another reads the rows below the counter it has loaded, no row
  is read while it is written, and what is read is a prefix of the rows registered, each complete
  and in order. (The counter is raised last.)\<close>

theorem tables_read_complete_rows:
  assumes "mgr_wf m"
    and "(commit_step sub_count sub_row kMaxSubscribers subscribe_stores subscribe_commit)\<^sup>*\<^sup>* (commit_start m) s"
    and "(commit_step service_count service_row kMaxServices register_row_stores register_commit)\<^sup>*\<^sup>* (commit_start m) u"
  shows "\<not> row_race s \<and> \<not> row_race u \<and>
    (cr_reader s = RRows n rs \<longrightarrow> length rs = n \<longrightarrow>
       rs = take n (subscriptions m @ cr_added s) \<and> n \<le> length (subscriptions m) + length (cr_added s)) \<and>
    (cr_reader u = RRows k ds \<longrightarrow> length ds = k \<longrightarrow>
       ds = take k (services m @ map (\<lambda>d. d\<lparr>sd_state := kDown\<rparr>) (cr_added u)) \<and>
       k \<le> length (services m) + length (cr_added u))"
proof -
  have len: "length (sm_subscribers m) = 16" "length (sm_registry m) = 32"
    using assms(1) by (simp_all add: mgr_wf_def)
  note s = sub_table.inv_reachable [OF assms(2) len(1), unfolded sub_table_rows [OF assms(1)]]
    and u = service_table.inv_reachable [OF assms(3) len(2), unfolded service_table_rows [OF assms(1)]]
  show ?thesis
    using sub_table.no_row_race [OF s] service_table.no_row_race [OF u]
      sub_table.rows_read [OF s] service_table.rows_read [OF u] by simp
qed

text \<open>A subscription is completed between the loads of a reader.\<close>

definition sample_sub :: "nat SubscriberEntry" where
  "sample_sub = \<lparr>sub_serviceId = 5, sub_eventId = 6, sub_handler = Some 7\<rparr>"

definition sample_commit :: "(nat SubscriberEntry, nat SoaServiceManager, nat SubscriberEntry) commit_run" where
  "sample_commit = fold (\<lambda>b. if b then writer_turn sub_count kMaxSubscribers subscribe_stores subscribe_commit
       else reader_turn sub_count sub_row)
     [True, True, True, True, True, True, False, False]
     ((commit_start SoaServiceManager_new)\<lparr>cr_writer := WLoad sample_sub, cr_reader := RCount\<rparr>)"

lemma sample_commit_run:
  "(commit_step sub_count sub_row kMaxSubscribers subscribe_stores subscribe_commit)\<^sup>*\<^sup>*
     (commit_start SoaServiceManager_new) sample_commit"
proof -
  let ?s = "commit_start SoaServiceManager_new :: (nat SubscriberEntry, nat SoaServiceManager, nat SubscriberEntry) commit_run"
  let ?step = "commit_step sub_count sub_row kMaxSubscribers subscribe_stores subscribe_commit"
  have "?step ?s (?s\<lparr>cr_writer := WLoad sample_sub\<rparr>)"
    by (rule c_add) (simp add: commit_start_def)
  moreover have "?step (?s\<lparr>cr_writer := WLoad sample_sub\<rparr>) (?s\<lparr>cr_writer := WLoad sample_sub, cr_reader := RCount\<rparr>)"
    by (rule c_read)
  ultimately show ?thesis
    unfolding sample_commit_def
    by (blast intro: converse_rtranclp_into_rtranclp commit_turns)
qed

lemma sample_commit_reader: "cr_reader sample_commit = RRows 1 [sample_sub]"
  by (simp add: sample_commit_def commit_start_def writer_turn_def reader_turn_def sub_count_def Let_def
      SoaServiceManager_new_def subscribe_stores_def on_sub_def subscribe_commit_def sample_sub_def
      SubscriberEntry_default_def)

theorem tables_read_complete_rows_witness:
  "cr_reader sample_commit = RRows 1 [sample_sub] \<and> [sample_sub] = take 1 (cr_added sample_commit) \<and>
   \<not> row_race sample_commit"
  using tables_read_complete_rows [OF mgr_wf_new sample_commit_run rtranclp.rtrancl_refl, of 1 "[sample_sub]"]
  by (simp add: sample_commit_reader subscriptions_def SoaServiceManager_new_def)

section \<open>Events\<close>

text \<open>C27: the receive thread and the safety loop share the event queue without a lock. In every
  interleaving of their single accesses, the two never touch the same queued event while one
  of them writes it; the events whose \<open>PublishEvent\<close> returned \<open>Ok\<close> are the events taken followed by
  the at most 63 events queued, in order; and the handler calls made are, for each event taken
  and then for the one being dispatched, those of its subscriptions in order.\<close>

theorem event_queue_two_threads:
  assumes "threads_step\<^sup>*\<^sup>* (threads_start m) s" "mgr_wf m" "pending_events m = []"
  shows "\<not> data_race s \<and> et_accepted s = et_done s @ pending_events (et_mgr s) \<and>
    length (pending_events (et_mgr s)) \<le> 63 \<and>
    et_calls s = concat (map (hits (subscriptions m)) (et_done s)) @ in_dispatch (et_mgr s) (et_proc s)"
proof -
  note inv = threads_inv_reachable [OF assms]
  have "length (pending_events (et_mgr s)) < 64"
    unfolding pending_events_queue by (rule mgr_ring.length_queue_less)
  then show ?thesis
    using inv no_data_race [OF inv] by (simp add: threads_inv_def)
qed

text \<open>One event is published while the other thread, already in its loop, dispatches it.\<close>

definition sample_threads :: "nat event_threads" where
  "sample_threads = fold (\<lambda>b. if b then pub_turn else proc_turn)
     [True, True, False, True, True, True, False, False, False]
     ((threads_start sample_mgr)\<lparr>et_pub := PubLoadHead sample_event,
        et_proc := ProcLoadTail (unat (sm_subscriberCount sample_mgr))\<rparr>)"

lemma sample_threads_run: "threads_step\<^sup>*\<^sup>* (threads_start sample_mgr) sample_threads"
proof -
  have a: "threads_step (threads_start sample_mgr) ((threads_start sample_mgr)\<lparr>et_pub := PubLoadHead sample_event\<rparr>)"
    by (rule th_publish) (simp_all add: threads_start_def sample_mgr_facts)
  have b: "threads_step ((threads_start sample_mgr)\<lparr>et_pub := PubLoadHead sample_event\<rparr>)
      ((threads_start sample_mgr)\<lparr>et_pub := PubLoadHead sample_event,
        et_proc := ProcLoadTail (unat (sm_subscriberCount sample_mgr))\<rparr>)"
    using th_process [of "(threads_start sample_mgr)\<lparr>et_pub := PubLoadHead sample_event\<rparr>"]
    by (simp add: threads_start_def sample_mgr_facts)
  show ?thesis
    unfolding sample_threads_def
    by (rule rtranclp_trans [OF rtranclp.rtrancl_into_rtrancl [OF r_into_rtranclp [of threads_step, OF a] b] turns_run])
qed

lemma sample_threads_state:
  "map ev_eventId (et_accepted sample_threads) = [0x8001]" "et_done sample_threads = []"
  "map fst (et_calls sample_threads) = [7]"
  by code_simp+

theorem event_queue_two_threads_witness:
  "map ev_eventId (pending_events (et_mgr sample_threads)) = [0x8001] \<and>
   map fst (in_dispatch (et_mgr sample_threads) (et_proc sample_threads)) = [7]"
  using event_queue_two_threads [OF sample_threads_run sample_mgr_facts(1,5)] sample_threads_state
  by simp

text \<open>C28: with handlers that leave the manager alone, \<open>ProcessEvents\<close> returns with the queue empty
  and has delivered every queued event, oldest first, to every subscription of its service
  and event id, in order of subscription; services and subscriptions are as before.\<close>

theorem process_delivers_all:
  assumes "mgr_wf m" "sm_initialised m"
  shows "\<exists>m'. ProcessEvents (plain_call eff) (m, w) = Some (m',
      fold (\<lambda>ev w. fold (\<lambda>sub w. case sub_handler sub of None \<Rightarrow> w | Some h \<Rightarrow> eff h ev w)
              (filter (\<lambda>sub. sub_serviceId sub = ev_serviceId ev \<and> sub_eventId sub = ev_eventId ev)
                 (subscriptions m)) w)
        (pending_events m) w) \<and>
    pending_events m' = [] \<and> services m' = services m \<and> subscriptions m' = subscriptions m \<and> mgr_wf m'"
proof -
  have d: "deliver eff subs = (\<lambda>ev. fold (\<lambda>sub w. case sub_handler sub of None \<Rightarrow> w | Some h \<Rightarrow> eff h ev w)
      (filter (\<lambda>sub. sub_serviceId sub = ev_serviceId ev \<and> sub_eventId sub = ev_eventId ev) subs))" for subs
    by (auto simp: deliver_def fold_filter o_def fun_eq_iff intro!: fold_cong)
  have "mgr_wf (m\<lparr>sm_queueTail := sm_queueHead m\<rparr>)" using assms(1) by (simp add: mgr_wf_def)
  then show ?thesis
    using pending_empty_iff [of "m\<lparr>sm_queueTail := sm_queueHead m\<rparr>"]
    by (simp add: ProcessEvents_plain [OF assms] services_def subscriptions_def d)
qed

theorem process_delivers_all_witness:
  "\<exists>m'. ProcessEvents (plain_call (\<lambda>h ev w. w @ [(h, ev_eventId ev)])) (sample_busy, [])
     = Some (m', [(7, 0x8001)]) \<and> pending_events m' = []"
  using process_delivers_all [OF sample_busy_facts(1,2), of "\<lambda>h ev w. w @ [(h, ev_eventId ev)]" "[]"]
  by (auto simp: sample_busy_facts sample_mgr_facts sample_event_def)

text \<open>C30: a handler that publishes the event it receives keeps \<open>ProcessEvents\<close> from returning: the
  loop re-reads the head of the queue, so once such an event is queued it never runs dry. (A
  full queue does not help: the slot that was just freed takes the event again.)\<close>

theorem echo_never_returns:
  assumes "mgr_wf m" "sm_initialised m" "pending_events m \<noteq> []" "set (pending_events m) = {ev}"
    and "\<exists>sub \<in> set (subscriptions m). sub_serviceId sub = ev_serviceId ev \<and>
      sub_eventId sub = ev_eventId ev \<and> sub_handler sub \<noteq> None"
  shows "ProcessEvents echo_call (m, w) = None"
  by (rule ProcessEvents_echo_None) (use assms in \<open>simp add: echo_busy_def\<close>)

theorem echo_never_returns_witness:
  "ProcessEvents echo_call (sample_busy, ()) = None"
  by (rule echo_never_returns [where ev = sample_event])
    (simp_all add: sample_busy_facts sample_mgr_facts sample_event_def)

end
