(* ===== verification/Iam.thy ===== *)
theory Iam
  imports Registry Ring
begin

text \<open>
  \<open>include/IamSecurityController.hpp\<close> and \<open>src/IamSecurityController.cpp\<close>: the role table, the
  ordered policy list, the first-match authorisation with default deny, and the audit ring.
\<close>

section \<open>State\<close>

definition kMaxPolicies :: nat where [simp]: "kMaxPolicies = 64"
definition kMaxRoles :: nat where [simp]: "kMaxRoles = 16"
definition kMaxAuditLogEntries :: nat where [simp]: "kMaxAuditLogEntries = 128"
definition kInvalidPrincipal :: u32 where [simp]: "kInvalidPrincipal = 0xFFFFFFFF"

text \<open>\<open>AccessAction\<close> is a bitmask: \<open>operator|\<close> makes values outside the named ones.\<close>

type_synonym AccessAction = u8
definition kNone :: AccessAction where [simp]: "kNone = 0x00"
definition kRead :: AccessAction where [simp]: "kRead = 0x01"
definition kWrite :: AccessAction where [simp]: "kWrite = 0x02"
definition kExecute :: AccessAction where [simp]: "kExecute = 0x04"
definition kAdmin :: AccessAction where [simp]: "kAdmin = 0x08"
definition kAll :: AccessAction where [simp]: "kAll = 0x0F"

definition action_or :: "AccessAction \<Rightarrow> AccessAction \<Rightarrow> AccessAction" where
  "action_or lhs rhs = lhs OR rhs"

definition HasAction :: "AccessAction \<Rightarrow> AccessAction \<Rightarrow> bool" where
  "HasAction granted requested \<longleftrightarrow> granted AND requested \<noteq> 0"

record Role =
  role_roleId :: u8
  role_name :: "u8 list"

definition Role_default :: Role where
  "Role_default = \<lparr>role_roleId = 0, role_name = replicate 24 0\<rparr>"

record PolicyEntry =
  pol_principalId :: u32
  pol_serviceId :: u16
  pol_methodId :: u16
  pol_roleId :: u8
  pol_allowed :: AccessAction

definition PolicyEntry_default :: PolicyEntry where
  "PolicyEntry_default =
     \<lparr>pol_principalId = kInvalidPrincipal, pol_serviceId = kInvalidServiceId,
      pol_methodId = 0xFFFF, pol_roleId = 0, pol_allowed = kNone\<rparr>"

datatype AuditResult = kGranted | kDenied

record AuditEntry =
  au_principalId :: u32
  au_serviceId :: u16
  au_methodId :: u16
  au_requested :: AccessAction
  au_result :: AuditResult
  au_timestampNs :: u64

definition AuditEntry_default :: AuditEntry where
  "AuditEntry_default =
     \<lparr>au_principalId = 0, au_serviceId = 0, au_methodId = 0, au_requested = kNone,
      au_result = kDenied, au_timestampNs = 0\<rparr>"

record IamSecurityController =
  iam_roles :: "Role list"
  iam_policies :: "PolicyEntry list"
  iam_auditLog :: "AuditEntry list"
  iam_roleCount :: u8
  iam_policyCount :: u8
  iam_auditHead :: u8
  iam_auditTail :: u8
  iam_initialised :: bool

definition IamSecurityController_new :: IamSecurityController where
  "IamSecurityController_new =
     \<lparr>iam_roles = replicate kMaxRoles Role_default,
      iam_policies = replicate kMaxPolicies PolicyEntry_default,
      iam_auditLog = replicate kMaxAuditLogEntries AuditEntry_default,
      iam_roleCount = 0, iam_policyCount = 0, iam_auditHead = 0, iam_auditTail = 0,
      iam_initialised = False\<rparr>"

section \<open>Operations\<close>

definition Iam_Init :: "IamSecurityController \<Rightarrow> VoidResult \<times> IamSecurityController" where
  "Iam_Init c =
     (if iam_initialised c then (Err kAlreadyRegistered, c)
      else (Ok (), c\<lparr>iam_initialised := True, iam_roleCount := 0, iam_policyCount := 0,
                     iam_auditHead := 0, iam_auditTail := 0\<rparr>))"

definition RegisterRole :: "Role \<Rightarrow> IamSecurityController \<Rightarrow> VoidResult \<times> IamSecurityController" where
  "RegisterRole role c =
     (if \<not> iam_initialised c then (Err kNotInitialized, c)
      else if unat (iam_roleCount c) \<ge> kMaxRoles then (Err kRegistryFull, c)
      else if list_ex (\<lambda>i. role_roleId (iam_roles c ! i) = role_roleId role) [0..<unat (iam_roleCount c)]
        then (Err kAlreadyRegistered, c)
      else (Ok (), c\<lparr>iam_roles := (iam_roles c)[unat (iam_roleCount c) := role],
                     iam_roleCount := iam_roleCount c + 1\<rparr>))"

definition AddPolicy :: "PolicyEntry \<Rightarrow> IamSecurityController \<Rightarrow> VoidResult \<times> IamSecurityController" where
  "AddPolicy entry c =
     (if \<not> iam_initialised c then (Err kNotInitialized, c)
      else if unat (iam_policyCount c) \<ge> kMaxPolicies then (Err kRegistryFull, c)
      else (Ok (), c\<lparr>iam_policies := (iam_policies c)[unat (iam_policyCount c) := entry],
                     iam_policyCount := iam_policyCount c + 1\<rparr>))"

definition AppendAuditEntry :: "u32 \<Rightarrow> u16 \<Rightarrow> u16 \<Rightarrow> AccessAction \<Rightarrow> AuditResult \<Rightarrow> u64 \<Rightarrow>
    IamSecurityController \<Rightarrow> IamSecurityController" where
  "AppendAuditEntry principalId serviceId methodId action result nowNs c =
     (let head = iam_auditHead c; nextHead = u8_next 128 head
      in c\<lparr>iam_auditLog := (iam_auditLog c)[unat head :=
             \<lparr>au_principalId = principalId, au_serviceId = serviceId, au_methodId = methodId,
              au_requested = action, au_result = result, au_timestampNs = nowNs\<rparr>],
           iam_auditHead := nextHead\<rparr>)"

definition policy_match :: "u32 \<Rightarrow> u16 \<Rightarrow> u16 \<Rightarrow> PolicyEntry \<Rightarrow> bool" where
  "policy_match principalId serviceId methodId p =
     (let principalMatch = (pol_principalId p = principalId);
          serviceMatch = (pol_serviceId p = serviceId);
          methodMatch = (pol_methodId p = 0xFFFF \<or> pol_methodId p = methodId)
      in principalMatch \<and> serviceMatch \<and> methodMatch)"

definition Authorise :: "u32 \<Rightarrow> u16 \<Rightarrow> u16 \<Rightarrow> AccessAction \<Rightarrow> u64 \<Rightarrow> IamSecurityController \<Rightarrow>
    VoidResult \<times> IamSecurityController" where
  "Authorise principalId serviceId methodId action nowNs c =
     (if \<not> iam_initialised c then (Err kNotInitialized, c)
      else case first_index (\<lambda>i. policy_match principalId serviceId methodId (iam_policies c ! i))
                  (unat (iam_policyCount c)) of
        Some i \<Rightarrow>
          if HasAction (pol_allowed (iam_policies c ! i)) action
          then (Ok (), AppendAuditEntry principalId serviceId methodId action kGranted nowNs c)
          else (Err kUnauthorized, AppendAuditEntry principalId serviceId methodId action kDenied nowNs c)
      | None \<Rightarrow>
          (Err kUnauthorized, AppendAuditEntry principalId serviceId methodId action kDenied nowNs c))"

text \<open>
  The loop of \<open>DrainAuditLog\<close>; the first argument is \<open>bufferSize - copied\<close>, the iterations
  the loop condition still allows.
\<close>

fun drain_loop :: "nat \<Rightarrow> nat \<Rightarrow> AuditEntry list \<Rightarrow> IamSecurityController \<Rightarrow>
    nat \<times> AuditEntry list \<times> IamSecurityController" where
  "drain_loop 0 copied buffer c = (copied, buffer, c)"
| "drain_loop (Suc n) copied buffer c =
     (let tail = iam_auditTail c; head = iam_auditHead c
      in if tail = head then (copied, buffer, c)
         else drain_loop n (Suc copied) (buffer[copied := iam_auditLog c ! unat tail])
                (c\<lparr>iam_auditTail := u8_next 128 tail\<rparr>))"

definition DrainAuditLog :: "AuditEntry list option \<Rightarrow> u8 \<Rightarrow> IamSecurityController \<Rightarrow>
    u8 \<times> AuditEntry list option \<times> IamSecurityController" where
  "DrainAuditLog buffer bufferSize c =
     (case buffer of
        None \<Rightarrow> (0, None, c)
      | Some buf \<Rightarrow>
          let (copied, buf', c') = drain_loop (unat bufferSize) 0 buf c
          in (word_of_nat copied, Some buf', c'))"

section \<open>Well-formed controllers\<close>

definition iam_wf :: "IamSecurityController \<Rightarrow> bool" where
  "iam_wf c \<longleftrightarrow> length (iam_roles c) = 16 \<and> unat (iam_roleCount c) \<le> 16 \<and>
     length (iam_policies c) = 64 \<and> unat (iam_policyCount c) \<le> 64 \<and>
     length (iam_auditLog c) = 128 \<and> unat (iam_auditHead c) < 128 \<and> unat (iam_auditTail c) < 128"

definition roles :: "IamSecurityController \<Rightarrow> Role list" where
  "roles c = take (unat (iam_roleCount c)) (iam_roles c)"

definition policies :: "IamSecurityController \<Rightarrow> PolicyEntry list" where
  "policies c = take (unat (iam_policyCount c)) (iam_policies c)"

interpretation audit_ring: ring_index 128 "u8_next 128" unat
  by unfold_locales (simp_all add: unat_u8_next word_unat_eq_iff)

definition audit_pending :: "IamSecurityController \<Rightarrow> AuditEntry list" where
  "audit_pending c = ring_list 128 (iam_auditLog c) (unat (iam_auditTail c)) (unat (iam_auditHead c))"

lemma audit_pending_queue:
  "audit_pending c = audit_ring.queue (iam_auditLog c) (iam_auditTail c) (iam_auditHead c)"
  by (simp add: audit_pending_def audit_ring.queue_def)

lemma iam_wf_new: "iam_wf IamSecurityController_new"
  by (simp add: iam_wf_def IamSecurityController_new_def)

lemma iam_wf_Init: "iam_wf c \<Longrightarrow> iam_wf (snd (Iam_Init c))"
  by (simp add: iam_wf_def Iam_Init_def)

lemma iam_wf_AddPolicy: "iam_wf c \<Longrightarrow> iam_wf (snd (AddPolicy p c))"
  by (auto simp: iam_wf_def AddPolicy_def unat_word_ariths)

lemma iam_wf_RegisterRole: "iam_wf c \<Longrightarrow> iam_wf (snd (RegisterRole r c))"
  by (auto simp: iam_wf_def RegisterRole_def unat_word_ariths)

lemma iam_wf_AppendAuditEntry: "iam_wf c \<Longrightarrow> iam_wf (AppendAuditEntry p s m a r t c)"
  using audit_ring.pos_next_less [of "iam_auditHead c"]
  by (simp add: iam_wf_def AppendAuditEntry_def Let_def)

lemma iam_wf_Authorise: "iam_wf c \<Longrightarrow> iam_wf (snd (Authorise p s m a t c))"
  by (simp add: Authorise_def iam_wf_AppendAuditEntry split: option.split)

lemma append_count:
  assumes "length xs = N" "unat (n :: u8) < N" "N < 256"
  shows "take (unat (n + 1)) (xs[unat n := x]) = take (unat n) xs @ [x]"
proof -
  have "unat (n + 1) = Suc (unat n)"
    using assms(2,3) by (simp add: unat_word_ariths)
  then show ?thesis
    using assms by (simp add: take_Suc_conv_app_nth)
qed

lemma RegisterRole_Ok:
  assumes "iam_wf c" "RegisterRole r c = (Ok (), c')"
  shows "role_roleId r \<notin> role_roleId ` set (roles c)" "roles c' = roles c @ [r]"
proof -
  have no: "\<not> list_ex (\<lambda>i. role_roleId (iam_roles c ! i) = role_roleId r) [0..<unat (iam_roleCount c)]"
    and lt: "unat (iam_roleCount c) < 16"
    and c': "c' = c\<lparr>iam_roles := (iam_roles c)[unat (iam_roleCount c) := r], iam_roleCount := iam_roleCount c + 1\<rparr>"
    using assms(2) by (auto simp: RegisterRole_def not_le split: if_splits)
  show "role_roleId r \<notin> role_roleId ` set (roles c)"
    using no assms(1) by (fastforce simp: roles_def list_ex_iff iam_wf_def in_set_conv_nth)
  show "roles c' = roles c @ [r]"
    using append_count [of "iam_roles c" 16 "iam_roleCount c" r] assms(1) lt
    by (simp add: c' roles_def iam_wf_def)
qed

lemma RegisterRole_Err: "RegisterRole r c = (Err e, c') \<Longrightarrow> c' = c"
  by (auto simp: RegisterRole_def split: if_splits)

lemma length_roles: "iam_wf c \<Longrightarrow> length (roles c) \<le> 16"
  by (simp add: roles_def iam_wf_def)

interpretation roles: registry roles role_roleId RegisterRole "\<lambda>r. r" iam_wf 16
  by unfold_locales
    (auto simp: length_roles iam_wf_RegisterRole dest: RegisterRole_Ok RegisterRole_Err)

interpretation open_roles: accepting_registry roles role_roleId RegisterRole "\<lambda>r. r" iam_wf 16 iam_initialised
proof unfold_locales
  fix c r
  show "iam_initialised c \<Longrightarrow> iam_initialised (snd (RegisterRole r c))"
    by (simp add: RegisterRole_def)
  assume c: "iam_wf c" "iam_initialised c" "role_roleId r \<notin> role_roleId ` set (roles c)" "length (roles c) < 16"
  have "roles c ! i = iam_roles c ! i \<and> roles c ! i \<in> set (roles c)" if "i < unat (iam_roleCount c)" for i
    using that c(1) nth_mem [of i "roles c"] by (simp add: roles_def iam_wf_def)
  then have "role_roleId (iam_roles c ! i) \<noteq> role_roleId r" if "i < unat (iam_roleCount c)" for i
    using that c(3) by (metis imageI)
  then show "fst (RegisterRole r c) = Ok ()"
    using c by (simp add: RegisterRole_def list_ex_iff roles_def iam_wf_def)
qed

lemma AddPolicy_cases:
  assumes "iam_wf c"
  shows "fst (AddPolicy p c) = (if \<not> iam_initialised c then Err kNotInitialized
      else if length (policies c) = 64 then Err kRegistryFull else Ok ())"
    "policies (snd (AddPolicy p c)) = policies c @ (if fst (AddPolicy p c) = Ok () then [p] else [])"
proof -
  have len: "length (policies c) = unat (iam_policyCount c)"
    using assms by (simp add: policies_def iam_wf_def)
  then show "fst (AddPolicy p c) = (if \<not> iam_initialised c then Err kNotInitialized
      else if length (policies c) = 64 then Err kRegistryFull else Ok ())"
    using assms by (auto simp: AddPolicy_def iam_wf_def)
  show "policies (snd (AddPolicy p c)) = policies c @ (if fst (AddPolicy p c) = Ok () then [p] else [])"
    using append_count [of "iam_policies c" 64 "iam_policyCount c" p] assms
    by (auto simp: AddPolicy_def policies_def iam_wf_def)
qed

section \<open>The decision\<close>

definition decisive :: "u32 \<Rightarrow> u16 \<Rightarrow> u16 \<Rightarrow> IamSecurityController \<Rightarrow> PolicyEntry option" where
  "decisive pr sv m c = List.find (policy_match pr sv m) (policies c)"

lemma decisive_index:
  assumes "iam_wf c"
  shows "decisive pr sv m c =
    map_option ((!) (iam_policies c))
      (first_index (\<lambda>i. policy_match pr sv m (iam_policies c ! i)) (unat (iam_policyCount c)))"
proof -
  have "policies c = map ((!) (iam_policies c)) [0..<unat (iam_policyCount c)]"
    using assms by (intro nth_equalityI) (simp_all add: policies_def iam_wf_def)
  moreover have "List.find P (map f xs) = map_option f (List.find (P \<circ> f) xs)" for P :: "PolicyEntry \<Rightarrow> bool" and f and xs :: "nat list"
    by (induction xs) auto
  ultimately show ?thesis
    by (simp add: decisive_def first_index_def o_def)
qed

definition decision :: "AccessAction \<Rightarrow> PolicyEntry option \<Rightarrow> AuditResult" where
  "decision action p =
     (case p of None \<Rightarrow> kDenied
      | Some p \<Rightarrow> if HasAction (pol_allowed p) action then kGranted else kDenied)"

text \<open>First match decides; no match denies; either way one audit record with the verdict.\<close>

lemma Authorise_decision:
  assumes "iam_wf c" "iam_initialised c"
  shows "Authorise pr sv m action t c =
    (let v = decision action (decisive pr sv m c)
     in (if v = kGranted then Ok () else Err kUnauthorized, AppendAuditEntry pr sv m action v t c))"
  using assms by (simp add: Authorise_def decisive_index decision_def Let_def split: option.split)

lemma HasAction_iff: "HasAction g r \<longleftrightarrow> (\<exists>i<8. bit g i \<and> bit r i)"
  unfolding HasAction_def bit_eq_iff [of "g AND r" 0]
  by (auto simp: bit_and_iff dest: bit_imp_le_length)

section \<open>The audit ring\<close>

definition audit_record :: "u32 \<Rightarrow> u16 \<Rightarrow> u16 \<Rightarrow> AccessAction \<Rightarrow> AuditResult \<Rightarrow> u64 \<Rightarrow> AuditEntry" where
  "audit_record pr sv m action v t =
     \<lparr>au_principalId = pr, au_serviceId = sv, au_methodId = m, au_requested = action,
      au_result = v, au_timestampNs = t\<rparr>"

lemma Append_pending:
  assumes "iam_wf c"
  shows "audit_pending (AppendAuditEntry pr sv m action v t c) =
    (if length (audit_pending c) = 127 then [] else audit_pending c @ [audit_record pr sv m action v t])"
proof (cases "u8_next 128 (iam_auditHead c) = iam_auditTail c")
  case True
  then have "length (audit_pending c) = 127"
    using audit_ring.queue_full_iff [of "iam_auditTail c" "iam_auditHead c" "iam_auditLog c"] assms
    by (simp add: audit_pending_queue iam_wf_def)
  then show ?thesis
    using True assms by (simp add: audit_pending_queue AppendAuditEntry_def Let_def iam_wf_def)
next
  case False
  then have "length (audit_pending c) \<noteq> 127"
    using audit_ring.queue_full_iff [of "iam_auditTail c" "iam_auditHead c"] assms
    by (simp add: audit_pending_queue iam_wf_def)
  then show ?thesis
    using False assms audit_ring.queue_enq [of "iam_auditTail c" "iam_auditHead c" "iam_auditLog c"]
    by (simp add: audit_pending_queue AppendAuditEntry_def Let_def iam_wf_def audit_record_def)
qed

lemma drain_loop_spec:
  assumes "iam_wf c" "copied + n \<le> length buf"
  shows "drain_loop n copied buf c =
    (let k = min n (length (audit_pending c))
     in (copied + k,
         take copied buf @ take k (audit_pending c) @ drop (copied + k) buf,
         c\<lparr>iam_auditTail := ((u8_next 128) ^^ k) (iam_auditTail c)\<rparr>))"
  using assms
proof (induction n arbitrary: copied buf c)
  case 0
  have "c\<lparr>iam_auditTail := iam_auditTail c\<rparr> = c" by (cases c) simp
  then show ?case by (simp add: Let_def)
next
  case (Suc n)
  have tail: "c\<lparr>iam_auditTail := iam_auditTail c\<rparr> = c" by (cases c) simp
  show ?case
  proof (cases "iam_auditTail c = iam_auditHead c")
    case True
    then have "audit_pending c = []"
      using Suc.prems(1) by (simp add: audit_pending_queue iam_wf_def)
    then show ?thesis using True tail by (simp add: Let_def)
  next
    case False
    let ?c = "c\<lparr>iam_auditTail := u8_next 128 (iam_auditTail c)\<rparr>"
    let ?e = "iam_auditLog c ! unat (iam_auditTail c)"
    have pop: "audit_pending c = ?e # audit_pending ?c"
      using False Suc.prems(1) audit_ring.queue_deq [of "iam_auditTail c" "iam_auditHead c" "iam_auditLog c"]
      by (simp add: audit_pending_queue iam_wf_def)
    have wf: "iam_wf ?c"
      using Suc.prems(1) audit_ring.pos_next_less [of "iam_auditTail c"] by (simp add: iam_wf_def)
    have upd: "take (Suc copied) (buf[copied := ?e]) = take copied buf @ [?e]"
      "drop (Suc copied + k) (buf[copied := ?e]) = drop (Suc copied + k) buf" for k
      using Suc.prems(2) by (simp_all add: take_Suc_conv_app_nth)
    show ?thesis
      using False Suc.IH [OF wf, of "Suc copied" "buf[copied := ?e]"] Suc.prems(2) upd
      by (simp add: pop Let_def funpow_swap1)
  qed
qed

lemma audit_pending_drop:
  assumes "iam_wf c" "k \<le> length (audit_pending c)"
  shows "iam_wf (c\<lparr>iam_auditTail := ((u8_next 128) ^^ k) (iam_auditTail c)\<rparr>) \<and>
    audit_pending (c\<lparr>iam_auditTail := ((u8_next 128) ^^ k) (iam_auditTail c)\<rparr>) = drop k (audit_pending c)"
  using assms(2)
proof (induction k)
  case 0
  have "c\<lparr>iam_auditTail := iam_auditTail c\<rparr> = c" by (cases c) simp
  then show ?case using assms(1) by simp
next
  case (Suc k)
  let ?c = "c\<lparr>iam_auditTail := ((u8_next 128) ^^ k) (iam_auditTail c)\<rparr>"
  have IH: "iam_wf ?c" "audit_pending ?c = drop k (audit_pending c)" using Suc by simp_all
  then have "audit_pending ?c \<noteq> []" using Suc.prems by simp
  then have ne: "iam_auditTail ?c \<noteq> iam_auditHead ?c"
    using IH(1) by (auto simp: audit_pending_queue iam_wf_def)
  then show ?case
    using IH audit_ring.queue_deq [of "iam_auditTail ?c" "iam_auditHead ?c" "iam_auditLog ?c"]
      audit_ring.pos_next_less [of "iam_auditTail ?c"]
    by (simp add: audit_pending_queue iam_wf_def drop_Suc tl_drop [symmetric])
qed

text \<open>
  Draining hands out the oldest undrained records in order, as many as the buffer holds, leaves
  the rest of the buffer alone and keeps the other records for the next drain.
\<close>

lemma DrainAuditLog_fifo:
  assumes "iam_wf c" "unat n \<le> length buf"
  shows "(let (k, out, c') = DrainAuditLog (Some buf) n c; j = min (unat n) (length (audit_pending c))
    in unat k = j \<and> out = Some (take j (audit_pending c) @ drop j buf) \<and>
       audit_pending c' = drop j (audit_pending c) \<and> iam_wf c' \<and> policies c' = policies c)"
proof -
  let ?j = "min (unat n) (length (audit_pending c))"
  have "?j < 256" using unat_u8_less [of n] by (rule min.strict_coboundedI1)
  then have "unat (word_of_nat ?j :: u8) = ?j" by (simp add: unat_of_nat)
  then show ?thesis
    using audit_pending_drop [OF assms(1), of ?j] drain_loop_spec [OF assms(1), of 0 "unat n" buf] assms(2)
    by (simp add: DrainAuditLog_def Let_def policies_def)
qed

end
