(* ===== verification/AuditRace.thy ===== *)
theory AuditRace
  imports Iam Interleave
begin

text \<open>
  \<open>AppendAuditEntry\<close> of \<open>src/IamSecurityController.cpp\<close> access by access. The audit log is a ring for
  one producer, but \<open>docs/architecture.md\<close> (section 5) lets \<open>Authorise\<close> run on any thread: here two
  calls append at once.
\<close>

text \<open>
  \<open>AuLoad\<close> is before the load of \<open>auditHead_\<close>, \<open>AuWrite\<close> before the stores to the slot, which no other
  call reads and which are taken together, \<open>AuStore\<close> before the store to \<open>auditHead_\<close>.
\<close>

datatype audit_pc = AuDone | AuLoad AuditEntry | AuWrite AuditEntry u8 | AuStore u8

fun audit_access :: "audit_pc \<Rightarrow> IamSecurityController \<Rightarrow> audit_pc \<times> IamSecurityController" where
  "audit_access AuDone c = (AuDone, c)"
| "audit_access (AuLoad e) c = (AuWrite e (iam_auditHead c), c)"
| "audit_access (AuWrite e head) c =
     (AuStore (u8_next 128 head), c\<lparr>iam_auditLog := (iam_auditLog c)[unat head := e]\<rparr>)"
| "audit_access (AuStore nextHead) c = (AuDone, c\<lparr>iam_auditHead := nextHead\<rparr>)"

abbreviation audit_run :: "nat list \<Rightarrow> audit_pc list \<times> IamSecurityController \<Rightarrow>
    audit_pc list \<times> IamSecurityController" where
  "audit_run \<equiv> run_schedule audit_access"

text \<open>
  A decision writes nothing but its record, so a call of \<open>Authorise\<close> is its decision and this append.
\<close>

definition authorise_record :: "u32 \<Rightarrow> u16 \<Rightarrow> u16 \<Rightarrow> AccessAction \<Rightarrow> u64 \<Rightarrow> IamSecurityController \<Rightarrow> AuditEntry"
where
  "authorise_record pr sv m action t c =
     audit_record pr sv m action (decision action (decisive pr sv m c)) t"

lemma Append_alone:
  "snd (audit_run [0, 0, 0] ([AuLoad (audit_record pr sv m action v t)], c)) = AppendAuditEntry pr sv m action v t c"
  by (simp add: AppendAuditEntry_def audit_record_def Let_def)

lemma authorise_alone:
  assumes "iam_wf c" "iam_initialised c"
  shows "snd (Authorise pr sv m action t c) = snd (audit_run [0, 0, 0] ([AuLoad (authorise_record pr sv m action t c)], c))"
  unfolding authorise_record_def Append_alone by (simp add: Authorise_decision [OF assms] Let_def)

lemma append_pending:
  assumes "iam_wf c" "length (audit_pending c) < 127"
  shows "audit_pending (c\<lparr>iam_auditLog := (iam_auditLog c)[unat (iam_auditHead c) := e],
      iam_auditHead := u8_next 128 (iam_auditHead c)\<rparr>) = audit_pending c @ [e]"
    and "iam_wf (c\<lparr>iam_auditLog := (iam_auditLog c)[unat (iam_auditHead c) := e],
      iam_auditHead := u8_next 128 (iam_auditHead c)\<rparr>)"
proof -
  have eq: "c\<lparr>iam_auditLog := (iam_auditLog c)[unat (iam_auditHead c) := e],
      iam_auditHead := u8_next 128 (iam_auditHead c)\<rparr>
      = AppendAuditEntry (au_principalId e) (au_serviceId e) (au_methodId e) (au_requested e)
          (au_result e) (au_timestampNs e) c"
    by (cases e) (simp add: AppendAuditEntry_def Let_def)
  show "audit_pending (c\<lparr>iam_auditLog := (iam_auditLog c)[unat (iam_auditHead c) := e],
      iam_auditHead := u8_next 128 (iam_auditHead c)\<rparr>) = audit_pending c @ [e]"
    unfolding eq using assms by (simp add: Append_pending audit_record_def)
  show "iam_wf (c\<lparr>iam_auditLog := (iam_auditLog c)[unat (iam_auditHead c) := e],
      iam_auditHead := u8_next 128 (iam_auditHead c)\<rparr>)"
    unfolding eq using assms(1) by (rule iam_wf_AppendAuditEntry)
qed

text \<open>Two calls at once: unless one is over before the other begins, one record is lost.\<close>

lemma two_appends:
  assumes "xs \<in> shuffles [0, 0, 0] [1, 1, 1]" "iam_wf c" "length (audit_pending c) < 126"
    and "audit_run xs ([AuLoad e0, AuLoad e1], c) = (ps, c')"
  shows "ps = [AuDone, AuDone]"
    "take 3 xs = [0, 0, 0] \<Longrightarrow> audit_pending c' = audit_pending c @ [e0, e1]"
    "take 3 xs = [1, 1, 1] \<Longrightarrow> audit_pending c' = audit_pending c @ [e1, e0]"
    "take 3 xs \<noteq> [0, 0, 0] \<Longrightarrow> take 3 xs \<noteq> [1, 1, 1] \<Longrightarrow>
       audit_pending c' = audit_pending c @ [e0] \<or> audit_pending c' = audit_pending c @ [e1]"
proof -
  let ?add = "\<lambda>e c. c\<lparr>iam_auditLog := (iam_auditLog c)[unat (iam_auditHead c) := e],
      iam_auditHead := u8_next 128 (iam_auditHead c)\<rparr>"
  have one: "audit_pending (?add e c) = audit_pending c @ [e]" for e
    using append_pending(1) assms(2,3) by simp
  have two: "audit_pending (?add e' (?add e c)) = audit_pending c @ [e, e']" for e e'
    using append_pending [of "?add e c" e'] append_pending(2) [of c e] one [of e] assms(2,3) by simp
  have "ps = [AuDone, AuDone] \<and>
    (take 3 xs = [0, 0, 0] \<longrightarrow> c' = ?add e1 (?add e0 c)) \<and>
    (take 3 xs = [1, 1, 1] \<longrightarrow> c' = ?add e0 (?add e1 c)) \<and>
    (take 3 xs \<noteq> [0, 0, 0] \<longrightarrow> take 3 xs \<noteq> [1, 1, 1] \<longrightarrow> c' = ?add e0 c \<or> c' = ?add e1 c)"
    using assms(1,4) by auto
  then show "ps = [AuDone, AuDone]"
    "take 3 xs = [0, 0, 0] \<Longrightarrow> audit_pending c' = audit_pending c @ [e0, e1]"
    "take 3 xs = [1, 1, 1] \<Longrightarrow> audit_pending c' = audit_pending c @ [e1, e0]"
    "take 3 xs \<noteq> [0, 0, 0] \<Longrightarrow> take 3 xs \<noteq> [1, 1, 1] \<Longrightarrow>
       audit_pending c' = audit_pending c @ [e0] \<or> audit_pending c' = audit_pending c @ [e1]"
    using one two by auto
qed

end
