(* ===== verification/AuditDrain.thy ===== *)
theory AuditDrain
  imports AuditRace
begin

text \<open>
  The audit log of \<open>src/IamSecurityController.cpp\<close> between its two threads: one thread decides with
  \<open>Authorise\<close>, the diagnostic task calls \<open>DrainAuditLog\<close> (\<open>docs/architecture.md\<close>, sections 3.3 and 5).
  Each load and store of \<open>auditHead_\<close> and \<open>auditTail_\<close> and each copy of a record is one access.
  As long as the producer never meets a full ring every record is drained once and in order; the
  producer does not test for a full ring, and then the two touch the same slot.
\<close>

section \<open>Accesses\<close>

text \<open>
  The program counter of a drain: the size of the buffer, the records copied so far, and the loaded
  tail. \<open>DrTail\<close> is at the head of the loop, \<open>DrHead\<close> before the load of \<open>auditHead_\<close>.
\<close>

datatype audit_drain_pc =
    DrIdle | DrTail nat nat | DrHead nat nat u8 | DrCopy nat nat u8 | DrStore nat nat u8

fun audit_drain_access :: "audit_drain_pc \<Rightarrow> AuditEntry list \<Rightarrow> IamSecurityController \<Rightarrow>
    audit_drain_pc \<times> AuditEntry list \<times> IamSecurityController \<times> nat option" where
  "audit_drain_access DrIdle buf c = (DrIdle, buf, c, None)"
| "audit_drain_access (DrTail room copied) buf c =
     (if copied < room then (DrHead room copied (iam_auditTail c), buf, c, None)
      else (DrIdle, buf, c, Some copied))"
| "audit_drain_access (DrHead room copied tail) buf c =
     (if tail = iam_auditHead c then (DrIdle, buf, c, Some copied)
      else (DrCopy room copied tail, buf, c, None))"
| "audit_drain_access (DrCopy room copied tail) buf c =
     (DrStore room copied tail, buf[copied := iam_auditLog c ! unat tail], c, None)"
| "audit_drain_access (DrStore room copied tail) buf c =
     (DrTail room (Suc copied), buf, c\<lparr>iam_auditTail := u8_next 128 tail\<rparr>, None)"

section \<open>Runs\<close>

text \<open>
  Ghosts: the record of the decision in progress, the records appended, those whose slot has been
  given back, what each finished drain returned, and whether the head ever reached the tail.
\<close>

record audit_threads =
  at_iam :: IamSecurityController
  at_writer :: audit_pc
  at_reader :: audit_drain_pc
  at_buf :: "AuditEntry list"
  at_entry :: AuditEntry
  at_appended :: "AuditEntry list"
  at_taken :: "AuditEntry list"
  at_calls :: "AuditEntry list list"
  at_overflow :: bool

definition audit_start :: "IamSecurityController \<Rightarrow> audit_threads" where
  "audit_start c =
     \<lparr>at_iam = c, at_writer = AuDone, at_reader = DrIdle, at_buf = [], at_entry = AuditEntry_default,
      at_appended = [], at_taken = [], at_calls = [], at_overflow = False\<rparr>"

definition decide_turn :: "audit_threads \<Rightarrow> audit_threads" where
  "decide_turn s =
     (case audit_access (at_writer s) (at_iam s) of (p, c) \<Rightarrow>
        s\<lparr>at_writer := p, at_iam := c,
          at_appended := at_appended s @ (case at_writer s of AuStore _ \<Rightarrow> [at_entry s] | _ \<Rightarrow> []),
          at_overflow := at_overflow s \<or>
            (case at_writer s of AuStore nextHead \<Rightarrow> nextHead = iam_auditTail (at_iam s) | _ \<Rightarrow> False)\<rparr>)"

definition drain_turn :: "audit_threads \<Rightarrow> audit_threads" where
  "drain_turn s =
     (case audit_drain_access (at_reader s) (at_buf s) (at_iam s) of (p, buf, c, r) \<Rightarrow>
        s\<lparr>at_reader := p, at_buf := buf, at_iam := c,
          at_taken := at_taken s @
            (case at_reader s of DrStore _ _ tail \<Rightarrow> [iam_auditLog (at_iam s) ! unat tail] | _ \<Rightarrow> []),
          at_calls := at_calls s @ (case r of None \<Rightarrow> [] | Some n \<Rightarrow> [take n buf])\<rparr>)"

inductive audit_step :: "audit_threads \<Rightarrow> audit_threads \<Rightarrow> bool" where
  at_authorise: "at_writer s = AuDone \<Longrightarrow> iam_initialised (at_iam s) \<Longrightarrow>
    e = authorise_record pr sv m action t (at_iam s) \<Longrightarrow>
    audit_step s (s\<lparr>at_writer := AuLoad e, at_entry := e\<rparr>)"
| at_drain: "at_reader s = DrIdle \<Longrightarrow> unat room \<le> length buf \<Longrightarrow>
    audit_step s (s\<lparr>at_reader := DrTail (unat (room :: u8)) 0, at_buf := buf\<rparr>)"
| at_write: "audit_step s (decide_turn s)"
| at_read: "audit_step s (drain_turn s)"

inductive_cases audit_stepE: "audit_step s s'"

text \<open>The producer is about to write the slot that the drain is about to copy.\<close>

definition slot_race :: "audit_threads \<Rightarrow> bool" where
  "slot_race s \<longleftrightarrow> (\<exists>e slot room copied. at_writer s = AuWrite e slot \<and> at_reader s = DrCopy room copied slot)"

section \<open>Without interference\<close>

text \<open>Alone, the accesses of a drain have the effect of its loop.\<close>

definition drain_next :: "audit_drain_pc \<times> AuditEntry list \<times> IamSecurityController \<times> nat option \<Rightarrow>
    audit_drain_pc \<times> AuditEntry list \<times> IamSecurityController \<times> nat option" where
  "drain_next x = (case x of (p, buf, c, _) \<Rightarrow> audit_drain_access p buf c)"

lemma drain_steps_alone:
  "drain_loop n copied buf c = (k, buf', c') \<Longrightarrow>
     \<exists>j. (drain_next ^^ j) (DrTail (copied + n) copied, buf, c, None) = (DrIdle, buf', c', Some k)"
proof (induction n arbitrary: copied buf c)
  case 0
  then show ?case by (intro exI [of _ 1]) (simp add: drain_next_def)
next
  case (Suc n)
  show ?case
  proof (cases "iam_auditTail c = iam_auditHead c")
    case True
    then show ?thesis
      using Suc.prems by (intro exI [of _ 2]) (simp add: drain_next_def Let_def numeral_2_eq_2)
  next
    case False
    let ?buf = "buf[copied := iam_auditLog c ! unat (iam_auditTail c)]"
      and ?c = "c\<lparr>iam_auditTail := u8_next 128 (iam_auditTail c)\<rparr>"
    have "drain_loop n (Suc copied) ?buf ?c = (k, buf', c')"
      using Suc.prems False by (simp add: Let_def)
    then obtain j where "(drain_next ^^ j) (DrTail (Suc copied + n) (Suc copied), ?buf, ?c, None)
        = (DrIdle, buf', c', Some k)"
      using Suc.IH by blast
    moreover have "(drain_next ^^ 4) (DrTail (copied + Suc n) copied, buf, c, None)
        = (DrTail (Suc copied + n) (Suc copied), ?buf, ?c, None)"
      using False by (simp add: drain_next_def numeral_eq_Suc)
    ultimately have "(drain_next ^^ (j + 4)) (DrTail (copied + Suc n) copied, buf, c, None)
        = (DrIdle, buf', c', Some k)"
      by (simp only: funpow_add o_apply)
    then show ?thesis by blast
  qed
qed

lemma drain_loop_bound: "fst (drain_loop n copied buf c) \<le> copied + n"
  by (induction n copied buf c rule: drain_loop.induct) (auto simp: Let_def)

lemma drain_call_alone:
  assumes "DrainAuditLog (Some buf) n c = (k, buf', c')"
  shows "\<exists>j b. buf' = Some b \<and>
    (drain_next ^^ j) (DrTail (unat n) 0, buf, c, None) = (DrIdle, b, c', Some (unat k))"
proof -
  obtain i b c1 where l: "drain_loop (unat n) 0 buf c = (i, b, c1)" by (cases "drain_loop (unat n) 0 buf c")
  then have "i \<le> unat n" using drain_loop_bound [of "unat n" 0 buf c] by simp
  then have "i < 256" by (rule le_less_trans) (rule unat_u8_less)
  then have "buf' = Some b" "c' = c1" "unat k = i"
    using assms l by (auto simp: DrainAuditLog_def unat_of_nat)
  then show ?thesis using drain_steps_alone [OF l] by auto
qed

section \<open>The invariant\<close>

fun append_ok :: "IamSecurityController \<Rightarrow> AuditEntry \<Rightarrow> audit_pc \<Rightarrow> bool" where
  "append_ok c e AuDone \<longleftrightarrow> True"
| "append_ok c e (AuLoad x) \<longleftrightarrow> x = e"
| "append_ok c e (AuWrite x h) \<longleftrightarrow> x = e \<and> h = iam_auditHead c"
| "append_ok c e (AuStore h) \<longleftrightarrow> h = u8_next 128 (iam_auditHead c) \<and> iam_auditLog c ! unat (iam_auditHead c) = e"

fun drain_ok :: "IamSecurityController \<Rightarrow> AuditEntry list \<Rightarrow> audit_drain_pc \<Rightarrow> bool" where
  "drain_ok c buf DrIdle \<longleftrightarrow> True"
| "drain_ok c buf (DrTail n k) \<longleftrightarrow> k \<le> n \<and> n \<le> length buf"
| "drain_ok c buf (DrHead n k t) \<longleftrightarrow> k < n \<and> n \<le> length buf \<and> t = iam_auditTail c"
| "drain_ok c buf (DrCopy n k t) \<longleftrightarrow> k < n \<and> n \<le> length buf \<and> t = iam_auditTail c \<and> t \<noteq> iam_auditHead c"
| "drain_ok c buf (DrStore n k t) \<longleftrightarrow> k < n \<and> n \<le> length buf \<and> t = iam_auditTail c \<and> t \<noteq> iam_auditHead c \<and>
     buf ! k = iam_auditLog c ! unat t"

text \<open>What the drain in progress has copied and given back.\<close>

fun copied_so_far :: "AuditEntry list \<Rightarrow> audit_drain_pc \<Rightarrow> AuditEntry list" where
  "copied_so_far buf DrIdle = []"
| "copied_so_far buf (DrTail n k) = take k buf"
| "copied_so_far buf (DrHead n k t) = take k buf"
| "copied_so_far buf (DrCopy n k t) = take k buf"
| "copied_so_far buf (DrStore n k t) = take k buf"

definition audit_inv :: "AuditEntry list \<Rightarrow> audit_threads \<Rightarrow> bool" where
  "audit_inv old s \<longleftrightarrow> iam_wf (at_iam s) \<and> append_ok (at_iam s) (at_entry s) (at_writer s) \<and>
     drain_ok (at_iam s) (at_buf s) (at_reader s) \<and>
     old @ at_appended s = at_taken s @ audit_pending (at_iam s) \<and>
     concat (at_calls s) @ copied_so_far (at_buf s) (at_reader s) = at_taken s"

lemma audit_inv_start: "iam_wf c \<Longrightarrow> audit_inv (audit_pending c) (audit_start c)"
  by (simp add: audit_inv_def audit_start_def)

text \<open>What each store to the shared state does to the queue.\<close>

lemma fill_slot:
  fixes c :: IamSecurityController and e :: AuditEntry
  assumes "iam_wf c"
  defines "c' \<equiv> c\<lparr>iam_auditLog := (iam_auditLog c)[unat (iam_auditHead c) := e]\<rparr>"
  shows "iam_wf c'" "audit_pending c' = audit_pending c"
    "t \<noteq> iam_auditHead c \<Longrightarrow> iam_auditLog c' ! unat t = iam_auditLog c ! unat t"
    "iam_auditLog c' ! unat (iam_auditHead c) = e"
  using assms audit_ring.queue_write_head [of "iam_auditTail c" "iam_auditHead c" "iam_auditLog c" e]
  by (simp_all add: audit_pending_queue iam_wf_def word_unat_eq_iff)

lemma raise_head:
  fixes c :: IamSecurityController
  assumes "iam_wf c" "u8_next 128 (iam_auditHead c) \<noteq> iam_auditTail c"
  defines "c' \<equiv> c\<lparr>iam_auditHead := u8_next 128 (iam_auditHead c)\<rparr>"
  shows "iam_wf c'" "audit_pending c' = audit_pending c @ [iam_auditLog c ! unat (iam_auditHead c)]"
  using assms audit_ring.pos_next_less [of "iam_auditHead c"]
    audit_ring.queue_enq [of "iam_auditTail c" "iam_auditHead c" "iam_auditLog c" "iam_auditLog c ! unat (iam_auditHead c)"]
  by (simp_all add: audit_pending_queue iam_wf_def)

lemma raise_tail:
  fixes c :: IamSecurityController
  assumes "iam_wf c" "iam_auditTail c \<noteq> iam_auditHead c"
  defines "c' \<equiv> c\<lparr>iam_auditTail := u8_next 128 (iam_auditTail c)\<rparr>"
  shows "iam_wf c'" "audit_pending c = iam_auditLog c ! unat (iam_auditTail c) # audit_pending c'"
  using assms audit_ring.pos_next_less [of "iam_auditTail c"]
    audit_ring.queue_deq [of "iam_auditTail c" "iam_auditHead c" "iam_auditLog c"]
  by (simp_all add: audit_pending_queue iam_wf_def)

section \<open>Every access keeps it\<close>

lemma drain_ok_frame:
  assumes "drain_ok c buf p" "iam_auditTail c' = iam_auditTail c"
    and "iam_auditTail c \<noteq> iam_auditHead c \<Longrightarrow> iam_auditTail c' \<noteq> iam_auditHead c' \<and>
      iam_auditLog c' ! unat (iam_auditTail c) = iam_auditLog c ! unat (iam_auditTail c)"
  shows "drain_ok c' buf p"
  using assms by (cases p) auto

lemma append_ok_frame:
  "append_ok c e p \<Longrightarrow> append_ok (c\<lparr>iam_auditTail := t\<rparr>) e p"
  by (cases p) auto

lemma inv_decide:
  assumes "audit_inv old s" "\<not> at_overflow (decide_turn s)"
  shows "audit_inv old (decide_turn s)"
proof (cases "at_writer s")
  case (AuWrite e h)
  have wf: "iam_wf (at_iam s)" and h: "h = iam_auditHead (at_iam s)" "e = at_entry s"
    and d: "drain_ok (at_iam s) (at_buf s) (at_reader s)"
    using assms(1) AuWrite by (auto simp: audit_inv_def)
  note w = fill_slot [OF wf, where e = e]
  show ?thesis
    using assms(1) AuWrite h w drain_ok_frame [OF d, of "(at_iam s)\<lparr>iam_auditLog :=
      (iam_auditLog (at_iam s))[unat (iam_auditHead (at_iam s)) := e]\<rparr>"]
    by (simp add: audit_inv_def decide_turn_def)
next
  case (AuStore nh)
  have wf: "iam_wf (at_iam s)" and nh: "nh = u8_next 128 (iam_auditHead (at_iam s))"
      "iam_auditLog (at_iam s) ! unat (iam_auditHead (at_iam s)) = at_entry s"
    and d: "drain_ok (at_iam s) (at_buf s) (at_reader s)"
    using assms(1) AuStore by (auto simp: audit_inv_def)
  have room: "u8_next 128 (iam_auditHead (at_iam s)) \<noteq> iam_auditTail (at_iam s)"
    using assms(2) AuStore nh by (simp add: decide_turn_def)
  note w = raise_head [OF wf room]
  show ?thesis
    using assms(1) AuStore nh w room drain_ok_frame [OF d, of "(at_iam s)\<lparr>iam_auditHead :=
      u8_next 128 (iam_auditHead (at_iam s))\<rparr>"]
    by (simp add: audit_inv_def decide_turn_def)
qed (use assms(1) in \<open>auto simp: audit_inv_def decide_turn_def\<close>)

lemma inv_drain:
  assumes "audit_inv old s"
  shows "audit_inv old (drain_turn s)"
proof (cases "at_reader s")
  case (DrStore n k t)
  have wf: "iam_wf (at_iam s)" and t: "t = iam_auditTail (at_iam s)" "t \<noteq> iam_auditHead (at_iam s)"
      "at_buf s ! k = iam_auditLog (at_iam s) ! unat t" "k < length (at_buf s)" "Suc k \<le> n"
    using assms DrStore by (auto simp: audit_inv_def)
  have ne: "iam_auditTail (at_iam s) \<noteq> iam_auditHead (at_iam s)" using t by simp
  note w = raise_tail [OF wf ne]
  have "take (Suc k) (at_buf s) = take k (at_buf s) @ [iam_auditLog (at_iam s) ! unat t]"
    using t by (simp add: take_Suc_conv_app_nth)
  then show ?thesis
    using assms DrStore w t append_ok_frame by (auto simp: audit_inv_def drain_turn_def)
qed (use assms in \<open>auto simp: audit_inv_def drain_turn_def\<close>)

lemma decide_overflow: "at_overflow s \<Longrightarrow> at_overflow (decide_turn s)"
  by (simp add: decide_turn_def split: prod.split)

lemma drain_overflow: "at_overflow (drain_turn s) = at_overflow s"
  by (simp add: drain_turn_def split: prod.split)

lemma inv_audit_step:
  assumes "audit_step s s'" "at_overflow s \<or> audit_inv old s"
  shows "at_overflow s' \<or> audit_inv old s'"
  using assms
proof (induction rule: audit_step.induct)
  case (at_write s)
  then show ?case using inv_decide decide_overflow by blast
next
  case (at_read s)
  then show ?case using inv_drain drain_overflow by blast
qed (auto simp: audit_inv_def)

lemma inv_audit_run:
  assumes "audit_step\<^sup>*\<^sup>* (audit_start c) s" "iam_wf c"
  shows "at_overflow s \<or> audit_inv (audit_pending c) s"
  using assms(1)
proof induction
  case base
  show ?case using audit_inv_start [OF assms(2)] by blast
next
  case (step s s')
  then show ?case using inv_audit_step by blast
qed

lemma no_slot_race: "audit_inv old s \<Longrightarrow> \<not> slot_race s"
  by (auto simp: audit_inv_def slot_race_def)

section \<open>With a full ring\<close>

text \<open>
  With 127 records waiting the head that an append stores is the tail: while a drain is about to
  copy the oldest record, the next append is about to write over it.
\<close>

lemma full_ring_race:
  assumes "iam_wf c" "iam_initialised c" "length (audit_pending c) = 127"
  shows "\<exists>s. audit_step\<^sup>*\<^sup>* (audit_start c) s \<and> slot_race s"
proof -
  have full: "u8_next 128 (iam_auditHead c) = iam_auditTail c"
    using assms audit_ring.queue_full_iff [of "iam_auditTail c" "iam_auditHead c" "iam_auditLog c"]
    by (simp add: audit_pending_queue iam_wf_def)
  have ne: "iam_auditTail c \<noteq> iam_auditHead c"
    using assms by (auto simp: audit_pending_queue iam_wf_def)
  obtain e where e: "e = authorise_record 0 0 0 kRead 0 c" by blast
  let ?a = "(audit_start c)\<lparr>at_writer := AuLoad e, at_entry := e\<rparr>"
  let ?b = "(decide_turn (decide_turn ?a))\<lparr>at_reader := DrTail (unat (1 :: u8)) 0, at_buf := [e]\<rparr>"
  let ?c = "decide_turn (drain_turn (drain_turn ?b))"
  obtain e' where e': "e' = authorise_record 0 0 0 kRead 0 (at_iam ?c)" by blast
  let ?d = "decide_turn (?c\<lparr>at_writer := AuLoad e', at_entry := e'\<rparr>)"
  have "audit_step (audit_start c) ?a"
    by (rule at_authorise [where t = 0 and pr = 0 and sv = 0 and m = 0 and action = kRead])
      (simp_all add: audit_start_def assms(2) e)
  moreover have "audit_step\<^sup>*\<^sup>* ?a (decide_turn (decide_turn ?a))"
    by (meson at_write converse_rtranclp_into_rtranclp rtranclp.rtrancl_refl)
  moreover have "audit_step (decide_turn (decide_turn ?a)) ?b"
    by (rule at_drain) (simp_all add: audit_start_def decide_turn_def)
  moreover have "audit_step\<^sup>*\<^sup>* ?b ?c"
    by (meson at_write at_read converse_rtranclp_into_rtranclp rtranclp.rtrancl_refl)
  moreover have "audit_step ?c (?c\<lparr>at_writer := AuLoad e', at_entry := e'\<rparr>)"
    by (rule at_authorise [OF _ _ e'])
      (simp_all add: audit_start_def decide_turn_def drain_turn_def full ne assms(2))
  moreover have "audit_step (?c\<lparr>at_writer := AuLoad e', at_entry := e'\<rparr>) ?d" by (rule at_write)
  moreover have "slot_race ?d"
    by (simp add: slot_race_def audit_start_def decide_turn_def drain_turn_def full ne)
  ultimately show ?thesis
    by (meson r_into_rtranclp rtranclp_trans)
qed

end
