(* ===== verification/SlotTable.thy ===== *)
theory SlotTable
  imports SoaTypes
begin

text \<open>
  Fixed tables whose slots are claimed and released: the token buckets and the liveness
  entries. A claim for a key finds the active slot of that key or takes a free one; the client
  lemmas say that a key never holds two slots and that other holders are not disturbed.
\<close>

locale slot_table =
  fixes N :: nat
    and rows :: "'s \<Rightarrow> 'r list"
    and active :: "'r \<Rightarrow> bool"
    and key :: "'r \<Rightarrow> 'k"
    and wf :: "'s \<Rightarrow> bool"
    and claim :: "'k \<Rightarrow> 's \<Rightarrow> nat option \<times> 's"
  assumes rows_len: "wf s \<Longrightarrow> length (rows s) = N"
    and claim_wf: "wf s \<Longrightarrow> wf (snd (claim k s))"
    and claim_None: "wf s \<Longrightarrow> claim k s = (None, s') \<Longrightarrow> s' = s"
    and claim_Some: "wf s \<Longrightarrow> claim k s = (Some i, s') \<Longrightarrow>
      i < N \<and> active (rows s' ! i) \<and> key (rows s' ! i) = k \<and>
      (\<forall>j<N. j \<noteq> i \<longrightarrow> rows s' ! j = rows s ! j) \<and>
      (active (rows s ! i) \<and> key (rows s ! i) = k \<or>
       \<not> active (rows s ! i) \<and> (\<forall>j<N. active (rows s ! j) \<longrightarrow> key (rows s ! j) \<noteq> k))"
begin

definition holds :: "'s \<Rightarrow> nat \<Rightarrow> 'k \<Rightarrow> bool" where
  "holds s i k \<longleftrightarrow> i < N \<and> active (rows s ! i) \<and> key (rows s ! i) = k"

definition unique_holders :: "'s \<Rightarrow> bool" where
  "unique_holders s \<longleftrightarrow> (\<forall>i j k. holds s i k \<longrightarrow> holds s j k \<longrightarrow> i = j)"

lemma claim_holds: "wf s \<Longrightarrow> claim k s = (Some i, s') \<Longrightarrow> holds s' i k"
  using claim_Some by (auto simp: holds_def)

lemma claim_ne: "wf s \<Longrightarrow> claim k s = (Some i, s') \<Longrightarrow> holds s j l \<Longrightarrow> l \<noteq> k \<Longrightarrow> j \<noteq> i"
  using claim_Some by (auto simp: holds_def)

text \<open>A claim for one key leaves the slots of every other key as they are.\<close>

lemma claim_other:
  assumes "wf s" "claim k s = (oi, s')" "holds s j l" "l \<noteq> k"
  shows "rows s' ! j = rows s ! j"
proof (cases oi)
  case None
  then show ?thesis using claim_None [of s k s'] assms(1,2) by simp
next
  case (Some i)
  then have c: "claim k s = (Some i, s')" using assms(2) by simp
  have "j \<noteq> i" using claim_Some [OF assms(1) c] assms(3,4) by (auto simp: holds_def)
  then show ?thesis using claim_Some [OF assms(1) c] assms(3) by (auto simp: holds_def)
qed

lemma claim_holders:
  assumes "wf s" "claim k s = (Some i, s')"
  shows "holds s' j l \<longleftrightarrow> holds s j l \<or> j = i \<and> l = k"
proof (cases "j = i")
  case True
  then show ?thesis using claim_Some [OF assms] by (auto simp: holds_def)
next
  case False
  then have "j < N \<Longrightarrow> rows s' ! j = rows s ! j" using claim_Some [OF assms] by blast
  then show ?thesis using False by (auto simp: holds_def)
qed

lemma unique_claim:
  assumes "wf s" "unique_holders s"
  shows "unique_holders (snd (claim k s))"
proof (cases "claim k s")
  case (Pair oi s')
  show ?thesis
  proof (cases oi)
    case None
    then show ?thesis using Pair claim_None [of s k s'] assms by simp
  next
    case (Some i)
    then have c: "claim k s = (Some i, s')" using Pair by simp
    have old: "holds s j k \<Longrightarrow> j = i" for j
      using claim_Some [OF assms(1) c] assms(2) unfolding unique_holders_def holds_def by blast
    have "a = b" if "holds s' a l" "holds s' b l" for a b l
      using that assms(2) old unfolding claim_holders [OF assms(1) c] unique_holders_def by blast
    then show ?thesis unfolding c snd_conv unique_holders_def by blast
  qed
qed

text \<open>An operation that activates nothing and renames no active slot keeps the property.\<close>

lemma unique_shrink:
  assumes "unique_holders s" "\<And>i k. holds s' i k \<Longrightarrow> holds s i k"
  shows "unique_holders s'"
  using assms unfolding unique_holders_def by blast

definition busy :: "'s \<Rightarrow> nat set" where
  "busy s = {i. i < N \<and> active (rows s ! i)}"

lemma holds_busy: "holds s i k \<Longrightarrow> i \<in> busy s"
  by (simp add: holds_def busy_def)

lemma card_busy:
  assumes "unique_holders s"
  shows "card (busy s) = card {k. \<exists>i. holds s i k}"
proof -
  have "bij_betw (\<lambda>i. key (rows s ! i)) (busy s) {k. \<exists>i. holds s i k}"
    using assms unfolding bij_betw_def inj_on_def unique_holders_def
    by (auto simp: busy_def holds_def)
  then show ?thesis by (rule bij_betw_same_card)
qed

lemma busy_all: "card (busy s) = N \<Longrightarrow> j < N \<Longrightarrow> active (rows s ! j)"
  using card_subset_eq [of "{..<N}" "busy s"] by (force simp: busy_def)

end

text \<open>
  A table that serves requests through claims: a key without a slot gets one as long as one is
  free, its request is then granted, and with all slots taken it is refused with the table's
  error. So the table serves exactly \<open>N\<close> distinct keys.
\<close>

locale serving_table = slot_table N rows active key wf claim
  for N :: nat
    and rows :: "'s \<Rightarrow> 'r list"
    and active :: "'r \<Rightarrow> bool"
    and key :: "'r \<Rightarrow> 'k"
    and wf :: "'s \<Rightarrow> bool"
    and claim :: "'k \<Rightarrow> 's \<Rightarrow> nat option \<times> 's" +
  fixes serve :: "'k \<Rightarrow> 's \<Rightarrow> VoidResult \<times> 's"
    and ready :: "'s \<Rightarrow> bool"
    and full :: ErrorCode
  assumes claim_free: "wf s \<Longrightarrow> ready s \<Longrightarrow> \<forall>j. \<not> holds s j k \<Longrightarrow> fst (claim k s) = None \<Longrightarrow> j < N \<Longrightarrow>
      active (rows s ! j)"
    and serve_fresh: "wf s \<Longrightarrow> ready s \<Longrightarrow> \<forall>j. \<not> holds s j k \<Longrightarrow> claim k s = (Some i, s') \<Longrightarrow>
      fst (serve k s) = Ok () \<and> wf (snd (serve k s)) \<and> ready (snd (serve k s)) \<and>
      (\<forall>j l. holds (snd (serve k s)) j l \<longleftrightarrow> holds s' j l)"
    and serve_full: "wf s \<Longrightarrow> ready s \<Longrightarrow> \<forall>j. \<not> holds s j k \<Longrightarrow> fst (claim k s) = None \<Longrightarrow>
      fst (serve k s) = Err full"
begin

definition open_to :: "'k set \<Rightarrow> 's \<Rightarrow> bool" where
  "open_to K s \<longleftrightarrow> wf s \<and> ready s \<and> unique_holders s \<and> {k. \<exists>i. holds s i k} = K"

lemma serve_new:
  assumes "open_to K s" "k \<notin> K" "finite K"
  shows "fst (serve k s) = (if card K < N then Ok () else Err full)"
    and "card K < N \<Longrightarrow> open_to (insert k K) (snd (serve k s))"
proof -
  have s: "wf s" "ready s" "unique_holders s" and none: "\<forall>j. \<not> holds s j k"
    using assms(1,2) by (auto simp: open_to_def)
  have card: "card (busy s) = card K" using assms(1) card_busy [OF s(3)] by (simp add: open_to_def)
  obtain oi s' where c: "claim k s = (oi, s')" by fastforce
  have u': "unique_holders s'" using unique_claim [OF s(1,3), of k] c by simp
  have some: "fst (serve k s) = Ok () \<and> open_to (insert k K) (snd (serve k s)) \<and> card K < N"
    if "oi = Some i" for i
  proof -
    have c: "claim k s = (Some i, s')" using c that by simp
    note f = serve_fresh [OF s(1,2) none c]
    have h: "holds s' j l \<longleftrightarrow> holds s j l \<or> j = i \<and> l = k" for j l by (rule claim_holders [OF s(1) c])
    have "i \<notin> busy s"
      using claim_Some [OF s(1) c] none by (auto simp: busy_def holds_def)
    then have "busy s \<subset> {..<N}" using claim_Some [OF s(1) c] by (auto simp: busy_def)
    then have "card (busy s) < N" using psubset_card_mono [of "{..<N}" "busy s"] by simp
    moreover have "unique_holders (snd (serve k s))" using u' f by (simp add: unique_holders_def)
    moreover have "{l. \<exists>j. holds (snd (serve k s)) j l} = insert k K"
      using f h assms(1) by (auto simp: open_to_def)
    ultimately show ?thesis using f card by (simp add: open_to_def)
  qed
  have none_full: "fst (serve k s) = Err full \<and> \<not> card K < N" if "oi = None"
  proof -
    have fc: "fst (claim k s) = None" using c that by simp
    have "busy s = {..<N}" using claim_free [OF s(1,2) none fc] by (auto simp: busy_def)
    then show ?thesis using serve_full [OF s(1,2) none fc] card by simp
  qed
  show "fst (serve k s) = (if card K < N then Ok () else Err full)"
    using some none_full by (cases oi) auto
  show "card K < N \<Longrightarrow> open_to (insert k K) (snd (serve k s))"
    using some none_full by (cases oi) auto
qed

lemma serve_all:
  assumes "open_to K s" "finite K" "distinct ks" "set ks \<inter> K = {}" "card K + length ks \<le> N"
  shows "fst (call_all (map serve ks) s) = replicate (length ks) (Ok ()) \<and>
    open_to (set ks \<union> K) (snd (call_all (map serve ks) s))"
  using assms
proof (induction ks arbitrary: K s)
  case (Cons k ks)
  have k: "k \<notin> K" "card K < N" using Cons.prems by auto
  note new = serve_new [OF Cons.prems(1) k(1) Cons.prems(2)]
  show ?case
    using Cons.IH [OF new(2) [OF k(2)]] Cons.prems(2-5) k new(1) by auto
qed simp

lemma serve_until_full:
  assumes "open_to {} s" "distinct ks" "length ks = N" "k \<notin> set ks"
  shows "fst (call_all (map serve (ks @ [k])) s) = replicate N (Ok ()) @ [Err full]"
proof -
  have all: "fst (call_all (map serve ks) s) = replicate N (Ok ())"
    "open_to (set ks) (snd (call_all (map serve ks) s))"
    using serve_all [OF assms(1) _ assms(2)] assms(3) by simp_all
  have "card (set ks) = N" using assms(2,3) by (simp add: distinct_card)
  then show ?thesis
    using serve_new(1) [OF all(2) assms(4)] all(1) by (simp add: call_all_append)
qed

end

end
