(* ===== verification/RateLimiter.thy ===== *)
theory RateLimiter
  imports SlotTable
begin

text \<open>
  \<open>include/RateLimiter.hpp\<close> and \<open>src/RateLimiter.cpp\<close>: per-source token buckets. The token
  counter is a signed 32-bit integer; it is an \<open>int\<close> here, and \<open>bucket_wf\<close> with
  \<open>refill_no_overflow\<close> shows that no intermediate value leaves that range. The
  compare-exchange loops are modelled by their effect when no other thread interferes.
\<close>

section \<open>State\<close>

definition kMaxTrackedSources :: nat where [simp]: "kMaxTrackedSources = 32"
definition kBurstCapacity :: int where [simp]: "kBurstCapacity = 20"
definition kRefillRatePerMs :: int where [simp]: "kRefillRatePerMs = 5"
definition kInvalidSourceId :: u32 where [simp]: "kInvalidSourceId = 0xFFFFFFFF"
definition kSourceEvictAfterMs :: u64 where [simp]: "kSourceEvictAfterMs = 5000"

record TokenBucket =
  tb_sourceId :: u32
  tb_tokens :: int
  tb_lastRefillMs :: u64
  tb_lastSeenMs :: u64
  tb_dropCount :: u32
  tb_passCount :: u32
  tb_active :: bool

definition TokenBucket_default :: TokenBucket where
  "TokenBucket_default =
     \<lparr>tb_sourceId = kInvalidSourceId, tb_tokens = kBurstCapacity, tb_lastRefillMs = 0,
      tb_lastSeenMs = 0, tb_dropCount = 0, tb_passCount = 0, tb_active = False\<rparr>"

record RateLimiterStats =
  rs_sourceId :: u32
  rs_tokens :: int
  rs_dropCount :: u32
  rs_passCount :: u32
  rs_active :: bool

definition RateLimiterStats_default :: RateLimiterStats where
  "RateLimiterStats_default =
     \<lparr>rs_sourceId = kInvalidSourceId, rs_tokens = 0, rs_dropCount = 0, rs_passCount = 0,
      rs_active = False\<rparr>"

record RateLimiter =
  rl_buckets :: "TokenBucket list"
  rl_initialised :: bool

definition RateLimiter_new :: RateLimiter where
  "RateLimiter_new =
     \<lparr>rl_buckets = replicate kMaxTrackedSources TokenBucket_default, rl_initialised = False\<rparr>"

section \<open>Operations\<close>

text \<open>The component's copy of the clock reading.\<close>

definition Rate_GetMonotonicMs :: "timespec option \<Rightarrow> u64" where
  "Rate_GetMonotonicMs r =
     (case r of None \<Rightarrow> 0 | Some ts \<Rightarrow> tv_sec ts * 1000 + tv_nsec ts div 1000000)"

lemma Rate_clock: "Rate_GetMonotonicMs = GetMonotonicMs"
  by (rule ext) (simp add: Rate_GetMonotonicMs_def GetMonotonicMs_def)

definition RateLimiter_Init :: "u64 \<Rightarrow> RateLimiter \<Rightarrow> VoidResult \<times> RateLimiter" where
  "RateLimiter_Init nowMs rl =
     (if rl_initialised rl then (Err kAlreadyRegistered, rl)
      else (Ok (), rl\<lparr>rl_initialised := True,
             rl_buckets := map (\<lambda>b. b\<lparr>tb_sourceId := kInvalidSourceId, tb_tokens := kBurstCapacity,
                                     tb_lastRefillMs := nowMs, tb_lastSeenMs := nowMs,
                                     tb_dropCount := 0, tb_passCount := 0, tb_active := False\<rparr>)
                           (rl_buckets rl)\<rparr>))"

text \<open>The result is the index, or \<open>kMaxTrackedSources\<close> when the table is full.\<close>

definition FindOrAllocate :: "u32 \<Rightarrow> u64 \<Rightarrow> RateLimiter \<Rightarrow> nat \<times> RateLimiter" where
  "FindOrAllocate sourceId nowMs rl =
     (case first_index (\<lambda>i. tb_active (rl_buckets rl ! i) \<and> tb_sourceId (rl_buckets rl ! i) = sourceId)
             kMaxTrackedSources of
        Some i \<Rightarrow> (i, rl)
      | None \<Rightarrow>
          (case first_index (\<lambda>i. \<not> tb_active (rl_buckets rl ! i)) kMaxTrackedSources of
             Some i \<Rightarrow>
               (i, rl\<lparr>rl_buckets := (rl_buckets rl)[i := (rl_buckets rl ! i)
                        \<lparr>tb_active := True, tb_sourceId := sourceId, tb_tokens := kBurstCapacity,
                         tb_lastRefillMs := nowMs, tb_lastSeenMs := nowMs, tb_dropCount := 0,
                         tb_passCount := 0\<rparr>]\<rparr>)
           | None \<Rightarrow> (kMaxTrackedSources, rl)))"

definition RefillBucket :: "u64 \<Rightarrow> TokenBucket \<Rightarrow> TokenBucket" where
  "RefillBucket nowMs bucket =
     (let lastMs = tb_lastRefillMs bucket
      in if nowMs \<le> lastMs then bucket
         else
           let elapsedMs = nowMs - lastMs;
               clampedMs = (if elapsedMs > 1000 then 1000 else elapsedMs);
               newTokens = int (unat clampedMs) * kRefillRatePerMs;
               current = tb_tokens bucket;
               updated = (if current + newTokens > kBurstCapacity then kBurstCapacity
                          else current + newTokens)
           in bucket\<lparr>tb_tokens := updated, tb_lastRefillMs := nowMs\<rparr>)"

text \<open>\<open>allocMs\<close> is the reading inside \<open>FindOrAllocate\<close>, \<open>seenMs\<close> the one after it.\<close>

definition Admit :: "u32 \<Rightarrow> u64 \<Rightarrow> u64 \<Rightarrow> RateLimiter \<Rightarrow> VoidResult \<times> RateLimiter" where
  "Admit sourceId allocMs seenMs rl =
     (if \<not> rl_initialised rl then (Err kNotInitialized, rl)
      else
        let (idx, rl1) = FindOrAllocate sourceId allocMs rl
        in if idx \<ge> kMaxTrackedSources then (Err kRegistryFull, rl1)
           else
             let b = (rl_buckets rl1 ! idx)\<lparr>tb_lastSeenMs := seenMs\<rparr>;
                 current = tb_tokens b
             in if current \<le> 0
                then (Err kQueueFull, rl1\<lparr>rl_buckets := (rl_buckets rl1)[idx :=
                        b\<lparr>tb_dropCount := tb_dropCount b + 1\<rparr>]\<rparr>)
                else (Ok (), rl1\<lparr>rl_buckets := (rl_buckets rl1)[idx :=
                        b\<lparr>tb_tokens := current - 1, tb_passCount := tb_passCount b + 1\<rparr>]\<rparr>))"

definition RefillAll :: "u64 \<Rightarrow> RateLimiter \<Rightarrow> RateLimiter" where
  "RefillAll nowMs rl =
     (if \<not> rl_initialised rl then rl
      else rl\<lparr>rl_buckets := map (\<lambda>b. if tb_active b then RefillBucket nowMs b else b) (rl_buckets rl)\<rparr>)"

definition evict_bucket :: "u64 \<Rightarrow> TokenBucket \<Rightarrow> TokenBucket" where
  "evict_bucket nowMs b =
     (if \<not> tb_active b then b
      else
        let lastSeen = tb_lastSeenMs b
        in if nowMs \<ge> lastSeen \<and> nowMs - lastSeen > kSourceEvictAfterMs
           then b\<lparr>tb_sourceId := kInvalidSourceId, tb_tokens := kBurstCapacity,
                  tb_dropCount := 0, tb_passCount := 0, tb_active := False\<rparr>
           else b)"

definition EvictIdle :: "u64 \<Rightarrow> RateLimiter \<Rightarrow> RateLimiter" where
  "EvictIdle nowMs rl =
     (if \<not> rl_initialised rl then rl
      else rl\<lparr>rl_buckets := map (evict_bucket nowMs) (rl_buckets rl)\<rparr>)"

definition RateLimiter_GetStats :: "u32 \<Rightarrow> RateLimiter \<Rightarrow> bool \<times> RateLimiterStats" where
  "RateLimiter_GetStats sourceId rl =
     (case first_index (\<lambda>i. tb_active (rl_buckets rl ! i) \<and> tb_sourceId (rl_buckets rl ! i) = sourceId)
             kMaxTrackedSources of
        Some i \<Rightarrow>
          let b = rl_buckets rl ! i
          in (True, \<lparr>rs_sourceId = sourceId, rs_tokens = tb_tokens b, rs_dropCount = tb_dropCount b,
                     rs_passCount = tb_passCount b, rs_active = True\<rparr>)
      | None \<Rightarrow> (False, RateLimiterStats_default))"

definition ActiveSourceCount :: "RateLimiter \<Rightarrow> u8" where
  "ActiveSourceCount rl =
     fold (\<lambda>i count. if tb_active (rl_buckets rl ! i) then count + 1 else count)
       [0..<kMaxTrackedSources] 0"

section \<open>Buckets\<close>

definition bucket_wf :: "TokenBucket \<Rightarrow> bool" where
  "bucket_wf b \<longleftrightarrow> 0 \<le> tb_tokens b \<and> tb_tokens b \<le> 20"

definition rl_wf :: "RateLimiter \<Rightarrow> bool" where
  "rl_wf rl \<longleftrightarrow> length (rl_buckets rl) = 32 \<and> list_all bucket_wf (rl_buckets rl)"

lemma rl_wf_new: "rl_wf RateLimiter_new"
  by (simp add: rl_wf_def RateLimiter_new_def TokenBucket_default_def bucket_wf_def list_all_length)

lemma RefillBucket_wf: "bucket_wf b \<Longrightarrow> bucket_wf (RefillBucket now b)"
  by (auto simp: bucket_wf_def RefillBucket_def Let_def)

lemma refill_no_overflow:
  "bucket_wf b \<Longrightarrow> tb_tokens b + int (unat (if (e :: u64) > 1000 then 1000 else e)) * kRefillRatePerMs < 2 ^ 31"
  by (auto simp: bucket_wf_def word_less_def not_less)

text \<open>A refill adds at most five tokens for each millisecond since the last one.\<close>

lemma RefillBucket_rate:
  "tb_tokens (RefillBucket now b) - tb_tokens b \<le>
     5 * (int (unat (tb_lastRefillMs (RefillBucket now b))) - int (unat (tb_lastRefillMs b)))"
proof (cases "now \<le> tb_lastRefillMs b")
  case False
  then have gt: "unat (tb_lastRefillMs b) < unat now" by (simp add: word_le_nat_alt)
  have d: "int (unat (now - tb_lastRefillMs b)) = int (unat now) - int (unat (tb_lastRefillMs b))"
    using False gt by (simp add: unat_sub)
  have "int (unat (if now - tb_lastRefillMs b > 1000 then 1000 else now - tb_lastRefillMs b))
      \<le> int (unat (now - tb_lastRefillMs b))"
    by (simp add: word_less_def)
  then show ?thesis
    using False d by (auto simp: RefillBucket_def Let_def)
qed (simp add: RefillBucket_def)

lemma RefillBucket_frame [simp]:
  "tb_active (RefillBucket now b) = tb_active b" "tb_sourceId (RefillBucket now b) = tb_sourceId b"
  "tb_lastSeenMs (RefillBucket now b) = tb_lastSeenMs b"
  by (simp_all add: RefillBucket_def Let_def)

lemma RefillBucket_last: "tb_lastRefillMs (RefillBucket now b) = max now (tb_lastRefillMs b)"
  by (simp add: RefillBucket_def Let_def max_def)

lemma evict_bucket_wf: "bucket_wf b \<Longrightarrow> bucket_wf (evict_bucket now b)"
  by (simp add: bucket_wf_def evict_bucket_def Let_def)

section \<open>The table\<close>

definition find_source :: "u32 \<Rightarrow> RateLimiter \<Rightarrow> nat option" where
  "find_source src rl =
     first_index (\<lambda>i. tb_active (rl_buckets rl ! i) \<and> tb_sourceId (rl_buckets rl ! i) = src) 32"

definition claim_bucket :: "u64 \<Rightarrow> u32 \<Rightarrow> RateLimiter \<Rightarrow> nat option \<times> RateLimiter" where
  "claim_bucket now src rl =
     (let (i, rl') = FindOrAllocate src now rl in (if i \<ge> 32 then None else Some i, rl'))"

definition fresh_bucket :: "u32 \<Rightarrow> u64 \<Rightarrow> TokenBucket" where
  "fresh_bucket src now =
     \<lparr>tb_sourceId = src, tb_tokens = 20, tb_lastRefillMs = now, tb_lastSeenMs = now,
      tb_dropCount = 0, tb_passCount = 0, tb_active = True\<rparr>"

lemma claim_bucket_cases:
  obtains (found) i where "claim_bucket now src rl = (Some i, rl)" "i < 32"
      "tb_active (rl_buckets rl ! i)" "tb_sourceId (rl_buckets rl ! i) = src"
  | (fresh) i where "claim_bucket now src rl =
        (Some i, rl\<lparr>rl_buckets := (rl_buckets rl)[i := fresh_bucket src now]\<rparr>)" "i < 32"
      "\<not> tb_active (rl_buckets rl ! i)"
      "\<forall>j<32. tb_active (rl_buckets rl ! j) \<longrightarrow> tb_sourceId (rl_buckets rl ! j) \<noteq> src"
  | (full) "claim_bucket now src rl = (None, rl)" "\<forall>j<32. tb_active (rl_buckets rl ! j)"
      "\<forall>j<32. tb_sourceId (rl_buckets rl ! j) \<noteq> src"
proof (cases "find_source src rl")
  case (Some i)
  note s = Some [unfolded find_source_def]
  from first_index_SomeD [OF s] show ?thesis
    using found [of i] s by (simp add: claim_bucket_def FindOrAllocate_def)
next
  case None
  note n = None [unfolded find_source_def]
  have none: "\<forall>j<32. tb_active (rl_buckets rl ! j) \<longrightarrow> tb_sourceId (rl_buckets rl ! j) \<noteq> src"
    using n by (simp add: first_index_None_iff)
  show ?thesis
  proof (cases "first_index (\<lambda>i. \<not> tb_active (rl_buckets rl ! i)) 32")
    case (Some i)
    have "(rl_buckets rl ! i)\<lparr>tb_active := True, tb_sourceId := src, tb_tokens := 20,
        tb_lastRefillMs := now, tb_lastSeenMs := now, tb_dropCount := 0, tb_passCount := 0\<rparr>
        = fresh_bucket src now"
      by (simp add: fresh_bucket_def)
    then show ?thesis
      using fresh [of i] first_index_SomeD [OF Some] none Some n
      by (simp add: claim_bucket_def FindOrAllocate_def)
  next
    case None
    then have all: "\<forall>j<32. tb_active (rl_buckets rl ! j)" by (simp add: first_index_None_iff)
    then show ?thesis
      using full none None n by (simp add: claim_bucket_def FindOrAllocate_def)
  qed
qed

lemma rl_wf_claim: "rl_wf rl \<Longrightarrow> rl_wf (snd (claim_bucket now src rl))"
  by (rule claim_bucket_cases [of now src rl])
    (auto simp: rl_wf_def list_all_length nth_list_update fresh_bucket_def bucket_wf_def)

interpretation buckets: slot_table 32 rl_buckets tb_active tb_sourceId rl_wf "claim_bucket now"
  for now
proof unfold_locales
  fix rl rl' k i
  show "rl_wf rl \<Longrightarrow> length (rl_buckets rl) = 32" by (simp add: rl_wf_def)
  show "rl_wf rl \<Longrightarrow> rl_wf (snd (claim_bucket now k rl))" by (rule rl_wf_claim)
  show "rl_wf rl \<Longrightarrow> claim_bucket now k rl = (None, rl') \<Longrightarrow> rl' = rl"
    by (rule claim_bucket_cases [of now k rl]) simp_all
  assume wf: "rl_wf rl" and c: "claim_bucket now k rl = (Some i, rl')"
  then show "i < 32 \<and> tb_active (rl_buckets rl' ! i) \<and> tb_sourceId (rl_buckets rl' ! i) = k \<and>
      (\<forall>j<32. j \<noteq> i \<longrightarrow> rl_buckets rl' ! j = rl_buckets rl ! j) \<and>
      (tb_active (rl_buckets rl ! i) \<and> tb_sourceId (rl_buckets rl ! i) = k \<or>
       \<not> tb_active (rl_buckets rl ! i) \<and>
       (\<forall>j<32. tb_active (rl_buckets rl ! j) \<longrightarrow> tb_sourceId (rl_buckets rl ! j) \<noteq> k))"
    by (rule_tac claim_bucket_cases [of now k rl]) (auto simp: rl_wf_def fresh_bucket_def)
qed

end
