(* ===== verification/RateBound.thy ===== *)
theory RateBound
  imports RateLimiter
begin

text \<open>
  The limiter over time: sequences of admissions, refills and evictions under a clock that
  does not go back, and the bound they keep: since initialisation a source is granted at most
  the burst capacity plus the refill rate times the elapsed time, evictions and re-creations
  of its bucket included.
\<close>

section \<open>Admission in terms of the claimed bucket\<close>

definition spend :: "u64 \<Rightarrow> TokenBucket \<Rightarrow> VoidResult \<times> TokenBucket" where
  "spend t b =
     (if tb_tokens b \<le> 0 then (Err kQueueFull, b\<lparr>tb_lastSeenMs := t, tb_dropCount := tb_dropCount b + 1\<rparr>)
      else (Ok (), b\<lparr>tb_lastSeenMs := t, tb_tokens := tb_tokens b - 1, tb_passCount := tb_passCount b + 1\<rparr>))"

lemma Admit_claim:
  assumes "rl_initialised rl"
  shows "Admit src t1 t2 rl =
    (case claim_bucket t1 src rl of
       (None, rl') \<Rightarrow> (Err kRegistryFull, rl')
     | (Some i, rl') \<Rightarrow>
         (fst (spend t2 (rl_buckets rl' ! i)),
          rl'\<lparr>rl_buckets := (rl_buckets rl')[i := snd (spend t2 (rl_buckets rl' ! i))]\<rparr>))"
  using assms by (auto simp: Admit_def claim_bucket_def spend_def Let_def split: prod.split)

lemma spend_frame [simp]:
  "tb_active (snd (spend t b)) = tb_active b" "tb_sourceId (snd (spend t b)) = tb_sourceId b"
  "tb_lastSeenMs (snd (spend t b)) = t" "tb_lastRefillMs (snd (spend t b)) = tb_lastRefillMs b"
  by (simp_all add: spend_def)

lemma spend_wf: "bucket_wf b \<Longrightarrow> bucket_wf (snd (spend t b))"
  by (simp add: spend_def bucket_wf_def)

lemma claim_bucket_init [simp]: "rl_initialised (snd (claim_bucket t src rl)) = rl_initialised rl"
  by (rule claim_bucket_cases [of t src rl]) simp_all

lemma rl_wf_bucket: "rl_wf rl \<Longrightarrow> i < 32 \<Longrightarrow> bucket_wf (rl_buckets rl ! i)"
  by (simp add: rl_wf_def list_all_length)

lemma rl_wf_update: "rl_wf rl \<Longrightarrow> bucket_wf b \<Longrightarrow> rl_wf (rl\<lparr>rl_buckets := (rl_buckets rl)[i := b]\<rparr>)"
  by (cases "i < 32") (auto simp: rl_wf_def list_all_length nth_list_update)

lemma rl_wf_Admit: "rl_wf rl \<Longrightarrow> rl_wf (snd (Admit src t1 t2 rl))"
proof (cases "rl_initialised rl")
  case True
  assume wf: "rl_wf rl"
  obtain oi rl' where c: "claim_bucket t1 src rl = (oi, rl')" by fastforce
  have wf': "rl_wf rl'" using rl_wf_claim [OF wf, of t1 src] c by simp
  show ?thesis
  proof (cases oi)
    case None
    then show ?thesis using c wf' by (simp add: Admit_claim [OF True])
  next
    case (Some i)
    have "i < 32" using buckets.claim_Some [OF wf] c Some by blast
    then show ?thesis
      using c Some by (simp add: Admit_claim [OF True] rl_wf_update [OF wf'] spend_wf rl_wf_bucket [OF wf'])
  qed
qed (simp add: Admit_def)

lemma rl_wf_RefillAll: "rl_wf rl \<Longrightarrow> rl_wf (RefillAll t rl)"
  by (auto simp: rl_wf_def RefillAll_def list_all_iff RefillBucket_wf)

lemma rl_wf_EvictIdle: "rl_wf rl \<Longrightarrow> rl_wf (EvictIdle t rl)"
  by (auto simp: rl_wf_def EvictIdle_def list_all_iff evict_bucket_wf)

lemma rl_wf_Init: "rl_wf rl \<Longrightarrow> rl_wf (snd (RateLimiter_Init t rl))"
  by (auto simp: rl_wf_def RateLimiter_Init_def list_all_iff bucket_wf_def)

lemma initialised_ops [simp]:
  "rl_initialised (RefillAll t rl) = rl_initialised rl"
  "rl_initialised (EvictIdle t rl) = rl_initialised rl"
  "rl_initialised (snd (Admit src t1 t2 rl)) = rl_initialised rl"
proof -
  show "rl_initialised (snd (Admit src t1 t2 rl)) = rl_initialised rl"
  proof (cases "rl_initialised rl")
    case True
    obtain oi rl' where c: "claim_bucket t1 src rl = (oi, rl')" by fastforce
    then have "rl_initialised rl'" using claim_bucket_init [of t1 src rl] True by simp
    then show ?thesis using c True by (cases oi) (simp_all add: Admit_claim [OF True])
  qed (simp add: Admit_def)
qed (simp_all add: RefillAll_def EvictIdle_def)

section \<open>Holders\<close>

lemma holders_spend:
  assumes "rl_wf rl"
  shows "buckets.holds (rl\<lparr>rl_buckets := (rl_buckets rl)[i := snd (spend t (rl_buckets rl ! i))]\<rparr>) j k
    = buckets.holds rl j k"
  using assms by (cases "i = j") (auto simp: buckets.holds_def rl_wf_def)

lemma Admit_fresh:
  assumes "rl_wf rl" "rl_initialised rl" "\<forall>j. \<not> buckets.holds rl j k" "claim_bucket t1 k rl = (Some i, rl')"
  shows "fst (Admit k t1 t2 rl) = Ok ()" "buckets.holds (snd (Admit k t1 t2 rl)) j l = buckets.holds rl' j l"
proof -
  have wf': "rl_wf rl'" using rl_wf_claim [OF assms(1), of t1 k] assms(4) by simp
  have "tb_tokens (rl_buckets rl' ! i) = 20"
    using assms(1,3,4)
    by (rule_tac claim_bucket_cases [of t1 k rl]) (auto simp: buckets.holds_def rl_wf_def fresh_bucket_def)
  then show "fst (Admit k t1 t2 rl) = Ok ()"
    by (simp add: Admit_claim [OF assms(2)] assms(4) spend_def)
  show "buckets.holds (snd (Admit k t1 t2 rl)) j l = buckets.holds rl' j l"
    by (simp add: Admit_claim [OF assms(2)] assms(4) holders_spend [OF wf'])
qed

interpretation sources: serving_table 32 rl_buckets tb_active tb_sourceId rl_wf "claim_bucket t1"
    "\<lambda>src. Admit src t1 t2" rl_initialised kRegistryFull
  for t1 t2
proof unfold_locales
  fix rl rl' k i j
  assume rl: "rl_wf rl" "rl_initialised rl" "\<forall>j. \<not> buckets.holds rl j k"
  show "claim_bucket t1 k rl = (Some i, rl') \<Longrightarrow> fst (Admit k t1 t2 rl) = Ok () \<and>
      rl_wf (snd (Admit k t1 t2 rl)) \<and> rl_initialised (snd (Admit k t1 t2 rl)) \<and>
      (\<forall>j l. buckets.holds (snd (Admit k t1 t2 rl)) j l \<longleftrightarrow> buckets.holds rl' j l)"
    using Admit_fresh [OF rl] rl by (simp add: rl_wf_Admit)
  assume none: "fst (claim_bucket t1 k rl) = None"
  show "j < 32 \<Longrightarrow> tb_active (rl_buckets rl ! j)"
    using none by (rule_tac claim_bucket_cases [of t1 k rl]) auto
  show "fst (Admit k t1 t2 rl) = Err kRegistryFull"
    using none rl(2) by (auto simp: Admit_claim split: prod.split)
qed

lemma holders_RefillAll: "rl_wf rl \<Longrightarrow> buckets.holds (RefillAll t rl) j k = buckets.holds rl j k"
  by (auto simp: buckets.holds_def RefillAll_def rl_wf_def split: if_splits)

lemma holders_EvictIdle: "rl_wf rl \<Longrightarrow> buckets.holds (EvictIdle t rl) j k \<Longrightarrow> buckets.holds rl j k"
  by (auto simp: buckets.holds_def EvictIdle_def rl_wf_def evict_bucket_def Let_def split: if_splits)

section \<open>Runs\<close>

record rate_run =
  rr_rl :: RateLimiter
  rr_now :: u64
  rr_admitted :: "u32 \<Rightarrow> nat"

inductive rate_step :: "rate_run \<Rightarrow> rate_run \<Rightarrow> bool" where
  r_admit: "rr_now s \<le> t1 \<Longrightarrow> t1 \<le> t2 \<Longrightarrow> Admit src t1 t2 (rr_rl s) = (r, rl') \<Longrightarrow>
    rate_step s (s\<lparr>rr_rl := rl', rr_now := t2,
      rr_admitted := (if res_ok r then (rr_admitted s)(src := Suc (rr_admitted s src)) else rr_admitted s)\<rparr>)"
| r_refill: "rr_now s \<le> t \<Longrightarrow> rate_step s (s\<lparr>rr_rl := RefillAll t (rr_rl s), rr_now := t\<rparr>)"
| r_evict: "rr_now s \<le> t \<Longrightarrow> rate_step s (s\<lparr>rr_rl := EvictIdle t (rr_rl s), rr_now := t\<rparr>)"

definition rate_start :: "u64 \<Rightarrow> RateLimiter \<Rightarrow> rate_run" where
  "rate_start t0 rl = \<lparr>rr_rl = rl, rr_now = t0, rr_admitted = (\<lambda>src. 0)\<rparr>"

text \<open>Milliseconds from \<open>t0\<close> to \<open>t\<close>.\<close>

definition since :: "u64 \<Rightarrow> u64 \<Rightarrow> int" where
  "since t0 t = uint t - uint t0"

definition bucket_bound :: "u64 \<Rightarrow> u64 \<Rightarrow> nat \<Rightarrow> TokenBucket \<Rightarrow> bool" where
  "bucket_bound t0 now n b \<longleftrightarrow>
     int n + tb_tokens b \<le> 20 + 5 * since t0 (tb_lastRefillMs b) \<and>
     int n \<le> 20 + 5 * since t0 (tb_lastSeenMs b) \<and>
     tb_lastRefillMs b \<le> now \<and> tb_lastSeenMs b \<le> now"

definition rate_inv :: "u64 \<Rightarrow> u32 \<Rightarrow> rate_run \<Rightarrow> bool" where
  "rate_inv t0 src s \<longleftrightarrow> rl_wf (rr_rl s) \<and> rl_initialised (rr_rl s) \<and>
     buckets.unique_holders (rr_rl s) \<and>
     (\<forall>i. buckets.holds (rr_rl s) i src \<longrightarrow>
        bucket_bound t0 (rr_now s) (rr_admitted s src) (rl_buckets (rr_rl s) ! i)) \<and>
     ((\<forall>i. \<not> buckets.holds (rr_rl s) i src) \<longrightarrow>
        int (rr_admitted s src) \<le> 5 * since t0 (rr_now s))"

lemma since_mono: "t \<le> t' \<Longrightarrow> since t0 t \<le> since t0 t'"
  by (simp add: since_def word_le_def)

lemma bucket_bound_later: "bucket_bound t0 now n b \<Longrightarrow> now \<le> t \<Longrightarrow> bucket_bound t0 t n b"
  by (auto simp: bucket_bound_def)

lemma bucket_bound_fresh:
  "int n \<le> 5 * since t0 now \<Longrightarrow> now \<le> t \<Longrightarrow> bucket_bound t0 t n (fresh_bucket src t)"
  using since_mono [of now t t0] by (simp add: bucket_bound_def fresh_bucket_def)

lemma bucket_bound_spend:
  assumes "bucket_bound t0 t1 n b" "t1 \<le> t2" "bucket_wf b"
  shows "bucket_bound t0 t2 (if res_ok (fst (spend t2 b)) then Suc n else n) (snd (spend t2 b))"
proof -
  have le: "tb_lastSeenMs b \<le> t2" "tb_lastRefillMs b \<le> t2"
    using assms(1,2) by (auto simp: bucket_bound_def)
  show ?thesis
    using assms le since_mono [OF le(1), of t0] since_mono [OF le(2), of t0]
    by (auto simp: bucket_bound_def spend_def bucket_wf_def split: if_splits)
qed

lemma bucket_bound_refill:
  assumes "bucket_bound t0 now n b" "now \<le> t"
  shows "bucket_bound t0 t n (RefillBucket t b)"
proof -
  have "tb_tokens (RefillBucket t b) - tb_tokens b
      \<le> 5 * (since t0 (tb_lastRefillMs (RefillBucket t b)) - since t0 (tb_lastRefillMs b))"
    using RefillBucket_rate [of t b] by (simp add: since_def)
  moreover have "tb_lastRefillMs (RefillBucket t b) \<le> t"
    using assms by (auto simp: RefillBucket_last bucket_bound_def)
  ultimately show ?thesis
    using assms by (auto simp: bucket_bound_def)
qed

lemma evicted_bound:
  assumes "bucket_bound t0 now n b" "tb_active b" "\<not> tb_active (evict_bucket t b)"
  shows "int n \<le> 5 * since t0 t"
proof -
  have "tb_lastSeenMs b \<le> t" "t - tb_lastSeenMs b > 5000"
    using assms(2,3) by (auto simp: evict_bucket_def Let_def split: if_splits)
  then have "unat (tb_lastSeenMs b) + 5000 \<le> unat t"
    by (simp add: word_le_nat_alt word_less_nat_alt unat_sub)
  then have "uint (tb_lastSeenMs b) + 5000 \<le> uint t"
    unfolding uint_nat by linarith
  then show ?thesis
    using assms(1) by (simp add: bucket_bound_def since_def)
qed

lemma evict_bucket_keep: "tb_active (evict_bucket t b) \<Longrightarrow> evict_bucket t b = b"
  by (auto simp: evict_bucket_def Let_def split: if_splits)

section \<open>Every step keeps the bound\<close>

lemma unique_RefillAll:
  "rl_wf rl \<Longrightarrow> buckets.unique_holders rl \<Longrightarrow> buckets.unique_holders (RefillAll t rl)"
  by (simp add: buckets.unique_holders_def holders_RefillAll)

lemma unique_EvictIdle:
  "rl_wf rl \<Longrightarrow> buckets.unique_holders rl \<Longrightarrow> buckets.unique_holders (EvictIdle t rl)"
  using buckets.unique_shrink [of rl "EvictIdle t rl"] holders_EvictIdle by blast

lemma unique_Admit:
  assumes "rl_wf rl" "rl_initialised rl" "buckets.unique_holders rl"
  shows "buckets.unique_holders (snd (Admit src t1 t2 rl))"
proof -
  obtain oi rl1 where c: "claim_bucket t1 src rl = (oi, rl1)" by fastforce
  have u: "buckets.unique_holders rl1" and wf: "rl_wf rl1"
    using buckets.unique_claim [OF assms(1,3), of t1 src] rl_wf_claim [OF assms(1), of t1 src] c by simp_all
  show ?thesis
    using u holders_spend [OF wf]
    by (cases oi) (simp_all add: Admit_claim [OF assms(2)] c buckets.unique_holders_def)
qed

lemma rate_inv_refill:
  assumes "rate_inv t0 src s" "rr_now s \<le> t"
  shows "rate_inv t0 src (s\<lparr>rr_rl := RefillAll t (rr_rl s), rr_now := t\<rparr>)"
proof -
  have wf: "rl_wf (rr_rl s)" "rl_initialised (rr_rl s)" using assms(1) by (simp_all add: rate_inv_def)
  have row: "rl_buckets (RefillAll t (rr_rl s)) ! i = RefillBucket t (rl_buckets (rr_rl s) ! i)"
    if "buckets.holds (rr_rl s) i src" for i
    using that wf by (simp add: RefillAll_def buckets.holds_def rl_wf_def)
  show ?thesis
    using assms wf row since_mono [OF assms(2), of t0]
    by (auto simp: rate_inv_def rl_wf_RefillAll holders_RefillAll bucket_bound_refill unique_RefillAll)
qed

lemma rate_inv_evict:
  assumes "rate_inv t0 src s" "rr_now s \<le> t"
  shows "rate_inv t0 src (s\<lparr>rr_rl := EvictIdle t (rr_rl s), rr_now := t\<rparr>)"
proof -
  let ?rl = "rr_rl s" and ?n = "rr_admitted s src"
  have wf: "rl_wf ?rl" "rl_initialised ?rl" using assms(1) by (simp_all add: rate_inv_def)
  have row: "rl_buckets (EvictIdle t ?rl) ! i = evict_bucket t (rl_buckets ?rl ! i)" if "i < 32" for i
    using that wf by (simp add: EvictIdle_def rl_wf_def)
  have bound: "bucket_bound t0 t ?n (rl_buckets ?rl ! i)" if "buckets.holds ?rl i src" for i
    using assms that by (auto simp: rate_inv_def intro: bucket_bound_later)
  have kept: "bucket_bound t0 t ?n (rl_buckets (EvictIdle t ?rl) ! i)"
    if h: "buckets.holds (EvictIdle t ?rl) i src" for i
  proof -
    have "i < 32" "tb_active (rl_buckets (EvictIdle t ?rl) ! i)" using h by (simp_all add: buckets.holds_def)
    then have "rl_buckets (EvictIdle t ?rl) ! i = rl_buckets ?rl ! i"
      by (simp add: row evict_bucket_keep)
    then show ?thesis using bound holders_EvictIdle [OF wf(1) h] by simp
  qed
  have gone: "int ?n \<le> 5 * since t0 t" if none: "\<forall>i. \<not> buckets.holds (EvictIdle t ?rl) i src"
  proof (cases "\<exists>i. buckets.holds ?rl i src")
    case True
    then obtain i where i: "buckets.holds ?rl i src" ..
    then have b: "tb_active (rl_buckets ?rl ! i)" "i < 32" "tb_sourceId (rl_buckets ?rl ! i) = src"
      by (simp_all add: buckets.holds_def)
    have "\<not> tb_active (evict_bucket t (rl_buckets ?rl ! i))"
    proof
      assume a: "tb_active (evict_bucket t (rl_buckets ?rl ! i))"
      then have "buckets.holds (EvictIdle t ?rl) i src"
        using b evict_bucket_keep [OF a] by (simp add: buckets.holds_def row)
      then show False using none by blast
    qed
    then show ?thesis using evicted_bound [OF bound [OF i] b(1)] by simp
  next
    case False
    then have "int ?n \<le> 5 * since t0 (rr_now s)" using assms(1) by (simp add: rate_inv_def)
    then show ?thesis using since_mono [OF assms(2), of t0] by simp
  qed
  show ?thesis
    using wf kept gone assms(1) by (simp add: rate_inv_def rl_wf_EvictIdle unique_EvictIdle)
qed

text \<open>After a claim at \<open>t1\<close>, the claimed bucket satisfies the bound for the claiming source.\<close>

lemma claim_bound:
  assumes "rate_inv t0 src s" "rr_now s \<le> t1" "claim_bucket t1 src (rr_rl s) = (Some i, rl')"
  shows "bucket_bound t0 t1 (rr_admitted s src) (rl_buckets rl' ! i)"
proof (rule claim_bucket_cases [of t1 src "rr_rl s"])
  fix j
  assume "claim_bucket t1 src (rr_rl s) = (Some j, rr_rl s)" "j < 32"
    "tb_active (rl_buckets (rr_rl s) ! j)" "tb_sourceId (rl_buckets (rr_rl s) ! j) = src"
  then show ?thesis
    using assms by (auto simp: rate_inv_def buckets.holds_def intro: bucket_bound_later)
next
  fix j
  assume c: "claim_bucket t1 src (rr_rl s) =
      (Some j, (rr_rl s)\<lparr>rl_buckets := (rl_buckets (rr_rl s))[j := fresh_bucket src t1]\<rparr>)" "j < 32"
    and none: "\<forall>j<32. tb_active (rl_buckets (rr_rl s) ! j) \<longrightarrow> tb_sourceId (rl_buckets (rr_rl s) ! j) \<noteq> src"
  have "int (rr_admitted s src) \<le> 5 * since t0 (rr_now s)"
    using assms(1) none by (auto simp: rate_inv_def buckets.holds_def)
  then show ?thesis
    using c assms by (auto simp: rate_inv_def rl_wf_def intro: bucket_bound_fresh)
qed (use assms(3) in simp)

lemma rate_inv_admit_same:
  assumes "rate_inv t0 src s" "rr_now s \<le> t1" "t1 \<le> t2" "Admit src t1 t2 (rr_rl s) = (r, rl')"
    and "n = (if res_ok r then Suc (rr_admitted s src) else rr_admitted s src)"
  shows "rate_inv t0 src (s\<lparr>rr_rl := rl', rr_now := t2, rr_admitted := (rr_admitted s)(src := n)\<rparr>)"
proof -
  let ?rl = "rr_rl s"
  have wf: "rl_wf ?rl" "rl_initialised ?rl" using assms(1) by (simp_all add: rate_inv_def)
  obtain oi rl1 where c: "claim_bucket t1 src ?rl = (oi, rl1)" by fastforce
  have wf1: "rl_wf rl1" using rl_wf_claim [OF wf(1), of t1 src] c by simp
  have rl': "rl_wf rl'" "rl_initialised rl'"
    using rl_wf_Admit [OF wf(1), of src t1 t2] initialised_ops(3) [of src t1 t2 ?rl] wf(2) assms(4) by simp_all
  have le: "rr_now s \<le> t2" using assms(2,3) by simp
  show ?thesis
  proof (cases oi)
    case None
    then have "rl' = ?rl" "n = rr_admitted s src"
      using assms(4,5) c buckets.claim_None [OF wf(1), of t1 src rl1] by (auto simp: Admit_claim [OF wf(2)])
    then show ?thesis
      using assms(1) bucket_bound_later [OF _ le] since_mono [OF le, of t0]
      by (auto simp: rate_inv_def)
  next
    case (Some i)
    then have c: "claim_bucket t1 src ?rl = (Some i, rl1)" using c by simp
    have i: "i < 32" using buckets.claim_Some [OF wf(1) c] by blast
    have eq: "rl' = rl1\<lparr>rl_buckets := (rl_buckets rl1)[i := snd (spend t2 (rl_buckets rl1 ! i))]\<rparr>"
      "r = fst (spend t2 (rl_buckets rl1 ! i))"
      using assms(4) c by (simp_all add: Admit_claim [OF wf(2)])
    have held: "buckets.holds rl1 j src \<longleftrightarrow> buckets.holds ?rl j src \<or> j = i" for j
      using buckets.claim_holders [OF wf(1) c, of j src] by simp
    have bi: "bucket_bound t0 t2 n (rl_buckets rl' ! i)"
      using bucket_bound_spend [OF claim_bound [OF assms(1,2) c] assms(3) rl_wf_bucket [OF wf1 i]]
        assms(5) wf1 i by (simp add: eq rl_wf_def)
    have hi: "buckets.holds rl' i src"
      using held [of i] holders_spend [OF wf1, of i t2 i src] by (simp add: eq)
    have u: "buckets.unique_holders rl'"
      using unique_Admit [OF wf, of src t1 t2] assms(1,4) by (simp add: rate_inv_def)
    then have "j = i" if "buckets.holds rl' j src" for j
      using that hi unfolding buckets.unique_holders_def by blast
    then have "\<forall>j. buckets.holds rl' j src \<longrightarrow> bucket_bound t0 t2 n (rl_buckets rl' ! j)"
      using bi by blast
    then show ?thesis
      using rl' hi u by (auto simp: rate_inv_def)
  qed
qed

text \<open>Admitting another source leaves the buckets of \<open>src\<close> as they are.\<close>

lemma Admit_other:
  assumes "rl_wf rl" "rl_initialised rl" "other \<noteq> src"
  shows "buckets.holds (snd (Admit other t1 t2 rl)) j src = buckets.holds rl j src"
    and "buckets.holds rl j src \<Longrightarrow> rl_buckets (snd (Admit other t1 t2 rl)) ! j = rl_buckets rl ! j"
proof -
  obtain oi rl1 where c: "claim_bucket t1 other rl = (oi, rl1)" by fastforce
  have wf1: "rl_wf rl1" using rl_wf_claim [OF assms(1), of t1 other] c by simp
  have "buckets.holds (snd (Admit other t1 t2 rl)) j src = buckets.holds rl j src \<and>
      (buckets.holds rl j src \<longrightarrow> rl_buckets (snd (Admit other t1 t2 rl)) ! j = rl_buckets rl ! j)"
  proof (cases oi)
    case None
    then show ?thesis
      using c buckets.claim_None [OF assms(1), of t1 other rl1] by (simp add: Admit_claim [OF assms(2)])
  next
    case (Some i)
    then have c: "claim_bucket t1 other rl = (Some i, rl1)" using c by simp
    have ne: "buckets.holds rl j src \<Longrightarrow> j \<noteq> i"
      by (rule buckets.claim_ne [OF assms(1) c _ assms(3) [symmetric]])
    have eq: "snd (Admit other t1 t2 rl) =
        rl1\<lparr>rl_buckets := (rl_buckets rl1)[i := snd (spend t2 (rl_buckets rl1 ! i))]\<rparr>"
      by (simp add: Admit_claim [OF assms(2)] c)
    have "buckets.holds rl1 j src = buckets.holds rl j src"
      using buckets.claim_holders [OF assms(1) c, of j src] assms(3) by auto
    moreover have "buckets.holds rl j src \<Longrightarrow> rl_buckets (snd (Admit other t1 t2 rl)) ! j = rl_buckets rl ! j"
      using buckets.claim_other [OF assms(1) c _ assms(3) [symmetric]] ne by (simp add: eq)
    ultimately show ?thesis
      using holders_spend [OF wf1, of i t2 j src] by (simp add: eq)
  qed
  then show "buckets.holds (snd (Admit other t1 t2 rl)) j src = buckets.holds rl j src"
    "buckets.holds rl j src \<Longrightarrow> rl_buckets (snd (Admit other t1 t2 rl)) ! j = rl_buckets rl ! j"
    by blast+
qed

lemma rate_inv_admit_other:
  assumes "rate_inv t0 src s" "rr_now s \<le> t2" "Admit other t1 t2 (rr_rl s) = (r, rl')" "other \<noteq> src"
  shows "rate_inv t0 src (s\<lparr>rr_rl := rl', rr_now := t2, rr_admitted := (rr_admitted s)(other := n)\<rparr>)"
proof -
  let ?rl = "rr_rl s"
  have wf: "rl_wf ?rl" "rl_initialised ?rl" "buckets.unique_holders ?rl"
    using assms(1) by (simp_all add: rate_inv_def)
  have rl': "rl' = snd (Admit other t1 t2 ?rl)" using assms(3) by simp
  note same = Admit_other [OF wf(1,2) assms(4), where ?t1.0 = t1 and ?t2.0 = t2]
  show ?thesis
    using assms(1,4) wf same since_mono [OF assms(2), of t0] bucket_bound_later [OF _ assms(2)]
    by (auto simp: rate_inv_def rl' rl_wf_Admit unique_Admit)
qed

lemma rate_inv_step: "rate_step s s' \<Longrightarrow> rate_inv t0 src s \<Longrightarrow> rate_inv t0 src s'"
proof (induction rule: rate_step.induct)
  case (r_admit s t1 t2 who r rl')
  have le: "rr_now s \<le> t2" using r_admit.hyps(1,2) by simp
  have upd: "(if res_ok r then (rr_admitted s)(who := Suc (rr_admitted s who)) else rr_admitted s)
      = (rr_admitted s)(who := (if res_ok r then Suc (rr_admitted s who) else rr_admitted s who))"
    by auto
  show ?case
  proof (cases "who = src")
    case True
    have "Admit src t1 t2 (rr_rl s) = (r, rl')" using r_admit.hyps(3) True by simp
    from rate_inv_admit_same [OF r_admit.prems r_admit.hyps(1,2) this refl] show ?thesis
      unfolding True unfolding upd [unfolded True] .
  next
    case False
    from rate_inv_admit_other [OF r_admit.prems le r_admit.hyps(3) this] show ?thesis
      unfolding upd .
  qed
qed (simp_all add: rate_inv_refill rate_inv_evict)

lemma rate_inv_start:
  assumes "RateLimiter_Init t0 rl = (Ok (), rl')" "rl_wf rl"
  shows "rate_inv t0 src (rate_start t0 rl')"
proof -
  have none: "\<not> buckets.holds rl' i k" and "rl_initialised rl'" for i k
    using assms by (auto simp: RateLimiter_Init_def buckets.holds_def rl_wf_def split: if_splits)
  then show ?thesis
    using rl_wf_Init [OF assms(2), of t0] assms(1)
    by (simp add: rate_inv_def rate_start_def buckets.unique_holders_def since_def)
qed

lemma rate_inv_reachable:
  assumes "rate_step\<^sup>*\<^sup>* (rate_start t0 rl') s" "RateLimiter_Init t0 rl = (Ok (), rl')" "rl_wf rl"
  shows "rate_inv t0 src s"
  using assms(1)
  by induction (use assms(2,3) in \<open>auto intro: rate_inv_start rate_inv_step\<close>)

lemma rate_inv_total: "rate_inv t0 src s \<Longrightarrow> int (rr_admitted s src) \<le> 20 + 5 * since t0 (rr_now s)"
proof -
  assume i: "rate_inv t0 src s"
  show ?thesis
  proof (cases "\<exists>j. buckets.holds (rr_rl s) j src")
    case True
    then obtain j where "bucket_bound t0 (rr_now s) (rr_admitted s src) (rl_buckets (rr_rl s) ! j)"
      using i by (auto simp: rate_inv_def)
    then show ?thesis
      using since_mono [of "tb_lastSeenMs (rl_buckets (rr_rl s) ! j)" "rr_now s" t0]
      by (simp add: bucket_bound_def)
  next
    case False
    then show ?thesis using i by (simp add: rate_inv_def)
  qed
qed

end
