(* ===== verification/TokenRace.thy ===== *)
theory TokenRace
  imports RateBound
begin

text \<open>
  One token bucket of \<open>src/RateLimiter.cpp\<close> under concurrency, access by access: any number of
  \<open>Admit\<close> calls that have found the bucket, the one refill task, and a clock that does not go
  back. A compare-exchange succeeds only on the value it expects and, being weak, may fail
  on it as well; a failure reloads the value. The bucket is not evicted meanwhile.
\<close>

section \<open>Accesses\<close>

text \<open>
  \<open>Admit\<close> from the store to \<open>lastSeenMs\<close> on; \<open>ATry\<close> holds \<open>current\<close>, \<open>AGranted\<close> is past its
  successful exchange.
\<close>

datatype admit_pc = AIdle | ASeen u64 | ALoad | ATry int | AGranted

fun admit_access :: "u64 \<Rightarrow> bool \<Rightarrow> admit_pc \<Rightarrow> TokenBucket \<Rightarrow> admit_pc \<times> TokenBucket \<times> VoidResult option"
where
  "admit_access now spurious AIdle b = (ASeen now, b, None)"
| "admit_access now spurious (ASeen t) b = (ALoad, b\<lparr>tb_lastSeenMs := t\<rparr>, None)"
| "admit_access now spurious ALoad b = (ATry (tb_tokens b), b, None)"
| "admit_access now spurious (ATry current) b =
     (if current \<le> 0 then (AIdle, b\<lparr>tb_dropCount := tb_dropCount b + 1\<rparr>, Some (Err kQueueFull))
      else if tb_tokens b = current \<and> \<not> spurious
           then (AGranted, b\<lparr>tb_tokens := current - 1\<rparr>, None)
           else (ATry (tb_tokens b), b, None))"
| "admit_access now spurious AGranted b =
     (AIdle, b\<lparr>tb_passCount := tb_passCount b + 1\<rparr>, Some (Ok ()))"

text \<open>
  \<open>RefillBucket\<close> as \<open>RefillAll\<close> calls it: \<open>RRead\<close> holds \<open>nowMs\<close>, \<open>RLoad\<close> also \<open>newTokens\<close>, \<open>RTry\<close> also \<open>current\<close>;
  \<open>RStamp\<close> is before the store to \<open>lastRefillMs\<close>.
\<close>

datatype refill_pc = RIdle | RRead u64 | RLoad u64 int | RTry u64 int int | RStamp u64

fun refill_access :: "u64 \<Rightarrow> bool \<Rightarrow> refill_pc \<Rightarrow> TokenBucket \<Rightarrow> refill_pc \<times> TokenBucket" where
  "refill_access now spurious RIdle b = (RRead now, b)"
| "refill_access now spurious (RRead nowMs) b =
     (let lastMs = tb_lastRefillMs b
      in if nowMs \<le> lastMs then (RIdle, b)
         else
           let elapsedMs = nowMs - lastMs;
               clampedMs = (if elapsedMs > 1000 then 1000 else elapsedMs)
           in (RLoad nowMs (int (unat clampedMs) * kRefillRatePerMs), b))"
| "refill_access now spurious (RLoad nowMs newTokens) b = (RTry nowMs newTokens (tb_tokens b), b)"
| "refill_access now spurious (RTry nowMs newTokens current) b =
     (let updated = (if current + newTokens > kBurstCapacity then kBurstCapacity
                     else current + newTokens)
      in if tb_tokens b = current \<and> \<not> spurious then (RStamp nowMs, b\<lparr>tb_tokens := updated\<rparr>)
         else (RTry nowMs newTokens (tb_tokens b), b))"
| "refill_access now spurious (RStamp nowMs) b = (RIdle, b\<lparr>tb_lastRefillMs := nowMs\<rparr>)"

section \<open>Runs\<close>

record token_run =
  tr_bucket :: TokenBucket
  tr_admit :: "admit_pc list"
  tr_refill :: refill_pc
  tr_now :: u64
  tr_granted :: nat

definition token_start :: "TokenBucket \<Rightarrow> nat \<Rightarrow> u64 \<Rightarrow> token_run" where
  "token_start b n now =
     \<lparr>tr_bucket = b, tr_admit = replicate n AIdle, tr_refill = RIdle, tr_now = now, tr_granted = 0\<rparr>"

inductive token_step :: "token_run \<Rightarrow> token_run \<Rightarrow> bool" where
  t_clock: "tr_now s \<le> t \<Longrightarrow> token_step s (s\<lparr>tr_now := t\<rparr>)"
| t_admit: "i < length (tr_admit s) \<Longrightarrow>
    admit_access (tr_now s) spurious (tr_admit s ! i) (tr_bucket s) = (pc, b, r) \<Longrightarrow>
    token_step s (s\<lparr>tr_admit := (tr_admit s)[i := pc], tr_bucket := b,
                    tr_granted := (if r = Some (Ok ()) then Suc (tr_granted s) else tr_granted s)\<rparr>)"
| t_refill: "refill_access (tr_now s) spurious (tr_refill s) (tr_bucket s) = (pc, b) \<Longrightarrow>
    token_step s (s\<lparr>tr_refill := pc, tr_bucket := b\<rparr>)"

inductive_cases token_stepE: "token_step s s'"

text \<open>A turn of the \<open>i\<close>-th call without a spurious failure, for executing runs.\<close>

definition admit_turn :: "nat \<Rightarrow> token_run \<Rightarrow> token_run" where
  "admit_turn i s =
     (case admit_access (tr_now s) False (tr_admit s ! i) (tr_bucket s) of (pc, b, r) \<Rightarrow>
        s\<lparr>tr_admit := (tr_admit s)[i := pc], tr_bucket := b,
          tr_granted := (if r = Some (Ok ()) then Suc (tr_granted s) else tr_granted s)\<rparr>)"

lemma admit_turn_step: "i < length (tr_admit s) \<Longrightarrow> token_step s (admit_turn i s)"
  using t_admit [of i s False] by (simp add: admit_turn_def split: prod.split)

lemma length_admit_turn [simp]: "length (tr_admit (admit_turn i s)) = length (tr_admit s)"
  by (simp add: admit_turn_def split: prod.split)

lemma admit_turns_run:
  "\<forall>i \<in> set is. i < length (tr_admit s) \<Longrightarrow> token_step\<^sup>*\<^sup>* s (fold admit_turn is s)"
  by (induction "is" arbitrary: s) (auto intro: converse_rtranclp_into_rtranclp admit_turn_step)

section \<open>Without interference\<close>

text \<open>The accesses of one call in sequence have the effect of the operation modelled as one step.\<close>

definition admit_next :: "u64 \<Rightarrow> admit_pc \<times> TokenBucket \<times> VoidResult option \<Rightarrow>
    admit_pc \<times> TokenBucket \<times> VoidResult option" where
  "admit_next now x = (case x of (pc, b, _) \<Rightarrow> admit_access now False pc b)"

lemma admit_alone:
  "(admit_next t ^^ (if tb_tokens b \<le> 0 then 4 else 5)) (AIdle, b, None)
     = (AIdle, snd (spend t b), Some (fst (spend t b)))"
  by (simp add: admit_next_def spend_def numeral_eq_Suc)

definition refill_next :: "u64 \<Rightarrow> refill_pc \<times> TokenBucket \<Rightarrow> refill_pc \<times> TokenBucket" where
  "refill_next now x = (case x of (pc, b) \<Rightarrow> refill_access now False pc b)"

lemma refill_alone:
  "(refill_next t ^^ (if t \<le> tb_lastRefillMs b then 2 else 5)) (RIdle, b) = (RIdle, RefillBucket t b)"
  by (simp add: refill_next_def RefillBucket_def Let_def numeral_eq_Suc)

section \<open>The invariant\<close>

text \<open>
  The time up to which the bucket has been credited: the refiller has added the tokens of its
  reading before it stores that reading.
\<close>

definition credited :: "token_run \<Rightarrow> u64" where
  "credited s = (case tr_refill s of RStamp t \<Rightarrow> t | _ \<Rightarrow> tb_lastRefillMs (tr_bucket s))"

text \<open>The refiller's locals: a reading that is not ahead of the clock, and its credit.\<close>

fun refill_ok :: "u64 \<Rightarrow> u64 \<Rightarrow> refill_pc \<Rightarrow> bool" where
  "refill_ok lst now RIdle \<longleftrightarrow> True"
| "refill_ok lst now (RRead t) \<longleftrightarrow> t \<le> now"
| "refill_ok lst now (RLoad t n) \<longleftrightarrow> t \<le> now \<and> lst < t \<and> 0 \<le> n \<and> n \<le> 5 * (uint t - uint lst)"
| "refill_ok lst now (RTry t n _) \<longleftrightarrow> t \<le> now \<and> lst < t \<and> 0 \<le> n \<and> n \<le> 5 * (uint t - uint lst)"
| "refill_ok lst now (RStamp t) \<longleftrightarrow> t \<le> now \<and> lst < t"

definition token_inv :: "int \<Rightarrow> u64 \<Rightarrow> token_run \<Rightarrow> bool" where
  "token_inv k t0 s \<longleftrightarrow> bucket_wf (tr_bucket s) \<and> tb_lastRefillMs (tr_bucket s) \<le> tr_now s \<and>
     refill_ok (tb_lastRefillMs (tr_bucket s)) (tr_now s) (tr_refill s) \<and>
     int (tr_granted s) + int (count_list (tr_admit s) AGranted) + tb_tokens (tr_bucket s)
       \<le> k + 5 * (uint (credited s) - uint t0)"

lemma count_list_update:
  "i < length xs \<Longrightarrow> count_list (xs[i := x]) y + (if xs ! i = y then 1 else 0)
     = count_list xs y + (if x = y then 1 else 0)"
proof (induction xs arbitrary: i)
  case (Cons a xs)
  show ?case
  proof (cases i)
    case (Suc j)
    then show ?thesis
      using Cons.IH [of j] Cons.prems by (cases "xs ! j = y"; cases "x = y") simp_all
  qed simp
qed simp

lemma count_list_idle [simp]: "count_list (replicate n AIdle) AGranted = 0"
  by (induction n) simp_all

lemma token_inv_start:
  "bucket_wf b \<Longrightarrow> tb_lastRefillMs b \<le> now \<Longrightarrow> token_inv (tb_tokens b) (tb_lastRefillMs b) (token_start b n now)"
  by (simp add: token_inv_def token_start_def credited_def)

lemma refill_ok_later: "refill_ok lst now pc \<Longrightarrow> now \<le> t \<Longrightarrow> refill_ok lst t pc"
  by (cases pc) auto

lemma token_inv_clock: "token_inv k t0 s \<Longrightarrow> tr_now s \<le> t \<Longrightarrow> token_inv k t0 (s\<lparr>tr_now := t\<rparr>)"
  using refill_ok_later by (auto simp: token_inv_def credited_def cong: refill_pc.case_cong)

text \<open>An access of a call moves at most one token from the bucket to the calls in flight.\<close>

lemma admit_access_cases:
  assumes "admit_access now spurious p b = (p', b', r)" "bucket_wf b"
  shows "bucket_wf b'" "tb_lastRefillMs b' = tb_lastRefillMs b"
    "(if r = Some (Ok ()) then 1 else 0) + (if p' = AGranted then 1 else 0) + tb_tokens b'
       = (if p = AGranted then 1 else 0) + tb_tokens b"
  using assms by (cases p; auto simp: bucket_wf_def split: if_splits)+

lemma token_inv_admit:
  assumes "token_inv k t0 s" "i < length (tr_admit s)"
    and "admit_access (tr_now s) spurious (tr_admit s ! i) (tr_bucket s) = (pc, b, r)"
  shows "token_inv k t0 (s\<lparr>tr_admit := (tr_admit s)[i := pc], tr_bucket := b,
    tr_granted := (if r = Some (Ok ()) then Suc (tr_granted s) else tr_granted s)\<rparr>)" (is "token_inv k t0 ?s")
proof -
  note a = admit_access_cases [OF assms(3)]
  have wf: "bucket_wf (tr_bucket s)" using assms(1) by (simp add: token_inv_def)
  have "credited ?s = credited s"
    using a(2) [OF wf] by (simp add: credited_def split: refill_pc.split)
  moreover have "int (count_list ((tr_admit s)[i := pc]) AGranted) + (if tr_admit s ! i = AGranted then 1 else 0)
      = int (count_list (tr_admit s) AGranted) + (if pc = AGranted then 1 else 0)"
    using count_list_update [OF assms(2), of pc AGranted] by (simp split: if_splits)
  ultimately show ?thesis
    using assms(1) a [OF wf] by (simp add: token_inv_def split: if_splits)
qed

lemma refill_credit:
  assumes "\<not> t \<le> lst"
  shows "lst < t" "5 * int (unat (if t - lst > 1000 then 1000 else t - lst :: u64)) \<le> 5 * (uint t - uint lst)"
proof -
  show lt: "lst < t" using assms by simp
  have "uint (t - lst) = uint t - uint lst"
    using lt by (simp add: uint_sub_if' word_less_def)
  then show "5 * int (unat (if t - lst > 1000 then 1000 else t - lst :: u64)) \<le> 5 * (uint t - uint lst)"
    by (simp add: word_less_def)
qed

lemma token_inv_refill:
  assumes "token_inv k t0 s" "refill_access (tr_now s) spurious (tr_refill s) (tr_bucket s) = (pc, b)"
  shows "token_inv k t0 (s\<lparr>tr_refill := pc, tr_bucket := b\<rparr>)"
proof (cases "tr_refill s")
  case (RRead t)
  then show ?thesis
    using assms refill_credit [of t "tb_lastRefillMs (tr_bucket s)"]
    by (auto simp: token_inv_def credited_def Let_def split: if_splits)
next
  case (RTry t n c)
  then show ?thesis
    using assms by (auto simp: token_inv_def credited_def Let_def bucket_wf_def split: if_splits)
qed (use assms in \<open>auto simp: token_inv_def credited_def bucket_wf_def\<close>)

lemma token_inv_step: "token_step s s' \<Longrightarrow> token_inv k t0 s \<Longrightarrow> token_inv k t0 s'"
  by (elim token_stepE) (simp_all only: token_inv_clock token_inv_admit token_inv_refill)

lemma token_inv_reachable:
  assumes "token_step\<^sup>*\<^sup>* (token_start b n now) s" "bucket_wf b" "tb_lastRefillMs b \<le> now"
  shows "token_inv (tb_tokens b) (tb_lastRefillMs b) s"
  using assms(1)
  by induction (use assms(2,3) in \<open>auto intro: token_inv_start token_inv_step\<close>)

lemma credited_le_now: "token_inv k t0 s \<Longrightarrow> credited s \<le> tr_now s"
  by (auto simp: token_inv_def credited_def split: refill_pc.splits)

lemma token_inv_bound:
  assumes "token_inv k t0 s"
  shows "int (tr_granted s) + tb_tokens (tr_bucket s) \<le> k + 5 * (uint (tr_now s) - uint t0)"
    "0 \<le> tb_tokens (tr_bucket s)" "tb_tokens (tr_bucket s) \<le> 20"
  using assms credited_le_now [OF assms] by (auto simp: token_inv_def bucket_wf_def word_le_def)

section \<open>Progress\<close>

text \<open>
  The retry loops do not block each other: an exchange that is tried without a spurious failure
  fails only if another thread has changed the counter since this one read it.
\<close>

lemma exchange_fails_only_if_changed:
  "0 < current \<Longrightarrow> admit_access now False (ATry current) b = (ATry c, b', r) \<Longrightarrow> tb_tokens b \<noteq> current"
  by (auto split: if_splits)

end
