(* ===== verification/Hse.thy ===== *)
theory Hse
  imports SoaTypes
begin

text \<open>
  \<open>include/HseAdapter.hpp\<close> and \<open>src/HseAdapter.cpp\<close>: the requests to the hardware security
  engine over its message unit. The engine is outside the sources: \<open>hw writes addr i\<close> is the
  value that the \<open>i\<close>-th poll of the register at \<open>addr\<close> returns when \<open>writes\<close> are the register
  writes made so far. Each operation returns its result and the adapter with its trace of register writes.
  Pointers are 64-bit words, 0 being \<open>nullptr\<close>.
\<close>

section \<open>Constants and descriptors\<close>

definition kHseMuChannel :: u8 where "kHseMuChannel = 0"
definition kHseMaxDescriptors :: nat where [simp]: "kHseMaxDescriptors = 8"
definition kHseMacLengthBytes :: nat where [simp]: "kHseMacLengthBytes = 16"
definition kHseKeyHandleBytes :: nat where "kHseKeyHandleBytes = 4"
definition kHsePollTimeoutUs :: nat where [simp]: "kHsePollTimeoutUs = 5000"
definition kHseCertMaxBytes :: u16 where [simp]: "kHseCertMaxBytes = 4096"

type_synonym HseKeySlot = u32
definition kSecOcSymmetricKey :: HseKeySlot where "kSecOcSymmetricKey = 0x00010001"
definition kTlsRootCaKey :: HseKeySlot where "kTlsRootCaKey = 0x00020001"
definition kEcdhEphemeralKey :: HseKeySlot where "kEcdhEphemeralKey = 0x00030001"
definition kKeyInvalidSlot :: HseKeySlot where "kKeyInvalidSlot = 0xFFFFFFFF"

datatype HseServiceId = kMacGenerate | kMacVerify | kHashCompute | kCertVerify | kRngGenerate

fun HseServiceId_num :: "HseServiceId \<Rightarrow> u32" where
  "HseServiceId_num kMacGenerate = 0x00A50001"
| "HseServiceId_num kMacVerify = 0x00A50002"
| "HseServiceId_num kHashCompute = 0x00A50010"
| "HseServiceId_num kCertVerify = 0x00A50020"
| "HseServiceId_num kRngGenerate = 0x00A50030"

type_synonym HseStatus = u32
definition kHseOk :: HseStatus where [simp]: "kHseOk = 0"
definition kHseBusy :: HseStatus where [simp]: "kHseBusy = 1"
definition kHseTimeout :: HseStatus where [simp]: "kHseTimeout = 2"
definition kKeyInvalid :: HseStatus where [simp]: "kKeyInvalid = 0x10"
definition kMacMismatch :: HseStatus where [simp]: "kMacMismatch = 0x20"
definition kCertInvalid :: HseStatus where [simp]: "kCertInvalid = 0x30"
definition kGeneralError :: HseStatus where [simp]: "kGeneralError = 0xFFFFFFFF"

record HseServiceDescriptor =
  hd_serviceId :: HseServiceId
  hd_keySlot :: HseKeySlot
  hd_inputAddr :: u32
  hd_inputLen :: u32
  hd_outputAddr :: u32
  hd_outputLen :: u32
  hd_reserved :: "u32 list"

definition HseServiceDescriptor_default :: HseServiceDescriptor where
  "HseServiceDescriptor_default =
     \<lparr>hd_serviceId = kMacGenerate, hd_keySlot = kKeyInvalidSlot, hd_inputAddr = 0,
      hd_inputLen = 0, hd_outputAddr = 0, hd_outputLen = 0, hd_reserved = replicate 2 0\<rparr>"

record HseAdapter =
  hse_descPool :: "HseServiceDescriptor list"
  hse_rxMacBuf :: "u8 list"
  hse_initialised :: bool
  hse_writes :: "(u64 \<times> u32) list"

definition HseAdapter_new :: HseAdapter where
  "HseAdapter_new =
     \<lparr>hse_descPool = replicate kHseMaxDescriptors HseServiceDescriptor_default,
      hse_rxMacBuf = replicate kHseMacLengthBytes 0, hse_initialised = False, hse_writes = []\<rparr>"

definition kHseMuBaseAddr :: u64 where "kHseMuBaseAddr = 0x40210000"
definition kMuTrReg :: u64 where "kMuTrReg = 0x00"
definition kMuRrReg :: u64 where "kMuRrReg = 0x10"
definition kMuSrReg :: u64 where "kMuSrReg = 0x60"
definition kMuSrRdy :: u32 where [simp]: "kMuSrRdy = 0x00000008"

section \<open>Operations\<close>

type_synonym mu_reads = "(u64 \<times> u32) list \<Rightarrow> u64 \<Rightarrow> nat \<Rightarrow> u32"

definition ReadMmioReg :: "mu_reads \<Rightarrow> u64 \<Rightarrow> nat \<Rightarrow> HseAdapter \<Rightarrow> u32" where
  [simp]: "ReadMmioReg hw addr i h = hw (hse_writes h) addr i"

definition WriteMmioReg :: "u64 \<Rightarrow> u32 \<Rightarrow> HseAdapter \<Rightarrow> HseAdapter" where
  "WriteMmioReg addr v h = h\<lparr>hse_writes := hse_writes h @ [(addr, v)]\<rparr>"

definition PhysAddr :: "u64 \<Rightarrow> u32" where
  "PhysAddr ptr = ucast (ptr AND 0xFFFFFFFF)"

definition HseAdapter_Init :: "mu_reads \<Rightarrow> HseAdapter \<Rightarrow> VoidResult \<times> HseAdapter" where
  "HseAdapter_Init hw h =
     (if hse_initialised h then (Err kAlreadyRegistered, h)
      else
        let h1 = h\<lparr>hse_initialised := True,
                   hse_descPool := replicate kHseMaxDescriptors HseServiceDescriptor_default\<rparr>
        in case first_index (\<lambda>i. ReadMmioReg hw (kHseMuBaseAddr + kMuSrReg) i h1 AND kMuSrRdy \<noteq> 0) kHsePollTimeoutUs of
             Some i \<Rightarrow> (Ok (), h1)
           | None \<Rightarrow> (Err kTimeout, h1\<lparr>hse_initialised := False\<rparr>))"

definition SubmitAndPoll :: "mu_reads \<Rightarrow> HseServiceDescriptor \<Rightarrow>
    HseAdapter \<Rightarrow> HseStatus \<times> HseAdapter" where
  "SubmitAndPoll hw desc h =
     (let h1 = WriteMmioReg (kHseMuBaseAddr + kMuTrReg + 0x00) (HseServiceId_num (hd_serviceId desc)) h;
          h2 = WriteMmioReg (kHseMuBaseAddr + kMuTrReg + 0x04) (hd_keySlot desc) h1;
          h3 = WriteMmioReg (kHseMuBaseAddr + kMuTrReg + 0x08) (hd_inputAddr desc) h2;
          h4 = WriteMmioReg (kHseMuBaseAddr + kMuTrReg + 0x0C) (hd_inputLen desc) h3
      in case first_index (\<lambda>i. ReadMmioReg hw (kHseMuBaseAddr + kMuRrReg) i h4 \<noteq> kHseBusy) kHsePollTimeoutUs of
           Some i \<Rightarrow> (ReadMmioReg hw (kHseMuBaseAddr + kMuRrReg) i h4, h4)
         | None \<Rightarrow> (kHseTimeout, h4))"

text \<open>\<open>mac\<close> is the buffer at \<open>macAddr\<close>; the last component is its content after the call's own writes.\<close>

definition GenerateMac :: "mu_reads \<Rightarrow> u64 \<Rightarrow> u16 \<Rightarrow> HseKeySlot \<Rightarrow> u64 \<Rightarrow> u8 list \<Rightarrow>
    HseAdapter \<Rightarrow> VoidResult \<times> HseAdapter \<times> u8 list" where
  "GenerateMac hw data dataLen keySlot macAddr mac h =
     (if \<not> hse_initialised h then (Err kNotInitialized, h, mac)
      else if data = 0 then (Err kNullPointer, h, mac)
      else if dataLen = 0 then (Err kInvalidArgument, h, mac)
      else
        let mac0 = replicate kHseMacLengthBytes 0;
            desc = HseServiceDescriptor_default\<lparr>hd_serviceId := kMacGenerate, hd_keySlot := keySlot,
              hd_inputAddr := PhysAddr data, hd_inputLen := ucast dataLen,
              hd_outputAddr := PhysAddr macAddr, hd_outputLen := word_of_nat kHseMacLengthBytes\<rparr>;
            (status, h') = SubmitAndPoll hw desc h
        in if status \<noteq> kHseOk then (Err kE2eViolation, h', mac0) else (Ok (), h', mac0))"

text \<open>\<open>rxAddr\<close> is the address of the member \<open>rxMacBuf_\<close>.\<close>

definition VerifyMac :: "mu_reads \<Rightarrow> u64 \<Rightarrow> u64 \<Rightarrow> u16 \<Rightarrow> HseKeySlot \<Rightarrow> u8 list \<Rightarrow>
    HseAdapter \<Rightarrow> VoidResult \<times> HseAdapter" where
  "VerifyMac hw rxAddr data dataLen keySlot mac h =
     (if \<not> hse_initialised h then (Err kNotInitialized, h)
      else if data = 0 then (Err kNullPointer, h)
      else
        let h1 = h\<lparr>hse_rxMacBuf := mac\<rparr>;
            desc = HseServiceDescriptor_default\<lparr>hd_serviceId := kMacVerify, hd_keySlot := keySlot,
              hd_inputAddr := PhysAddr data, hd_inputLen := ucast dataLen,
              hd_outputAddr := PhysAddr rxAddr, hd_outputLen := word_of_nat kHseMacLengthBytes\<rparr>;
            (status, h2) = SubmitAndPoll hw desc h1
        in if status = kMacMismatch then (Err kChecksumMismatch, h2)
           else if status \<noteq> kHseOk then (Err kE2eViolation, h2)
           else (Ok (), h2))"

definition VerifyCertificate :: "mu_reads \<Rightarrow> u64 \<Rightarrow> u16 \<Rightarrow>
    HseAdapter \<Rightarrow> VoidResult \<times> HseAdapter" where
  "VerifyCertificate hw certDer certLen h =
     (if \<not> hse_initialised h then (Err kNotInitialized, h)
      else if certDer = 0 then (Err kNullPointer, h)
      else if certLen = 0 \<or> certLen > kHseCertMaxBytes then (Err kInvalidArgument, h)
      else
        let desc = HseServiceDescriptor_default\<lparr>hd_serviceId := kCertVerify, hd_keySlot := kTlsRootCaKey,
              hd_inputAddr := PhysAddr certDer, hd_inputLen := ucast certLen,
              hd_outputAddr := 0, hd_outputLen := 0\<rparr>;
            (status, h') = SubmitAndPoll hw desc h
        in if status = kCertInvalid then (Err kUnauthorized, h')
           else if status \<noteq> kHseOk then (Err kE2eViolation, h')
           else (Ok (), h'))"

definition GenerateRandom :: "mu_reads \<Rightarrow> u64 \<Rightarrow> u8 \<Rightarrow>
    HseAdapter \<Rightarrow> VoidResult \<times> HseAdapter" where
  "GenerateRandom hw buffer len h =
     (if \<not> hse_initialised h then (Err kNotInitialized, h)
      else if buffer = 0 then (Err kNullPointer, h)
      else if len = 0 \<or> len > 64 then (Err kInvalidArgument, h)
      else
        let desc = HseServiceDescriptor_default\<lparr>hd_serviceId := kRngGenerate, hd_keySlot := kKeyInvalidSlot,
              hd_inputAddr := 0, hd_inputLen := ucast len,
              hd_outputAddr := PhysAddr buffer, hd_outputLen := ucast len\<rparr>;
            (status, h') = SubmitAndPoll hw desc h
        in if status \<noteq> kHseOk then (Err kTimeout, h') else (Ok (), h'))"

definition IsReady :: "HseAdapter \<Rightarrow> bool" where
  "IsReady h = hse_initialised h"

section \<open>Requests and answers\<close>

text \<open>The four words that reach the engine.\<close>

definition request_words :: "HseServiceDescriptor \<Rightarrow> (u64 \<times> u32) list" where
  "request_words desc =
     [(kHseMuBaseAddr, HseServiceId_num (hd_serviceId desc)), (kHseMuBaseAddr + 4, hd_keySlot desc),
      (kHseMuBaseAddr + 8, hd_inputAddr desc), (kHseMuBaseAddr + 12, hd_inputLen desc)]"

text \<open>The status is the first value within the bound that is not busy.\<close>

definition status_of :: "mu_reads \<Rightarrow> (u64 \<times> u32) list \<Rightarrow> HseStatus" where
  "status_of hw tr =
     (case first_index (\<lambda>i. hw tr (kHseMuBaseAddr + kMuRrReg) i \<noteq> kHseBusy) 5000 of Some i \<Rightarrow> hw tr (kHseMuBaseAddr + kMuRrReg) i | None \<Rightarrow> kHseTimeout)"

lemma SubmitAndPoll_eq:
  "SubmitAndPoll hw desc h =
     (status_of hw (hse_writes h @ request_words desc),
      h\<lparr>hse_writes := hse_writes h @ request_words desc\<rparr>)"
  by (simp add: SubmitAndPoll_def WriteMmioReg_def request_words_def status_of_def kMuTrReg_def Let_def
      split: option.split)

lemma status_not_busy: "status_of hw tr \<noteq> kHseBusy"
  by (auto simp: status_of_def first_index_Some_iff split: option.split)

text \<open>A request succeeds when the first answer within the bound that is not busy is \<open>kHseOk\<close>.\<close>

definition accepted :: "mu_reads \<Rightarrow> (u64 \<times> u32) list \<Rightarrow> bool" where
  "accepted hw tr \<longleftrightarrow> (\<exists>i<5000. (\<forall>j<i. hw tr (kHseMuBaseAddr + kMuRrReg) j = kHseBusy) \<and>
     hw tr (kHseMuBaseAddr + kMuRrReg) i = kHseOk)"

lemma status_ok_iff: "status_of hw tr = kHseOk \<longleftrightarrow> accepted hw tr"
proof (cases "first_index (\<lambda>i. hw tr (kHseMuBaseAddr + kMuRrReg) i \<noteq> kHseBusy) 5000")
  case None
  then have "\<forall>i<5000. hw tr (kHseMuBaseAddr + kMuRrReg) i = kHseBusy" by (simp add: first_index_None_iff)
  then show ?thesis unfolding status_of_def None accepted_def by simp
next
  case (Some i)
  then have i: "i < 5000" "hw tr (kHseMuBaseAddr + kMuRrReg) i \<noteq> kHseBusy"
    "\<forall>j<i. hw tr (kHseMuBaseAddr + kMuRrReg) j = kHseBusy"
    by (simp_all add: first_index_Some_iff)
  have "k = i" if "hw tr (kHseMuBaseAddr + kMuRrReg) k = kHseOk"
      "\<forall>j<k. hw tr (kHseMuBaseAddr + kMuRrReg) j = kHseBusy" for k
    using that i by (cases k i rule: linorder_cases) auto
  then show ?thesis
    using i unfolding status_of_def Some accepted_def by auto
qed

text \<open>
  A request is answered from its four words alone: two descriptors that agree on them get the
  same status and leave the same trace, whatever their output address and length.
\<close>

lemma SubmitAndPoll_output_ignored:
  assumes "hd_serviceId d1 = hd_serviceId d2" "hd_keySlot d1 = hd_keySlot d2"
    "hd_inputAddr d1 = hd_inputAddr d2" "hd_inputLen d1 = hd_inputLen d2"
  shows "SubmitAndPoll hw d1 h = SubmitAndPoll hw d2 h"
  using assms by (simp add: SubmitAndPoll_eq request_words_def)

definition verify_request :: "u64 \<Rightarrow> u16 \<Rightarrow> HseKeySlot \<Rightarrow> (u64 \<times> u32) list" where
  "verify_request data dataLen keySlot =
     [(kHseMuBaseAddr, 0x00A50002), (kHseMuBaseAddr + 4, keySlot),
      (kHseMuBaseAddr + 8, PhysAddr data), (kHseMuBaseAddr + 12, ucast dataLen)]"

lemma VerifyMac_eq:
  assumes "hse_initialised h" "data \<noteq> 0"
  shows "VerifyMac hw rxAddr data dataLen keySlot mac h =
    (let tr = hse_writes h @ verify_request data dataLen keySlot; st = status_of hw tr
     in (if st = kMacMismatch then Err kChecksumMismatch else if st \<noteq> kHseOk then Err kE2eViolation else Ok (),
         h\<lparr>hse_rxMacBuf := mac, hse_writes := tr\<rparr>))"
  using assms by (simp add: VerifyMac_def SubmitAndPoll_eq request_words_def verify_request_def Let_def)

section \<open>When an operation succeeds\<close>

lemma bit3_iff: "(x :: u32) AND 8 \<noteq> 0 \<longleftrightarrow> bit x 3"
  using and_exp_eq_0_iff_not_bit [of x 3] by simp

lemma Init_ready:
  "fst (HseAdapter_Init hw h) = Ok () \<longleftrightarrow>
     \<not> hse_initialised h \<and> (\<exists>i<5000. bit (hw (hse_writes h) 0x40210060 i) 3)"
proof (cases "first_index (\<lambda>i. hw (hse_writes h) 0x40210060 i AND 8 \<noteq> 0) 5000")
  case None
  then have "\<forall>i<5000. \<not> bit (hw (hse_writes h) 0x40210060 i) 3"
    by (simp add: first_index_None_iff flip: bit3_iff)
  then show ?thesis
    by (simp add: HseAdapter_Init_def kHseMuBaseAddr_def kMuSrReg_def None Let_def)
next
  case (Some i)
  then have "\<exists>i<5000. bit (hw (hse_writes h) 0x40210060 i) 3"
    by (auto simp: first_index_Some_iff simp flip: bit3_iff)
  then show ?thesis
    by (simp add: HseAdapter_Init_def kHseMuBaseAddr_def kMuSrReg_def Some Let_def)
qed

lemma GenerateMac_succeeds:
  "fst (GenerateMac hw data dataLen keySlot macAddr mac h) = Ok () \<longleftrightarrow> hse_initialised h \<and> data \<noteq> 0 \<and>
     0 < unat dataLen \<and> accepted hw (hse_writes (fst (snd (GenerateMac hw data dataLen keySlot macAddr mac h))))"
  by (auto simp: GenerateMac_def SubmitAndPoll_eq Let_def unat_gt_0 simp flip: status_ok_iff)

lemma VerifyMac_succeeds:
  "fst (VerifyMac hw rxAddr data dataLen keySlot mac h) = Ok () \<longleftrightarrow> hse_initialised h \<and> data \<noteq> 0 \<and>
     accepted hw (hse_writes (snd (VerifyMac hw rxAddr data dataLen keySlot mac h)))"
  by (auto simp: VerifyMac_def SubmitAndPoll_eq Let_def simp flip: status_ok_iff)

lemma VerifyCertificate_succeeds:
  "fst (VerifyCertificate hw data dataLen h) = Ok () \<longleftrightarrow> hse_initialised h \<and> data \<noteq> 0 \<and>
     0 < unat dataLen \<and> unat dataLen \<le> 4096 \<and> accepted hw (hse_writes (snd (VerifyCertificate hw data dataLen h)))"
  by (auto simp: VerifyCertificate_def SubmitAndPoll_eq Let_def unat_gt_0 word_less_nat_alt simp flip: status_ok_iff)

lemma GenerateRandom_succeeds:
  "fst (GenerateRandom hw data len h) = Ok () \<longleftrightarrow> hse_initialised h \<and> data \<noteq> 0 \<and>
     0 < unat len \<and> unat len \<le> 64 \<and> accepted hw (hse_writes (snd (GenerateRandom hw data len h)))"
  by (auto simp: GenerateRandom_def SubmitAndPoll_eq Let_def unat_gt_0 word_less_nat_alt simp flip: status_ok_iff)

end
