(* ===== verification/NetAdapter.thy ===== *)
theory NetAdapter
  imports Prelude
begin

text \<open>
  \<open>include/NetworkAdapter.hpp\<close>: the wire-frame types and the byte-order helpers. The virtual
  methods are an abstract interface with no implementation in the sources.
\<close>

definition kSomeIpHeaderBytes :: nat where [simp]: "kSomeIpHeaderBytes = 16"
definition kMaxWireFrameBytes :: nat where [simp]: "kMaxWireFrameBytes = 1472"

record WireFrame =
  wf_data :: "u8 list"
  wf_length :: u16

record SomeIpHeader =
  sih_serviceId :: u16
  sih_methodId :: u16
  sih_length :: u32
  sih_clientId :: u16
  sih_sessionId :: u16
  sih_protocolVer :: u8
  sih_interfaceVer :: u8
  sih_messageType :: u8
  sih_returnCode :: u8

definition kSomeIpMsgRequest :: u8 where "kSomeIpMsgRequest = 0x00"
definition kSomeIpMsgRequestNoReturn :: u8 where "kSomeIpMsgRequestNoReturn = 0x01"
definition kSomeIpMsgNotification :: u8 where "kSomeIpMsgNotification = 0x02"
definition kSomeIpMsgResponse :: u8 where "kSomeIpMsgResponse = 0x80"
definition kSomeIpMsgError :: u8 where "kSomeIpMsgError = 0x81"

definition Be32ToHost :: "u32 \<Rightarrow> u32" where
  "Be32ToHost be =
     drop_bit 24 (be AND 0xFF000000) OR drop_bit 8 (be AND 0x00FF0000) OR
     push_bit 8 (be AND 0x0000FF00) OR push_bit 24 (be AND 0x000000FF)"

definition Be16ToHost :: "u16 \<Rightarrow> u16" where
  "Be16ToHost be = drop_bit 8 (be AND 0xFF00) OR push_bit 8 (be AND 0x00FF)"

definition HostToBe32 :: "u32 \<Rightarrow> u32" where
  "HostToBe32 host = Be32ToHost host"

definition HostToBe16 :: "u16 \<Rightarrow> u16" where
  "HostToBe16 host = Be16ToHost host"

section \<open>Bits of the swapped words\<close>

lemma byte_masks:
  "(0xFF000000 :: u32) = push_bit 24 (mask 8)" "(0x00FF0000 :: u32) = push_bit 16 (mask 8)"
  "(0x0000FF00 :: u32) = push_bit 8 (mask 8)" "(0x000000FF :: u32) = mask 8"
  "(0xFF00 :: u16) = push_bit 8 (mask 8)" "(0x00FF :: u16) = mask 8"
  by (simp_all add: mask_eq_exp_minus_1 push_bit_eq_mult)

lemma bit_Be32ToHost:
  assumes "n < 32"
  shows "bit (Be32ToHost w) n \<longleftrightarrow>
    (if n < 8 then bit w (n + 24) else if n < 16 then bit w (n + 8)
     else if n < 24 then bit w (n - 8) else bit w (n - 24))"
proof -
  consider "n < 8" | "8 \<le> n \<and> n < 16" | "16 \<le> n \<and> n < 24" | "24 \<le> n"
    by fastforce
  then show ?thesis
    by cases (use assms in \<open>auto simp: Be32ToHost_def byte_masks bit_or_iff bit_and_iff
      bit_drop_bit_eq bit_push_bit_iff bit_mask_iff add.commute\<close>)
qed

lemma bit_Be16ToHost:
  assumes "n < 16"
  shows "bit (Be16ToHost w) n \<longleftrightarrow> (if n < 8 then bit w (n + 8) else bit w (n - 8))"
  using assms
  by (cases "n < 8") (auto simp: Be16ToHost_def byte_masks bit_or_iff bit_and_iff
      bit_drop_bit_eq bit_push_bit_iff bit_mask_iff add.commute)

lemma Be32_involution: "HostToBe32 (Be32ToHost w) = w"
  unfolding HostToBe32_def by (rule bit_word_eqI) (auto simp: bit_Be32ToHost)

lemma Be16_involution: "HostToBe16 (Be16ToHost w) = w"
  unfolding HostToBe16_def by (rule bit_word_eqI) (auto simp: bit_Be16ToHost)

text \<open>The four bytes of a big-endian field, loaded by a little-endian core, in reverse.\<close>

lemma Be32ToHost_bytes: "Be32ToHost (read_le32 b0 b1 b2 b3) = read_le32 b3 b2 b1 b0"
proof (rule bit_word_eqI)
  fix n
  assume n: "n < LENGTH(32)"
  then consider "n < 8" | "8 \<le> n \<and> n < 16" | "16 \<le> n \<and> n < 24" | "24 \<le> n \<and> n < 32"
    by fastforce
  then show "bit (Be32ToHost (read_le32 b0 b1 b2 b3)) n \<longleftrightarrow> bit (read_le32 b3 b2 b1 b0) n"
    by cases (auto simp: bit_Be32ToHost read_le32_def bit_or_iff bit_push_bit_iff bit_unsigned_iff
        dest: bit_imp_le_length)
qed

lemma Be16ToHost_bytes: "Be16ToHost (read_le16 b0 b1) = read_le16 b1 b0"
proof (rule bit_word_eqI)
  fix n
  assume n: "n < LENGTH(16)"
  then consider "n < 8" | "8 \<le> n \<and> n < 16" by fastforce
  then show "bit (Be16ToHost (read_le16 b0 b1)) n \<longleftrightarrow> bit (read_le16 b1 b0) n"
    by cases (auto simp: bit_Be16ToHost read_le16_def bit_or_iff bit_push_bit_iff bit_unsigned_iff
        dest: bit_imp_le_length)
qed

end
