(* ===== verification/SecurityProps.thy ===== *)
theory SecurityProps
  imports Iam AuditDrain TokenRace Hse NetAdapter
begin

text \<open>
  Properties of the components around the gateway's core: access control and its audit log, the
  rate limiter and the security engine's driver.
\<close>

section \<open>Access control\<close>

definition sample_policy :: PolicyEntry where
  "sample_policy = PolicyEntry_default\<lparr>pol_principalId := 5, pol_serviceId := 0x0100, pol_allowed := kRead\<rparr>"

definition sample_iam :: IamSecurityController where
  "sample_iam = snd (AddPolicy sample_policy (snd (Iam_Init IamSecurityController_new)))"

lemma sample_iam_facts:
  "iam_wf sample_iam" "iam_initialised sample_iam" "policies sample_iam = [sample_policy]"
  "audit_pending sample_iam = []"
proof -
  show "iam_wf sample_iam"
    unfolding sample_iam_def by (intro iam_wf_AddPolicy iam_wf_Init iam_wf_new)
  show "policies sample_iam = [sample_policy]"
    using AddPolicy_cases [OF iam_wf_Init [OF iam_wf_new], of sample_policy]
    by (simp add: sample_iam_def Iam_Init_def IamSecurityController_new_def policies_def)
  show "iam_initialised sample_iam" "audit_pending sample_iam = []"
    by (simp_all add: sample_iam_def Iam_Init_def AddPolicy_def IamSecurityController_new_def
        audit_pending_def ring_list_def)
qed

lemma sample_policy_simps [simp]:
  "pol_principalId sample_policy = 5" "pol_serviceId sample_policy = 0x0100"
  "pol_methodId sample_policy = 0xFFFF" "pol_allowed sample_policy = 1"
  by (simp_all add: sample_policy_def PolicyEntry_default_def)

text \<open>C31: access is decided by the first policy, in order of insertion, for the caller and service
  whose method is the requested one or the wildcard. It is granted exactly when that policy
  allows at least one of the requested actions, so a request for read and write is granted
  by a read-only policy; without such a policy it is denied. Roles play no part. Every
  decision, and only a decision, adds one record to the audit log, which loses all its
  undrained records when it already holds 127.\<close>

theorem authorise_first_match:
  assumes "iam_wf c"
  shows "(let (r, c') = Authorise pr sv m action t c;
      first = List.find (\<lambda>p. pol_principalId p = pr \<and> pol_serviceId p = sv \<and>
        (pol_methodId p = 0xFFFF \<or> pol_methodId p = m)) (policies c);
      granted = (case first of None \<Rightarrow> False
        | Some p \<Rightarrow> (\<exists>i<8. bit (pol_allowed p) i \<and> bit action i));
      entry = audit_record pr sv m action (if granted then kGranted else kDenied) t
    in if \<not> iam_initialised c then r = Err kNotInitialized \<and> c' = c
       else r = (if granted then Ok () else Err kUnauthorized) \<and>
         policies c' = policies c \<and> roles c' = roles c \<and>
         audit_pending c' = (if length (audit_pending c) = 127 then [] else audit_pending c @ [entry]))"
proof (cases "iam_initialised c")
  case True
  have "(\<lambda>p. pol_principalId p = pr \<and> pol_serviceId p = sv \<and>
      (pol_methodId p = 0xFFFF \<or> pol_methodId p = m)) = policy_match pr sv m"
    by (simp add: policy_match_def Let_def fun_eq_iff)
  then have f: "List.find (\<lambda>p. pol_principalId p = pr \<and> pol_serviceId p = sv \<and>
      (pol_methodId p = 0xFFFF \<or> pol_methodId p = m)) (policies c) = decisive pr sv m c"
    by (simp add: decisive_def)
  show ?thesis
    using True unfolding f
    by (simp add: Authorise_decision [OF assms True] Let_def decision_def HasAction_iff [symmetric]
        Append_pending [OF assms] split: option.split)
      (simp add: AppendAuditEntry_def policies_def roles_def Let_def)
qed (simp add: Authorise_def)

theorem authorise_first_match_witness:
  "fst (Authorise 5 0x0100 3 (action_or kRead kWrite) 9 sample_iam) = Ok ()"
proof -
  have "\<exists>i<8. bit (1 :: u8) i \<and> bit (3 :: u8) i" by (intro exI [of _ 0]) simp
  then show ?thesis
    using authorise_first_match [OF sample_iam_facts(1), where pr = 5 and sv = "0x0100" and m = 3 and
        action = 3 and t = 9]
    by (simp add: sample_iam_facts Let_def split_beta action_or_def)
qed

text \<open>C29: the audit log under concurrency, access by access. One thread decides and appends, the
  other drains: as long as no append makes the head reach the tail, in every interleaving no
  slot is written while it is copied, and every record, old or new, is handed out exactly once
  and in order: those drained, then those still waiting; what the drains returned is what was
  drained. The bound is exact: with 127 records waiting there is a run in which an append writes
  over the record that a drain is about to copy. And with two threads that decide, as
  \<open>docs/architecture.md\<close> allows, both decisions are recorded only if one is over before the other
  begins; in all other schedules exactly one record reaches the log. (Alone, the three accesses of
  an append have the effect of \<open>Authorise\<close>.)\<close>

theorem audit_log_threads:
  assumes "iam_wf c" "iam_initialised c"
  shows "(audit_step\<^sup>*\<^sup>* (audit_start c) s \<and> \<not> at_overflow s \<longrightarrow> \<not> slot_race s \<and>
      audit_pending c @ at_appended s = at_taken s @ audit_pending (at_iam s) \<and>
      concat (at_calls s) @ copied_so_far (at_buf s) (at_reader s) = at_taken s) \<and>
    (length (audit_pending c) = 127 \<longrightarrow> (\<exists>s'. audit_step\<^sup>*\<^sup>* (audit_start c) s' \<and> slot_race s')) \<and>
    (length (audit_pending c) < 126 \<and> xs \<in> shuffles [0, 0, 0] [1, 1, 1] \<and>
      e0 = authorise_record pr0 sv0 m0 a0 t0 c \<and> e1 = authorise_record pr1 sv1 m1 a1 t1 c \<and>
      audit_run xs ([AuLoad e0, AuLoad e1], c) = (ps, c') \<longrightarrow>
      ps = [AuDone, AuDone] \<and>
      (if take 3 xs = [0, 0, 0] then audit_pending c' = audit_pending c @ [e0, e1]
       else if take 3 xs = [1, 1, 1] then audit_pending c' = audit_pending c @ [e1, e0]
       else audit_pending c' = audit_pending c @ [e0] \<or> audit_pending c' = audit_pending c @ [e1])) \<and>
    snd (Authorise pr0 sv0 m0 a0 t0 c) = snd (audit_run [0, 0, 0] ([AuLoad (authorise_record pr0 sv0 m0 a0 t0 c)], c))"
proof (intro conjI impI; (elim conjE)?)
  assume "audit_step\<^sup>*\<^sup>* (audit_start c) s" "\<not> at_overflow s"
  then have inv: "audit_inv (audit_pending c) s" using inv_audit_run assms(1) by blast
  then show "\<not> slot_race s" by (rule no_slot_race)
  show "audit_pending c @ at_appended s = at_taken s @ audit_pending (at_iam s)"
    "concat (at_calls s) @ copied_so_far (at_buf s) (at_reader s) = at_taken s"
    using inv by (simp_all add: audit_inv_def)
next
  assume "length (audit_pending c) = 127"
  then show "\<exists>s'. audit_step\<^sup>*\<^sup>* (audit_start c) s' \<and> slot_race s'" by (rule full_ring_race [OF assms])
next
  assume r: "length (audit_pending c) < 126" "xs \<in> shuffles [0, 0, 0] [1, 1, 1]"
    "audit_run xs ([AuLoad e0, AuLoad e1], c) = (ps, c')"
  note two_appends [OF r(2) assms(1) r(1,3)]
  then show "ps = [AuDone, AuDone]"
    "if take 3 xs = [0, 0, 0] then audit_pending c' = audit_pending c @ [e0, e1]
       else if take 3 xs = [1, 1, 1] then audit_pending c' = audit_pending c @ [e1, e0]
       else audit_pending c' = audit_pending c @ [e0] \<or> audit_pending c' = audit_pending c @ [e1]"
    by simp_all
qed (rule authorise_alone [OF assms])

text \<open>A decision is recorded between the drain's loads of the tail and of the head.\<close>

definition sample_decision :: AuditEntry where
  "sample_decision = authorise_record 5 0x0100 3 kRead 9 sample_iam"

definition sample_audit :: audit_threads where
  "sample_audit = fold (\<lambda>b. if b then decide_turn else drain_turn)
     [True, False, True, True, False, False, False, False, False]
     ((audit_start sample_iam)\<lparr>at_writer := AuLoad sample_decision, at_entry := sample_decision,
        at_reader := DrTail (unat (2 :: u8)) 0, at_buf := replicate 2 AuditEntry_default\<rparr>)"

lemma sample_audit_run: "audit_step\<^sup>*\<^sup>* (audit_start sample_iam) sample_audit"
proof -
  let ?a = "(audit_start sample_iam)\<lparr>at_writer := AuLoad sample_decision, at_entry := sample_decision\<rparr>"
  let ?b = "?a\<lparr>at_reader := DrTail (unat (2 :: u8)) 0, at_buf := replicate 2 AuditEntry_default\<rparr>"
  have turns: "audit_step\<^sup>*\<^sup>* s (fold (\<lambda>b. if b then decide_turn else drain_turn) bs s)" for bs s
    by (induction bs arbitrary: s) (auto intro: converse_rtranclp_into_rtranclp at_write at_read)
  have "audit_step (audit_start sample_iam) ?a"
    by (rule at_authorise [where pr = 5 and sv = "0x0100" and m = 3 and action = kRead and t = 9])
      (simp_all add: audit_start_def sample_iam_facts sample_decision_def)
  moreover have "audit_step ?a ?b" by (rule at_drain) (simp_all add: audit_start_def)
  ultimately show ?thesis
    using turns [of ?b] unfolding sample_audit_def by (meson converse_rtranclp_into_rtranclp)
qed

lemma sample_audit_state:
  "\<not> at_overflow sample_audit" "at_taken sample_audit = [sample_decision]" "at_appended sample_audit = [sample_decision]"
  "at_reader sample_audit = DrIdle"
  by code_simp+

theorem audit_log_threads_witness:
  "audit_step\<^sup>*\<^sup>* (audit_start sample_iam) sample_audit \<and> audit_pending (at_iam sample_audit) = [] \<and>
   concat (at_calls sample_audit) = [sample_decision] \<and>
   length (audit_pending (snd (audit_run [0, 1, 0, 1, 0, 1] ([AuLoad sample_decision, AuLoad sample_decision], sample_iam)))) = 1"
proof -
  obtain ps c' where r: "audit_run [0, 1, 0, 1, 0, 1] ([AuLoad sample_decision, AuLoad sample_decision], sample_iam) = (ps, c')"
    by fastforce
  note p = audit_log_threads [OF sample_iam_facts(1,2), of sample_audit "[0, 1, 0, 1, 0, 1]" sample_decision 5 "0x0100" 3 kRead 9
      sample_decision 5 "0x0100" 3 kRead 9 ps c']
  have "[0, 1, 0, 1, 0, 1] \<in> shuffles [0, 0, 0] [1, 1, 1 :: nat]" by simp
  with p [THEN conjunct2, THEN conjunct2, THEN conjunct1, rule_format] r sample_decision_def
  have "length (audit_pending c') = 1"
    by (simp add: sample_iam_facts del: run_schedule.simps)
  then show ?thesis
    using p [THEN conjunct1] sample_audit_run sample_audit_state unfolding r snd_conv
    by (simp add: sample_iam_facts)
qed

section \<open>Rate limiter\<close>

definition sample_rl :: RateLimiter where
  "sample_rl = snd (RateLimiter_Init 1000 RateLimiter_new)"

lemma sample_rl_init: "RateLimiter_Init 1000 RateLimiter_new = (Ok (), sample_rl)"
  by (simp add: sample_rl_def RateLimiter_Init_def RateLimiter_new_def)

lemma sample_rl_facts: "rl_wf sample_rl" "rl_initialised sample_rl"
  using rl_wf_Init [OF rl_wf_new, of 1000]
  by (simp_all add: sample_rl_def RateLimiter_Init_def RateLimiter_new_def)

text \<open>C32: under any sequence of admissions (of all sources), refills and evictions, with a clock
  that does not go back, no source is granted more than 20 messages plus 5 for each
  millisecond since initialisation, although its bucket may be evicted and created afresh
  with a full burst any number of times.\<close>

theorem rate_is_bounded:
  assumes "rate_step\<^sup>*\<^sup>* (rate_start t0 rl') s" "RateLimiter_Init t0 rl = (Ok (), rl')" "rl_wf rl"
  shows "int (rr_admitted s src) \<le> 20 + 5 * (uint (rr_now s) - uint t0)"
  using rate_inv_total [OF rate_inv_reachable [OF assms]] by (simp add: since_def)

definition sample_rate_run :: rate_run where
  "sample_rate_run =
     (rate_start 1000 sample_rl)\<lparr>rr_rl := snd (Admit 7 1001 1001 sample_rl), rr_now := 1001,
        rr_admitted := (if res_ok (fst (Admit 7 1001 1001 sample_rl)) then (\<lambda>src. 0)(7 := 1) else (\<lambda>src. 0))\<rparr>"

lemma sample_rate_reachable: "rate_step\<^sup>*\<^sup>* (rate_start 1000 sample_rl) sample_rate_run"
proof -
  have a: "Admit 7 1001 1001 (rr_rl (rate_start 1000 sample_rl))
      = (fst (Admit 7 1001 1001 sample_rl), snd (Admit 7 1001 1001 sample_rl))"
    by (simp add: rate_start_def)
  show ?thesis
    using r_admit [OF _ _ a]
    by (intro r_into_rtranclp, cases "fst (Admit 7 1001 1001 sample_rl) = Ok ()")
      (simp_all add: rate_start_def sample_rate_run_def)
qed

theorem rate_is_bounded_witness: "int (rr_admitted sample_rate_run 7) \<le> 25"
  using rate_is_bounded [OF sample_rate_reachable sample_rl_init rl_wf_new, of 7]
  by (simp add: sample_rate_run_def)

text \<open>C26: the compare-exchange loops keep the bound under concurrency. In every interleaving of the
  atomic accesses of any number of \<open>Admit\<close> calls on a bucket with the refill task, spurious
  failures of the exchanges included, the bucket never holds fewer than 0 or more than 20
  tokens, and the calls that returned \<open>Ok\<close> are at most the tokens it had plus 5 for each
  millisecond since its last refill.\<close>

theorem grants_bounded_under_races:
  assumes "token_step\<^sup>*\<^sup>* (token_start b n now) s" "bucket_wf b" "tb_lastRefillMs b \<le> now"
  shows "int (tr_granted s) + tb_tokens (tr_bucket s)
      \<le> tb_tokens b + 5 * (int (unat (tr_now s)) - int (unat (tb_lastRefillMs b))) \<and>
    0 \<le> tb_tokens (tr_bucket s) \<and> tb_tokens (tr_bucket s) \<le> 20"
  using token_inv_bound [OF token_inv_reachable [OF assms]] by simp

definition sample_tokens :: token_run where
  "sample_tokens = fold admit_turn [0, 1, 0, 1, 0, 1, 0, 1, 1, 0]
     (token_start ((fresh_bucket 7 1000)\<lparr>tb_tokens := 1\<rparr>) 2 1000)"

theorem grants_bounded_under_races_witness:
  "tr_granted sample_tokens = 1 \<and> tb_tokens (tr_bucket sample_tokens) = 0"
proof -
  have "token_step\<^sup>*\<^sup>* (token_start ((fresh_bucket 7 1000)\<lparr>tb_tokens := 1\<rparr>) 2 1000) sample_tokens"
    unfolding sample_tokens_def by (rule admit_turns_run) (auto simp: token_start_def)
  from grants_bounded_under_races [OF this]
  have "int (tr_granted sample_tokens) + tb_tokens (tr_bucket sample_tokens) \<le> 1
      + 5 * (int (unat (tr_now sample_tokens)) - 1000)" "0 \<le> tb_tokens (tr_bucket sample_tokens)"
    by (simp_all add: bucket_wf_def fresh_bucket_def)
  moreover have "tr_now sample_tokens = 1000" "tr_granted sample_tokens = 1" by code_simp+
  ultimately show ?thesis by simp
qed

text \<open>C33: a source cannot use up another's tokens: an attempt of another source, admitted or not,
  leaves the bucket of a tracked source and the answer to its next attempt as they were. But
  tracking itself is a shared resource: once 32 sources are tracked, a new one is refused and
  nothing changes.\<close>

theorem sources_are_isolated:
  assumes "rl_wf rl" "rl_initialised rl" "other \<noteq> src"
    and "j < 32" "tb_active (rl_buckets rl ! j)" "tb_sourceId (rl_buckets rl ! j) = src"
    and "\<forall>i<32. \<forall>k<32. tb_active (rl_buckets rl ! i) \<and> tb_active (rl_buckets rl ! k) \<and>
      tb_sourceId (rl_buckets rl ! i) = tb_sourceId (rl_buckets rl ! k) \<longrightarrow> i = k"
  shows "rl_buckets (snd (Admit other t1 t2 rl)) ! j = rl_buckets rl ! j \<and>
    fst (Admit src t3 t4 (snd (Admit other t1 t2 rl))) = fst (Admit src t3 t4 rl) \<and>
    ((\<forall>i<32. tb_active (rl_buckets rl ! i) \<and> tb_sourceId (rl_buckets rl ! i) \<noteq> other) \<longrightarrow>
       Admit other t1 t2 rl = (Err kRegistryFull, rl))"
proof -
  let ?rl = "snd (Admit other t1 t2 rl)"
  have u: "buckets.unique_holders rl"
    using assms(7) by (auto simp: buckets.unique_holders_def buckets.holds_def)
  have h: "buckets.holds rl j src" using assms(4-6) by (simp add: buckets.holds_def)
  note same = Admit_other [OF assms(1-3), where ?t1.0 = t1 and ?t2.0 = t2]
  have claim: "claim_bucket t3 src x = (Some j, x)"
    if x: "buckets.holds x j src" "buckets.unique_holders x" for x
  proof (rule claim_bucket_cases [of t3 src x])
    fix i assume "claim_bucket t3 src x = (Some i, x)" "i < 32" "tb_active (rl_buckets x ! i)"
      "tb_sourceId (rl_buckets x ! i) = src"
    then show ?thesis
      using x by (auto simp: buckets.unique_holders_def buckets.holds_def)
  qed (use x in \<open>auto simp: buckets.holds_def\<close>)
  have adm: "fst (Admit src t3 t4 x) = fst (spend t4 (rl_buckets x ! j))"
    if "buckets.holds x j src" "buckets.unique_holders x" "rl_initialised x" for x
    using that by (simp add: Admit_claim [OF that(3)] claim [OF that(1,2)])
  have "fst (Admit src t3 t4 ?rl) = fst (Admit src t3 t4 rl)"
    using adm [OF h u assms(2)] adm [of ?rl] same(1) [of j] same(2) [OF h] h
      unique_Admit [OF assms(1,2) u, of other t1 t2] assms(2)
    by simp
  moreover have "Admit other t1 t2 rl = (Err kRegistryFull, rl)"
    if "\<forall>i<32. tb_active (rl_buckets rl ! i) \<and> tb_sourceId (rl_buckets rl ! i) \<noteq> other"
    by (rule claim_bucket_cases [of t1 other rl]) (use that in \<open>simp_all add: Admit_claim [OF assms(2)]\<close>)
  ultimately show ?thesis using same(2) [OF h] by blast
qed

lemma sample_rl_one:
  "rl_buckets (snd (Admit 7 1001 1001 sample_rl)) ! j =
     (if j = 0 then (fresh_bucket 7 1001)\<lparr>tb_tokens := 19, tb_passCount := 1\<rparr> else rl_buckets sample_rl ! j)"
  "\<not> tb_active (rl_buckets sample_rl ! j)" if "j < 32"
proof -
  have idle: "\<not> tb_active (rl_buckets sample_rl ! i)" if "i < 32" for i
    using that by (simp add: sample_rl_def RateLimiter_Init_def RateLimiter_new_def)
  show "\<not> tb_active (rl_buckets sample_rl ! j)" by (rule idle [OF that])
  have "first_index (\<lambda>i. \<not> tb_active (rl_buckets sample_rl ! i)) 32 = Some 0"
    using idle by (simp add: first_index_Some_iff)
  moreover have "first_index (\<lambda>i. tb_active (rl_buckets sample_rl ! i) \<and>
      tb_sourceId (rl_buckets sample_rl ! i) = 7) 32 = None"
    using idle by (simp add: first_index_None_iff)
  ultimately show "rl_buckets (snd (Admit 7 1001 1001 sample_rl)) ! j =
     (if j = 0 then (fresh_bucket 7 1001)\<lparr>tb_tokens := 19, tb_passCount := 1\<rparr> else rl_buckets sample_rl ! j)"
    using sample_rl_facts that
    by (simp add: Admit_def FindOrAllocate_def Let_def rl_wf_def fresh_bucket_def)
qed

theorem sources_are_isolated_witness:
  "rl_buckets (snd (Admit 9 1002 1002 (snd (Admit 7 1001 1001 sample_rl)))) ! 0
     = (fresh_bucket 7 1001)\<lparr>tb_tokens := 19, tb_passCount := 1\<rparr>"
proof -
  let ?rl = "snd (Admit 7 1001 1001 sample_rl)"
  have "\<forall>i<32. \<forall>k<32. tb_active (rl_buckets ?rl ! i) \<and> tb_active (rl_buckets ?rl ! k) \<and>
      tb_sourceId (rl_buckets ?rl ! i) = tb_sourceId (rl_buckets ?rl ! k) \<longrightarrow> i = k"
    using sample_rl_one by (auto split: if_splits)
  then show ?thesis
    using sources_are_isolated [of ?rl 9 7 0 1002 1002] sample_rl_one(1) [of 0]
      rl_wf_Admit [OF sample_rl_facts(1), of 7 1001 1001] sample_rl_facts(2)
    by (simp add: fresh_bucket_def)
qed

section \<open>Security engine\<close>

definition busy_hw :: mu_reads where
  "busy_hw tr addr i = kHseBusy"

definition ok_hw :: mu_reads where
  "ok_hw tr addr i = kHseOk"

definition sample_hse :: HseAdapter where
  "sample_hse = HseAdapter_new\<lparr>hse_initialised := True\<rparr>"

text \<open>C34: the driver fails safe. An operation reports success exactly when the adapter is
  initialised, its arguments pass its checks and, within 5000 polls after its request was
  written, the first status other than busy is \<open>kHseOk\<close>; initialisation succeeds exactly when the
  ready bit is seen within 5000 polls. So an engine that stays busy, or that answers with any
  other status, never leads to success.\<close>

theorem hse_fails_safe:
  "let mac_result = GenerateMac hw data dataLen keySlot macAddr mac h;
      verdict = VerifyMac hw rxAddr data dataLen keySlot mac h;
      cert = VerifyCertificate hw data dataLen h; random = GenerateRandom hw data len h;
      granted = (\<lambda>h'. hse_initialised h \<and> data \<noteq> 0 \<and> (\<exists>i<5000.
        (\<forall>j<i. hw (hse_writes h') 0x40210010 j = kHseBusy) \<and> hw (hse_writes h') 0x40210010 i = kHseOk))
    in (fst (HseAdapter_Init hw h) = Ok () \<longleftrightarrow>
        \<not> hse_initialised h \<and> (\<exists>i<5000. bit (hw (hse_writes h) 0x40210060 i) 3)) \<and>
      (fst mac_result = Ok () \<longleftrightarrow> 0 < unat dataLen \<and> granted (fst (snd mac_result))) \<and>
      (fst verdict = Ok () \<longleftrightarrow> granted (snd verdict)) \<and>
      (fst cert = Ok () \<longleftrightarrow> 0 < unat dataLen \<and> unat dataLen \<le> 4096 \<and> granted (snd cert)) \<and>
      (fst random = Ok () \<longleftrightarrow> 0 < unat len \<and> unat len \<le> 64 \<and> granted (snd random))"
proof -
  have "accepted hw tr \<longleftrightarrow> (\<exists>i<5000. (\<forall>j<i. hw tr 0x40210010 j = kHseBusy) \<and> hw tr 0x40210010 i = kHseOk)" for tr
    by (simp add: accepted_def kHseMuBaseAddr_def kMuRrReg_def)
  then show ?thesis
    unfolding Let_def Init_ready GenerateMac_succeeds VerifyMac_succeeds VerifyCertificate_succeeds
      GenerateRandom_succeeds
    by blast
qed

theorem hse_fails_safe_witness:
  "fst (VerifyMac busy_hw 0 0x1000 8 kSecOcSymmetricKey (replicate 16 0) sample_hse) \<noteq> Ok () \<and>
   fst (VerifyMac ok_hw 0 0x1000 8 kSecOcSymmetricKey (replicate 16 0) sample_hse) = Ok ()"
  using hse_fails_safe [of busy_hw "0x1000" 8 kSecOcSymmetricKey 0 "replicate 16 0" sample_hse 0 0]
    hse_fails_safe [of ok_hw "0x1000" 8 kSecOcSymmetricKey 0 "replicate 16 0" sample_hse 0 0]
  by (auto simp: busy_hw_def ok_hw_def sample_hse_def Let_def intro: exI [of _ 0])

text \<open>C35: the MAC to verify is not part of the request: the words written to the engine are the
  service, the key slot and the address and length of the data; the address of the buffer the
  MAC is copied to is not among them. So from an engine that acts on what is written to its
  registers the verdict is the same for every MAC.\<close>

theorem verdict_ignores_mac:
  assumes "hse_initialised h" "data \<noteq> 0"
  shows "fst (VerifyMac hw rxAddr data dataLen keySlot mac1 h)
      = fst (VerifyMac hw rxAddr' data dataLen keySlot mac2 h) \<and>
    hse_writes (snd (VerifyMac hw rxAddr data dataLen keySlot mac1 h)) = hse_writes h @
      [(kHseMuBaseAddr, HseServiceId_num kMacVerify), (kHseMuBaseAddr + 4, keySlot),
       (kHseMuBaseAddr + 8, PhysAddr data), (kHseMuBaseAddr + 12, ucast dataLen)]"
  by (simp add: VerifyMac_eq [OF assms] Let_def verify_request_def)

theorem verdict_ignores_mac_witness:
  "fst (VerifyMac ok_hw 0 0x1000 8 kSecOcSymmetricKey (replicate 16 0) sample_hse)
     = fst (VerifyMac ok_hw 0 0x1000 8 kSecOcSymmetricKey (replicate 16 1) sample_hse)"
  using verdict_ignores_mac [of sample_hse "0x1000" ok_hw 0 8 kSecOcSymmetricKey "replicate 16 0" 0
      "replicate 16 1"]
  by (simp add: sample_hse_def)

end
