(* ===== verification/DeadSub.thy ===== *)
theory DeadSub
  imports SlotTable
begin

text \<open>
  \<open>include/DeadSubscriberMonitor.hpp\<close> and \<open>src/DeadSubscriberMonitor.cpp\<close>: the liveness table,
  heartbeats, and the scan that warns, evicts and calls the on-death callbacks. \<open>'c\<close> is the
  type of callback addresses.
\<close>

section \<open>State\<close>

definition kMaxMonitoredSubs :: nat where [simp]: "kMaxMonitoredSubs = 32"
definition kHeartbeatIntervalMs :: u32 where [simp]: "kHeartbeatIntervalMs = 500"
definition kDeadTimeoutMs :: u32 where [simp]: "kDeadTimeoutMs = 2000"
definition kMonitorPeriodMs :: nat where [simp]: "kMonitorPeriodMs = 200"

datatype SubscriberHealth = kAlive | kWarning | kDead

record 'c LivenessEntry =
  le_serviceId :: u16
  le_eventId :: u16
  le_lastBeatMs :: u64
  le_health :: SubscriberHealth
  le_onDead :: "'c option"
  le_active :: bool

definition LivenessEntry_default :: "'c LivenessEntry" where
  "LivenessEntry_default =
     \<lparr>le_serviceId = kInvalidServiceId, le_eventId = 0, le_lastBeatMs = 0, le_health = kAlive,
      le_onDead = None, le_active = False\<rparr>"

record MonitorStats =
  ms_totalActive :: u8
  ms_totalAlive :: u8
  ms_totalWarning :: u8
  ms_totalDead :: u8
  ms_evictedTotal :: u32

record 'c DeadSubscriberMonitor =
  dm_entries :: "'c LivenessEntry list"
  dm_evictedTotal :: u32
  dm_initialised :: bool

definition DeadSubscriberMonitor_new :: "'c DeadSubscriberMonitor" where
  "DeadSubscriberMonitor_new =
     \<lparr>dm_entries = replicate kMaxMonitoredSubs LivenessEntry_default, dm_evictedTotal = 0,
      dm_initialised = False\<rparr>"

section \<open>Operations\<close>

text \<open>The component's copy of the clock reading.\<close>

definition Monitor_GetMonotonicMs :: "timespec option \<Rightarrow> u64" where
  "Monitor_GetMonotonicMs r =
     (case r of None \<Rightarrow> 0 | Some ts \<Rightarrow> tv_sec ts * 1000 + tv_nsec ts div 1000000)"

lemma Monitor_clock: "Monitor_GetMonotonicMs = GetMonotonicMs"
  by (rule ext) (simp add: Monitor_GetMonotonicMs_def GetMonotonicMs_def)

definition Monitor_Init :: "u64 \<Rightarrow> 'c DeadSubscriberMonitor \<Rightarrow> VoidResult \<times> 'c DeadSubscriberMonitor" where
  "Monitor_Init nowMs m =
     (if dm_initialised m then (Err kAlreadyRegistered, m)
      else (Ok (), m\<lparr>dm_initialised := True,
             dm_entries := map (\<lambda>e. e\<lparr>le_serviceId := kInvalidServiceId, le_eventId := 0,
                                     le_onDead := None, le_lastBeatMs := nowMs,
                                     le_health := kAlive, le_active := False\<rparr>) (dm_entries m),
             dm_evictedTotal := 0\<rparr>))"

definition FindIndex :: "u16 \<Rightarrow> u16 \<Rightarrow> 'c DeadSubscriberMonitor \<Rightarrow> nat option" where
  "FindIndex serviceId eventId m =
     first_index (\<lambda>i. le_active (dm_entries m ! i) \<and> le_serviceId (dm_entries m ! i) = serviceId \<and>
                      le_eventId (dm_entries m ! i) = eventId) kMaxMonitoredSubs"

definition Register :: "u16 \<Rightarrow> u16 \<Rightarrow> 'c option \<Rightarrow> u64 \<Rightarrow> 'c DeadSubscriberMonitor \<Rightarrow>
    VoidResult \<times> 'c DeadSubscriberMonitor" where
  "Register serviceId eventId onDead nowMs m =
     (if \<not> dm_initialised m then (Err kNotInitialized, m)
      else if onDead = None then (Err kNullPointer, m)
      else if FindIndex serviceId eventId m \<noteq> None then (Err kAlreadyRegistered, m)
      else case first_index (\<lambda>i. \<not> le_active (dm_entries m ! i)) kMaxMonitoredSubs of
        None \<Rightarrow> (Err kRegistryFull, m)
      | Some i \<Rightarrow> (Ok (), m\<lparr>dm_entries := (dm_entries m)[i := (dm_entries m ! i)
                    \<lparr>le_active := True, le_serviceId := serviceId, le_eventId := eventId,
                     le_onDead := onDead, le_lastBeatMs := nowMs, le_health := kAlive\<rparr>]\<rparr>))"

definition Monitor_RecordHeartbeat :: "u16 \<Rightarrow> u16 \<Rightarrow> u64 \<Rightarrow> 'c DeadSubscriberMonitor \<Rightarrow>
    VoidResult \<times> 'c DeadSubscriberMonitor" where
  "Monitor_RecordHeartbeat serviceId eventId nowMs m =
     (if \<not> dm_initialised m then (Err kNotInitialized, m)
      else case FindIndex serviceId eventId m of
        None \<Rightarrow> (Err kServiceNotFound, m)
      | Some i \<Rightarrow> (Ok (), m\<lparr>dm_entries := (dm_entries m)[i := (dm_entries m ! i)
                    \<lparr>le_lastBeatMs := nowMs, le_health := kAlive\<rparr>]\<rparr>))"

definition release_entry :: "'c LivenessEntry \<Rightarrow> 'c LivenessEntry" where
  "release_entry e =
     e\<lparr>le_serviceId := kInvalidServiceId, le_eventId := 0, le_onDead := None, le_active := False\<rparr>"

definition Deregister :: "u16 \<Rightarrow> u16 \<Rightarrow> 'c DeadSubscriberMonitor \<Rightarrow> VoidResult \<times> 'c DeadSubscriberMonitor" where
  "Deregister serviceId eventId m =
     (if \<not> dm_initialised m then (Err kNotInitialized, m)
      else case FindIndex serviceId eventId m of
        None \<Rightarrow> (Err kServiceNotFound, m)
      | Some i \<Rightarrow> (Ok (), m\<lparr>dm_entries := (dm_entries m)[i := release_entry (dm_entries m ! i)]\<rparr>))"

text \<open>
  One iteration of the scan: slot \<open>i\<close>, the state with the world the callbacks act on, and the
  number evicted so far. The callback \<open>call cb sid eid (m, w)\<close> may call back into the monitor.
\<close>

definition scan_slot :: "('c \<Rightarrow> u16 \<Rightarrow> u16 \<Rightarrow> 'c DeadSubscriberMonitor \<times> 'w \<Rightarrow> 'c DeadSubscriberMonitor \<times> 'w) \<Rightarrow>
    u64 \<Rightarrow> nat \<Rightarrow> ('c DeadSubscriberMonitor \<times> 'w) \<times> u8 \<Rightarrow> ('c DeadSubscriberMonitor \<times> 'w) \<times> u8" where
  "scan_slot call nowMs i acc =
     (let ((m, w), evicted) = acc;
          e = dm_entries m ! i
      in if \<not> le_active e then acc
         else
           let lastBeat = le_lastBeatMs e
           in if nowMs < lastBeat then acc
              else
                let ageMs = nowMs - lastBeat
                in if ageMs > ucast kDeadTimeoutMs then
                     let m1 = m\<lparr>dm_entries := (dm_entries m)[i := e\<lparr>le_health := kDead\<rparr>]\<rparr>;
                         cb = le_onDead e; sid = le_serviceId e; eid = le_eventId e;
                         m2 = m1\<lparr>dm_entries := (dm_entries m1)[i := release_entry (dm_entries m1 ! i)]\<rparr>;
                         (m3, w') = (case cb of None \<Rightarrow> (m2, w) | Some c \<Rightarrow> call c sid eid (m2, w))
                     in ((m3\<lparr>dm_evictedTotal := dm_evictedTotal m3 + 1\<rparr>, w'), evicted + 1)
                   else if ageMs > ucast kHeartbeatIntervalMs then
                     ((m\<lparr>dm_entries := (dm_entries m)[i := e\<lparr>le_health := kWarning\<rparr>]\<rparr>, w), evicted)
                   else acc)"

definition ScanAndEvict :: "('c \<Rightarrow> u16 \<Rightarrow> u16 \<Rightarrow> 'c DeadSubscriberMonitor \<times> 'w \<Rightarrow> 'c DeadSubscriberMonitor \<times> 'w) \<Rightarrow>
    u64 \<Rightarrow> 'c DeadSubscriberMonitor \<times> 'w \<Rightarrow> u8 \<times> 'c DeadSubscriberMonitor \<times> 'w" where
  "ScanAndEvict call nowMs s =
     (if \<not> dm_initialised (fst s) then (0, s)
      else
        let (s', evicted) = fold (scan_slot call nowMs) [0..<kMaxMonitoredSubs] (s, 0)
        in (evicted, s'))"

definition stats_slot :: "'c LivenessEntry \<Rightarrow> MonitorStats \<Rightarrow> MonitorStats" where
  "stats_slot e st =
     (if \<not> le_active e then st
      else
        let st1 = st\<lparr>ms_totalActive := ms_totalActive st + 1\<rparr>
        in case le_health e of
             kAlive \<Rightarrow> st1\<lparr>ms_totalAlive := ms_totalAlive st1 + 1\<rparr>
           | kWarning \<Rightarrow> st1\<lparr>ms_totalWarning := ms_totalWarning st1 + 1\<rparr>
           | kDead \<Rightarrow> st1\<lparr>ms_totalDead := ms_totalDead st1 + 1\<rparr>)"

definition Monitor_GetStats :: "'c DeadSubscriberMonitor \<Rightarrow> MonitorStats" where
  "Monitor_GetStats m =
     fold (\<lambda>i. stats_slot (dm_entries m ! i)) [0..<kMaxMonitoredSubs]
       \<lparr>ms_totalActive = 0, ms_totalAlive = 0, ms_totalWarning = 0, ms_totalDead = 0,
        ms_evictedTotal = dm_evictedTotal m\<rparr>"

section \<open>The table\<close>

definition mon_wf :: "'c DeadSubscriberMonitor \<Rightarrow> bool" where
  "mon_wf m \<longleftrightarrow> length (dm_entries m) = 32"

definition entry_key :: "'c LivenessEntry \<Rightarrow> u16 \<times> u16" where
  "entry_key e = (le_serviceId e, le_eventId e)"

definition claim_entry :: "'c option \<Rightarrow> u64 \<Rightarrow> u16 \<times> u16 \<Rightarrow> 'c DeadSubscriberMonitor \<Rightarrow>
    nat option \<times> 'c DeadSubscriberMonitor" where
  "claim_entry cb now k m =
     (let (r, m') = Register (fst k) (snd k) cb now m
      in (if res_ok r then FindIndex (fst k) (snd k) m' else None, m'))"

lemma FindIndex_key: "FindIndex sid eid m =
    first_index (\<lambda>i. le_active (dm_entries m ! i) \<and> entry_key (dm_entries m ! i) = (sid, eid)) 32"
  by (simp add: FindIndex_def entry_key_def)

definition fresh_entry :: "u16 \<Rightarrow> u16 \<Rightarrow> 'c option \<Rightarrow> u64 \<Rightarrow> 'c LivenessEntry" where
  "fresh_entry sid eid cb now =
     \<lparr>le_serviceId = sid, le_eventId = eid, le_lastBeatMs = now, le_health = kAlive,
      le_onDead = cb, le_active = True\<rparr>"

lemma fresh_entry_simps [simp]:
  "le_active (fresh_entry sid eid cb now)" "entry_key (fresh_entry sid eid cb now) = (sid, eid)"
  "le_health (fresh_entry sid eid cb now) = kAlive" "le_onDead (fresh_entry sid eid cb now) = cb"
  by (simp_all add: fresh_entry_def entry_key_def)

lemma Register_cases:
  assumes "mon_wf m"
  obtains (refused) x where "Register sid eid cb now m = (Err x, m)"
  | (fresh) i where "i < 32" "\<not> le_active (dm_entries m ! i)" "cb \<noteq> None"
      "\<forall>j<32. le_active (dm_entries m ! j) \<longrightarrow> entry_key (dm_entries m ! j) \<noteq> (sid, eid)"
      "Register sid eid cb now m = (Ok (), m\<lparr>dm_entries := (dm_entries m)[i :=
         fresh_entry sid eid cb now]\<rparr>)"
proof (cases "dm_initialised m \<and> cb \<noteq> None \<and> FindIndex sid eid m = None")
  case False
  then have "\<exists>x. Register sid eid cb now m = (Err x, m)" by (auto simp: Register_def)
  then show ?thesis using refused by blast
next
  case True
  then have none: "\<forall>j<32. le_active (dm_entries m ! j) \<longrightarrow> entry_key (dm_entries m ! j) \<noteq> (sid, eid)"
    by (simp add: FindIndex_key first_index_None_iff)
  show ?thesis
  proof (cases "first_index (\<lambda>i. \<not> le_active (dm_entries m ! i)) 32")
    case None
    then show ?thesis using refused True by (simp add: Register_def)
  next
    case (Some i)
    have "(dm_entries m ! i)\<lparr>le_active := True, le_serviceId := sid, le_eventId := eid,
        le_onDead := cb, le_lastBeatMs := now, le_health := kAlive\<rparr> =
      fresh_entry sid eid cb now" by (simp add: fresh_entry_def)
    then show ?thesis
      using fresh [of i] True none Some first_index_SomeD(1,2) [OF Some] by (simp add: Register_def)
  qed
qed

lemma mon_wf_Register: "mon_wf m \<Longrightarrow> mon_wf (snd (Register sid eid cb now m))"
  by (rule Register_cases [of m sid eid cb now]) (simp_all add: mon_wf_def)

lemma claim_entry_cases:
  assumes "mon_wf m"
  obtains (none) "claim_entry cb now k m = (None, m)"
  | (some) i m' where "claim_entry cb now k m = (Some i, m')" "i < 32" "\<not> le_active (dm_entries m ! i)"
      "\<forall>j<32. le_active (dm_entries m ! j) \<longrightarrow> entry_key (dm_entries m ! j) \<noteq> k"
      "dm_entries m' = (dm_entries m)[i := fresh_entry (fst k) (snd k) cb now]"
proof (rule Register_cases [OF assms, of "fst k" "snd k" cb now])
  fix x
  assume "Register (fst k) (snd k) cb now m = (Err x, m)"
  then show ?thesis using none by (simp add: claim_entry_def)
next
  fix i
  assume i: "i < 32" "\<not> le_active (dm_entries m ! i)"
    and old: "\<forall>j<32. le_active (dm_entries m ! j) \<longrightarrow> entry_key (dm_entries m ! j) \<noteq> (fst k, snd k)"
    and reg: "Register (fst k) (snd k) cb now m = (Ok (), m\<lparr>dm_entries := (dm_entries m)[i :=
         fresh_entry (fst k) (snd k) cb now]\<rparr>)"
  have "FindIndex (fst k) (snd k) (snd (Register (fst k) (snd k) cb now m)) = Some i"
    unfolding FindIndex_key
    using i old assms by (intro first_index_unique) (auto simp: reg mon_wf_def nth_list_update
        split: if_splits)
  then show ?thesis
    using some [of i] i old by (simp add: claim_entry_def reg)
qed

interpretation entries: slot_table 32 dm_entries le_active entry_key mon_wf "claim_entry cb now"
  for cb :: "'c option" and now
proof unfold_locales
  fix m m' :: "'c DeadSubscriberMonitor" and k i
  show "mon_wf m \<Longrightarrow> length (dm_entries m) = 32" by (simp add: mon_wf_def)
  show "mon_wf m \<Longrightarrow> mon_wf (snd (claim_entry cb now k m))"
    using mon_wf_Register [of m "fst k" "snd k" cb now] by (simp add: claim_entry_def split_beta)
  show "mon_wf m \<Longrightarrow> claim_entry cb now k m = (None, m') \<Longrightarrow> m' = m"
    by (erule claim_entry_cases [of m cb now k]) simp_all
  assume wf: "mon_wf m" and c: "claim_entry cb now k m = (Some i, m')"
  then show "i < 32 \<and> le_active (dm_entries m' ! i) \<and> entry_key (dm_entries m' ! i) = k \<and>
      (\<forall>j<32. j \<noteq> i \<longrightarrow> dm_entries m' ! j = dm_entries m ! j) \<and>
      (le_active (dm_entries m ! i) \<and> entry_key (dm_entries m ! i) = k \<or>
       \<not> le_active (dm_entries m ! i) \<and>
       (\<forall>j<32. le_active (dm_entries m ! j) \<longrightarrow> entry_key (dm_entries m ! j) \<noteq> k))"
    by (rule_tac claim_entry_cases [OF wf, of cb now k]) (auto simp: mon_wf_def)
qed

text \<open>A registration of a new key succeeds while a slot is free and is refused afterwards.\<close>

lemma Register_new:
  assumes "mon_wf m" "dm_initialised m" "cb \<noteq> None" "\<forall>j. \<not> entries.holds m j k"
  shows "fst (Register (fst k) (snd k) cb now m) =
    (if fst (claim_entry cb now k m) = None then Err kRegistryFull else Ok ())"
    and "fst (claim_entry cb now k m) = None \<Longrightarrow> j < 32 \<Longrightarrow> le_active (dm_entries m ! j)"
proof -
  have find: "FindIndex (fst k) (snd k) m = None"
    using assms(4) by (auto simp: FindIndex_key first_index_None_iff entries.holds_def)
  have r: "fst (Register (fst k) (snd k) cb now m) =
      (if first_index (\<lambda>i. \<not> le_active (dm_entries m ! i)) 32 = None then Err kRegistryFull else Ok ())"
    using assms(2,3) find by (auto simp: Register_def split: option.split)
  have c: "fst (claim_entry cb now k m) = None \<longleftrightarrow> first_index (\<lambda>i. \<not> le_active (dm_entries m ! i)) 32 = None"
  proof (rule claim_entry_cases [OF assms(1), of cb now k])
    assume "claim_entry cb now k m = (None, m)"
    then have "\<not> res_ok (fst (Register (fst k) (snd k) cb now m)) \<or>
        FindIndex (fst k) (snd k) (snd (Register (fst k) (snd k) cb now m)) = None"
      by (auto simp: claim_entry_def split_beta split: if_splits)
    moreover have "FindIndex (fst k) (snd k) (snd (Register (fst k) (snd k) cb now m)) \<noteq> None"
      if "first_index (\<lambda>i. \<not> le_active (dm_entries m ! i)) 32 = Some i" for i
      using that assms first_index_SomeD(1) [OF that] find
      by (auto simp: FindIndex_key first_index_None_iff Register_def mon_wf_def entry_key_def)
    ultimately show ?thesis
      using r by (cases "first_index (\<lambda>i. \<not> le_active (dm_entries m ! i)) 32")
        (auto simp: \<open>claim_entry cb now k m = (None, m)\<close>)
  next
    fix i m'
    assume "claim_entry cb now k m = (Some i, m')" "i < 32" "\<not> le_active (dm_entries m ! i)"
    then show ?thesis by (auto simp: first_index_None_iff)
  qed
  show "fst (Register (fst k) (snd k) cb now m) =
    (if fst (claim_entry cb now k m) = None then Err kRegistryFull else Ok ())"
    by (simp add: r c)
  show "fst (claim_entry cb now k m) = None \<Longrightarrow> j < 32 \<Longrightarrow> le_active (dm_entries m ! j)"
    by (simp add: c first_index_None_iff)
qed

interpretation subscribers: serving_table 32 dm_entries le_active entry_key mon_wf "claim_entry cb now"
    "\<lambda>k. Register (fst k) (snd k) cb now" "\<lambda>m. dm_initialised m \<and> cb \<noteq> None" kRegistryFull
  for cb :: "'c option" and now
proof unfold_locales
  fix m m' :: "'c DeadSubscriberMonitor" and k i j
  assume m: "mon_wf m" "dm_initialised m \<and> cb \<noteq> None" "\<forall>j. \<not> entries.holds m j k"
  note new = Register_new [OF m(1) conjunct1 [OF m(2)] conjunct2 [OF m(2)] m(3)]
  have init: "dm_initialised (snd (Register (fst k) (snd k) cb now m))"
    using m(2) by (auto simp: Register_def split: option.split)
  have claim: "snd (claim_entry cb now k m) = snd (Register (fst k) (snd k) cb now m)"
    by (simp add: claim_entry_def split_beta)
  show "claim_entry cb now k m = (Some i, m') \<Longrightarrow> fst (Register (fst k) (snd k) cb now m) = Ok () \<and>
      mon_wf (snd (Register (fst k) (snd k) cb now m)) \<and>
      (dm_initialised (snd (Register (fst k) (snd k) cb now m)) \<and> cb \<noteq> None) \<and>
      (\<forall>j l. entries.holds (snd (Register (fst k) (snd k) cb now m)) j l \<longleftrightarrow> entries.holds m' j l)"
    using new(1) init m claim by (simp add: mon_wf_Register)
  show "fst (claim_entry cb now k m) = None \<Longrightarrow> j < 32 \<Longrightarrow> le_active (dm_entries m ! j)"
    by (rule new(2))
  show "fst (claim_entry cb now k m) = None \<Longrightarrow> fst (Register (fst k) (snd k) cb now m) = Err kRegistryFull"
    by (simp add: new(1))
qed

section \<open>The scan, slot by slot\<close>

definition expired :: "u64 \<Rightarrow> 'c LivenessEntry \<Rightarrow> bool" where
  "expired now e \<longleftrightarrow> le_active e \<and> unat (le_lastBeatMs e) + 2000 < unat now"

definition late :: "u64 \<Rightarrow> 'c LivenessEntry \<Rightarrow> bool" where
  "late now e \<longleftrightarrow> le_active e \<and> unat (le_lastBeatMs e) + 500 < unat now"

definition scanned_entry :: "u64 \<Rightarrow> 'c LivenessEntry \<Rightarrow> 'c LivenessEntry" where
  "scanned_entry now e =
     (if expired now e then release_entry (e\<lparr>le_health := kDead\<rparr>)
      else if late now e then e\<lparr>le_health := kWarning\<rparr> else e)"

text \<open>Callbacks that leave the monitor alone.\<close>

definition plain_dead :: "('c \<Rightarrow> u16 \<Rightarrow> u16 \<Rightarrow> 'w \<Rightarrow> 'w) \<Rightarrow>
    'c \<Rightarrow> u16 \<Rightarrow> u16 \<Rightarrow> 'c DeadSubscriberMonitor \<times> 'w \<Rightarrow> 'c DeadSubscriberMonitor \<times> 'w" where
  "plain_dead eff c sid eid s = (fst s, eff c sid eid (snd s))"

definition notify_dead :: "('c \<Rightarrow> u16 \<Rightarrow> u16 \<Rightarrow> 'w \<Rightarrow> 'w) \<Rightarrow> 'c LivenessEntry \<Rightarrow> 'w \<Rightarrow> 'w" where
  "notify_dead eff e w =
     (case le_onDead e of None \<Rightarrow> w | Some c \<Rightarrow> eff c (le_serviceId e) (le_eventId e) w)"

lemma age_gt:
  assumes "\<not> now < beat" "k = unat lim"
  shows "now - beat > (lim :: u64) \<longleftrightarrow> unat beat + k < unat now"
  using assms by (auto simp: word_less_nat_alt word_le_nat_alt unat_sub not_less)

lemma scan_slot_plain:
  "scan_slot (plain_dead eff) now i ((m, w), n) =
     (let e = dm_entries m ! i
      in if expired now e
         then ((m\<lparr>dm_entries := (dm_entries m)[i := (dm_entries m)[i := e\<lparr>le_health := kDead\<rparr>] ! i,
                                i := release_entry ((dm_entries m)[i := e\<lparr>le_health := kDead\<rparr>] ! i)],
                  dm_evictedTotal := dm_evictedTotal m + 1\<rparr>, notify_dead eff e w), n + 1)
         else if late now e
         then ((m\<lparr>dm_entries := (dm_entries m)[i := e\<lparr>le_health := kWarning\<rparr>]\<rparr>, w), n)
         else ((m, w), n))"
proof (cases "le_active (dm_entries m ! i) \<and> \<not> now < le_lastBeatMs (dm_entries m ! i)")
  case False
  then show ?thesis
    by (auto simp: scan_slot_def Let_def expired_def late_def word_less_nat_alt)
next
  case True
  let ?e = "dm_entries m ! i"
  have dead: "now - le_lastBeatMs ?e > ucast kDeadTimeoutMs \<longleftrightarrow> expired now ?e"
    using age_gt [of now "le_lastBeatMs ?e" 2000 "ucast kDeadTimeoutMs"] True by (simp add: expired_def)
  have late: "now - le_lastBeatMs ?e > ucast kHeartbeatIntervalMs \<longleftrightarrow> late now ?e"
    using age_gt [of now "le_lastBeatMs ?e" 500 "ucast kHeartbeatIntervalMs"] True by (simp add: late_def)
  show ?thesis
    using True dead [simplified] late [simplified]
    by (simp add: scan_slot_def Let_def plain_dead_def notify_dead_def split: option.split)
qed

lemma scan_slot_effect:
  assumes "i < length (dm_entries m)"
  shows "scan_slot (plain_dead eff) now i ((m, w), n) =
    (let e = dm_entries m ! i; d = (if expired now e then 1 else 0)
     in ((m\<lparr>dm_entries := (dm_entries m)[i := scanned_entry now e],
            dm_evictedTotal := dm_evictedTotal m + d\<rparr>,
          if expired now e then notify_dead eff e w else w), n + (if expired now e then 1 else 0)))"
proof -
  have "m\<lparr>dm_entries := dm_entries m, dm_evictedTotal := dm_evictedTotal m\<rparr> = m" by simp
  then show ?thesis
    using assms by (simp add: scan_slot_plain scanned_entry_def Let_def)
qed

definition dead_entries :: "u64 \<Rightarrow> 'c LivenessEntry list \<Rightarrow> 'c LivenessEntry list" where
  "dead_entries now es = filter (expired now) es"

lemma dead_scan_fold:
  assumes "n \<le> length (dm_entries m)"
  shows "fold (scan_slot (plain_dead eff) now) [0..<n] ((m, w), 0) =
    (let dead = dead_entries now (take n (dm_entries m))
     in ((m\<lparr>dm_entries := map (scanned_entry now) (take n (dm_entries m)) @ drop n (dm_entries m),
            dm_evictedTotal := dm_evictedTotal m + word_of_nat (length dead)\<rparr>,
          fold (notify_dead eff) dead w), word_of_nat (length dead)))"
  using assms
proof (induction n)
  case 0
  then show ?case by (simp add: dead_entries_def)
next
  case (Suc n)
  let ?es = "dm_entries m"
  have upd: "(map (scanned_entry now) (take n ?es) @ drop n ?es)[n := scanned_entry now (?es ! n)]
      = map (scanned_entry now) (take (Suc n) ?es) @ drop (Suc n) ?es"
    using Suc.prems
    by (simp add: list_update_append take_Suc_conv_app_nth Cons_nth_drop_Suc [symmetric])
  have dead: "dead_entries now (take (Suc n) ?es) =
      dead_entries now (take n ?es) @ (if expired now (?es ! n) then [?es ! n] else [])"
    using Suc.prems by (simp add: dead_entries_def take_Suc_conv_app_nth)
  show ?case
    using Suc.IH Suc.prems upd dead
    by (auto simp: scan_slot_effect nth_append Let_def ac_simps)
qed

text \<open>
  The scan evicts exactly the entries silent for more than two seconds, calls each of their
  callbacks once, in slot order and with the identifiers of the evicted subscriber, and marks
  the entries silent for more than half a second.
\<close>

lemma ScanAndEvict_plain:
  assumes "mon_wf m" "dm_initialised m"
  shows "ScanAndEvict (plain_dead eff) now (m, w) =
    (let dead = dead_entries now (dm_entries m)
     in (word_of_nat (length dead),
         m\<lparr>dm_entries := map (scanned_entry now) (dm_entries m),
           dm_evictedTotal := dm_evictedTotal m + word_of_nat (length dead)\<rparr>,
         fold (notify_dead eff) dead w))"
  using assms dead_scan_fold [of 32 m eff now w] by (simp add: ScanAndEvict_def mon_wf_def Let_def)

section \<open>The table over time\<close>

definition mon_inv :: "'c DeadSubscriberMonitor \<Rightarrow> bool" where
  "mon_inv m \<longleftrightarrow> mon_wf m \<and> entries.unique_holders m \<and>
     (\<forall>e \<in> set (dm_entries m). le_active e \<longrightarrow> le_health e \<noteq> kDead \<and> le_onDead e \<noteq> None)"

inductive mon_step :: "'c DeadSubscriberMonitor \<Rightarrow> 'c DeadSubscriberMonitor \<Rightarrow> bool" where
  m_register: "mon_step m (snd (Register sid eid cb now m))"
| m_beat: "mon_step m (snd (Monitor_RecordHeartbeat sid eid now m))"
| m_deregister: "mon_step m (snd (Deregister sid eid m))"
| m_scan: "mon_step m (fst (snd (ScanAndEvict (plain_dead (\<lambda>c sid eid w. w)) now (m, ()))))"

definition row_ok :: "'c LivenessEntry \<Rightarrow> bool" where
  "row_ok e \<longleftrightarrow> (le_active e \<longrightarrow> le_health e \<noteq> kDead \<and> le_onDead e \<noteq> None)"

lemma mon_inv_rows: "mon_inv m \<longleftrightarrow>
    mon_wf m \<and> entries.unique_holders m \<and> (\<forall>i<length (dm_entries m). row_ok (dm_entries m ! i))"
  by (auto simp: mon_inv_def row_ok_def all_set_conv_all_nth)

lemma FindIndex_SomeD:
  "FindIndex sid eid m = Some i \<Longrightarrow> i < 32 \<and> le_active (dm_entries m ! i)"
  using first_index_SomeD(1,2) by (fastforce simp: FindIndex_def)

text \<open>A row may be replaced by one that is inactive or has the same key.\<close>

lemma mon_inv_replace:
  assumes "mon_inv m" "i < 32" "row_ok e"
    and "le_active e \<Longrightarrow> le_active (dm_entries m ! i) \<and> entry_key e = entry_key (dm_entries m ! i)"
  shows "mon_inv (m\<lparr>dm_entries := (dm_entries m)[i := e]\<rparr>)"
proof -
  let ?m = "m\<lparr>dm_entries := (dm_entries m)[i := e]\<rparr>"
  have len: "length (dm_entries m) = 32" using assms(1) by (simp add: mon_inv_def mon_wf_def)
  have "entries.holds ?m j k \<Longrightarrow> entries.holds m j k" for j k
    using assms(2,4) len by (cases "i = j") (auto simp: entries.holds_def)
  then have "entries.unique_holders ?m"
    using entries.unique_shrink [of m ?m] assms(1) by (auto simp: mon_inv_def)
  then show ?thesis
    using assms(1-3) len by (auto simp: mon_inv_rows mon_wf_def nth_list_update)
qed

lemma mon_inv_Register:
  assumes "mon_inv m"
  shows "mon_inv (snd (Register sid eid cb now m))"
proof -
  have wf: "mon_wf m" and u: "entries.unique_holders m" using assms by (simp_all add: mon_inv_def)
  have claim: "snd (claim_entry cb now (sid, eid) m) = snd (Register sid eid cb now m)"
    by (simp add: claim_entry_def split_beta)
  have u': "entries.unique_holders (snd (Register sid eid cb now m))"
    using entries.unique_claim [OF wf u, of cb now "(sid, eid)"] by (simp add: claim)
  show ?thesis
  proof (rule Register_cases [OF wf, of sid eid cb now])
    fix i
    assume i: "i < 32" and cb: "cb \<noteq> None" and reg: "Register sid eid cb now m =
      (Ok (), m\<lparr>dm_entries := (dm_entries m)[i := fresh_entry sid eid cb now]\<rparr>)"
    show ?thesis
      using assms u' cb i unfolding reg by (auto simp: mon_inv_rows mon_wf_def nth_list_update row_ok_def)
  qed (use assms in simp)
qed

lemma mon_inv_beat: "mon_inv m \<Longrightarrow> mon_inv (snd (Monitor_RecordHeartbeat sid eid now m))"
proof -
  assume inv: "mon_inv m"
  have "mon_inv (m\<lparr>dm_entries := (dm_entries m)[i := (dm_entries m ! i)\<lparr>le_lastBeatMs := now, le_health := kAlive\<rparr>]\<rparr>)"
    if "FindIndex sid eid m = Some i" for i
    using FindIndex_SomeD [OF that] inv
    by (intro mon_inv_replace) (auto simp: row_ok_def entry_key_def mon_inv_rows mon_wf_def)
  then show ?thesis using inv by (simp add: Monitor_RecordHeartbeat_def split: option.split)
qed

lemma row_ok_release [simp]: "row_ok (release_entry e)" "\<not> le_active (release_entry e)"
  by (simp_all add: row_ok_def release_entry_def)

lemma mon_inv_Deregister: "mon_inv m \<Longrightarrow> mon_inv (snd (Deregister sid eid m))"
  using FindIndex_SomeD [of sid eid m]
  by (auto simp: Deregister_def intro!: mon_inv_replace split: option.split)

lemma mon_inv_scan:
  assumes "mon_inv m"
  shows "mon_inv (fst (snd (ScanAndEvict (plain_dead eff) now (m, w))))"
proof (cases "dm_initialised m")
  case True
  have wf: "mon_wf m" and len: "length (dm_entries m) = 32"
    using assms by (simp_all add: mon_inv_def mon_wf_def)
  let ?m = "m\<lparr>dm_entries := map (scanned_entry now) (dm_entries m),
      dm_evictedTotal := dm_evictedTotal m + word_of_nat (length (dead_entries now (dm_entries m)))\<rparr>"
  have "entries.holds ?m j k \<Longrightarrow> entries.holds m j k" for j k
    using len by (auto simp: entries.holds_def scanned_entry_def entry_key_def split: if_splits)
  then have "entries.unique_holders ?m"
    using entries.unique_shrink [of m ?m] assms by (auto simp: mon_inv_def)
  moreover have "row_ok e \<Longrightarrow> row_ok (scanned_entry now e)" for e :: "'a LivenessEntry"
    by (auto simp: scanned_entry_def) (auto simp: row_ok_def)
  ultimately have "mon_inv ?m" using assms len by (auto simp: mon_inv_rows mon_wf_def)
  then show ?thesis by (simp add: ScanAndEvict_plain [OF wf True] Let_def)
qed (use assms in \<open>simp add: ScanAndEvict_def\<close>)

lemma mon_inv_start:
  assumes "Monitor_Init now m = (Ok (), m')" "mon_wf m"
  shows "mon_inv m'"
  using assms by (auto simp: Monitor_Init_def mon_inv_def mon_wf_def entries.unique_holders_def
      entries.holds_def split: if_splits)

lemma mon_inv_step: "mon_step m m' \<Longrightarrow> mon_inv m \<Longrightarrow> mon_inv m'"
  by (induction rule: mon_step.induct)
    (simp_all add: mon_inv_Register mon_inv_beat mon_inv_Deregister mon_inv_scan)

lemma mon_inv_reachable:
  assumes "mon_step\<^sup>*\<^sup>* m' s" "Monitor_Init now m = (Ok (), m')" "mon_wf m"
  shows "mon_inv s"
  using assms(1)
  by induction (use assms(2,3) in \<open>auto intro: mon_inv_start mon_inv_step\<close>)

lemma mon_reachable_initialised:
  assumes "mon_step\<^sup>*\<^sup>* m' s" "Monitor_Init now m = (Ok (), m')" "mon_wf m"
  shows "dm_initialised s"
  using assms(1)
proof induction
  case base
  show ?case using assms(2) by (auto simp: Monitor_Init_def split: if_splits)
next
  case (step a b)
  have wf: "mon_wf a" using mon_inv_reachable [OF step.hyps(1) assms(2,3)] by (simp add: mon_inv_def)
  from step.hyps(2) show ?case
  proof cases
    case (m_scan t)
    then show ?thesis using step.IH by (simp add: ScanAndEvict_plain [OF wf] Let_def)
  qed (use step.IH in \<open>auto simp: Register_def Monitor_RecordHeartbeat_def Deregister_def split: option.split\<close>)
qed

section \<open>Statistics\<close>

definition active_with :: "'c DeadSubscriberMonitor \<Rightarrow> (SubscriberHealth \<Rightarrow> bool) \<Rightarrow> nat" where
  "active_with m P = length (filter (\<lambda>e. le_active e \<and> P (le_health e)) (dm_entries m))"

lemma stats_fold:
  assumes "n \<le> length es"
  shows "fold (\<lambda>i. stats_slot (es ! i)) [0..<n] st =
    (let c = (\<lambda>P. word_of_nat (length (filter (\<lambda>e. le_active e \<and> P (le_health e)) (take n es))))
     in st\<lparr>ms_totalActive := ms_totalActive st + c (\<lambda>h. True),
           ms_totalAlive := ms_totalAlive st + c (\<lambda>h. h = kAlive),
           ms_totalWarning := ms_totalWarning st + c (\<lambda>h. h = kWarning),
           ms_totalDead := ms_totalDead st + c (\<lambda>h. h = kDead)\<rparr>)"
  using assms
proof (induction n)
  case (Suc n)
  then show ?case
    by (cases "le_health (es ! n)")
      (simp_all add: stats_slot_def Let_def take_Suc_conv_app_nth ac_simps)
qed simp

lemma Monitor_GetStats_eq:
  assumes "mon_wf m"
  shows "Monitor_GetStats m =
    \<lparr>ms_totalActive = word_of_nat (active_with m (\<lambda>h. True)),
     ms_totalAlive = word_of_nat (active_with m (\<lambda>h. h = kAlive)),
     ms_totalWarning = word_of_nat (active_with m (\<lambda>h. h = kWarning)),
     ms_totalDead = word_of_nat (active_with m (\<lambda>h. h = kDead)),
     ms_evictedTotal = dm_evictedTotal m\<rparr>"
  using assms stats_fold [of 32 "dm_entries m"]
  by (simp add: Monitor_GetStats_def mon_wf_def active_with_def Let_def)

end
