(* ===== verification/MonitorTiming.thy ===== *)
theory MonitorTiming
  imports DeadSub Periodic
begin

text \<open>
  The subscriber monitor of \<open>src/DeadSubscriberMonitor.cpp\<close> on its period: timed runs in which one
  subscriber is silent while others register, beat and leave, and the scan runs now and then.
  They interpret \<open>exact_scan\<close>: the silent subscriber is evicted and its callback runs, once, when
  2000 ms have passed, and not before. Callbacks leave the monitor alone here; each is recorded
  with the ids it is given.
\<close>

type_synonym 'c dead_call = "'c \<times> u16 \<times> u16"

definition record_dead :: "'c \<Rightarrow> u16 \<Rightarrow> u16 \<Rightarrow> 'c dead_call list \<Rightarrow> 'c dead_call list" where
  "record_dead c sid eid w = w @ [(c, sid, eid)]"

text \<open>Every operation but those that concern the subscriber \<open>k\<close>.\<close>

inductive mon_others :: "u16 \<times> u16 \<Rightarrow> 'c DeadSubscriberMonitor \<times> 'c dead_call list \<Rightarrow>
    'c DeadSubscriberMonitor \<times> 'c dead_call list \<Rightarrow> bool" for k where
  mo_init: "mon_others k (m, w) (snd (Monitor_Init now m), w)"
| mo_register: "(sid, eid) \<noteq> k \<Longrightarrow> mon_others k (m, w) (snd (Register sid eid cb now m), w)"
| mo_beat: "(sid, eid) \<noteq> k \<Longrightarrow> mon_others k (m, w) (snd (Monitor_RecordHeartbeat sid eid now m), w)"
| mo_deregister: "(sid, eid) \<noteq> k \<Longrightarrow> mon_others k (m, w) (snd (Deregister sid eid m), w)"

definition mon_scan :: "u64 \<Rightarrow> 'c DeadSubscriberMonitor \<times> 'c dead_call list \<Rightarrow>
    'c DeadSubscriberMonitor \<times> 'c dead_call list \<Rightarrow> bool" where
  "mon_scan t s s' \<longleftrightarrow> s' = snd (ScanAndEvict (plain_dead record_dead) t s)"

section \<open>One subscriber\<close>

definition entries_of :: "u16 \<times> u16 \<Rightarrow> 'c DeadSubscriberMonitor \<Rightarrow> 'c LivenessEntry list" where
  "entries_of k m = filter (\<lambda>e. le_active e \<and> entry_key e = k) (dm_entries m)"

definition calls_of :: "u16 \<times> u16 \<Rightarrow> 'c dead_call list \<Rightarrow> 'c list" where
  "calls_of k w = map fst (filter (\<lambda>x. snd x = k) w)"

text \<open>Tracked with a last beat at \<open>t0\<close> and not reported, or gone and reported once.\<close>

definition silent_sub :: "u16 \<times> u16 \<Rightarrow> 'c \<Rightarrow> u64 \<Rightarrow> 'c DeadSubscriberMonitor \<times> 'c dead_call list \<Rightarrow> bool" where
  "silent_sub k c t0 s \<longleftrightarrow> mon_inv (fst s) \<and> dm_initialised (fst s) \<and>
     ((\<exists>e. entries_of k (fst s) = [e] \<and> le_lastBeatMs e = t0 \<and> le_onDead e = Some c) \<and> calls_of k (snd s) = [] \<or>
      entries_of k (fst s) = [] \<and> calls_of k (snd s) = [c])"

definition evicted :: "u16 \<times> u16 \<Rightarrow> 'c \<Rightarrow> 'c DeadSubscriberMonitor \<times> 'c dead_call list \<Rightarrow> bool" where
  "evicted k c s \<longleftrightarrow> entries_of k (fst s) = [] \<and> calls_of k (snd s) = [c]"

lemma filter_update_other:
  assumes "\<not> P y" "\<not> P (xs ! i)"
  shows "filter P (xs[i := y]) = filter P xs"
proof (cases "i < length xs")
  case True
  note arg_cong [OF id_take_nth_drop [OF True], of "filter P"]
  then show ?thesis using True assms by (simp add: upd_conv_take_nth_drop)
qed (simp add: list_update_beyond)

lemma others_entries:
  assumes "mon_others k s s'" "mon_inv (fst s)" "dm_initialised (fst s)"
  shows "entries_of k (fst s') = entries_of k (fst s)" "snd s' = snd s" "mon_inv (fst s')"
    "dm_initialised (fst s')"
proof -
  have upd: "entries_of k (m\<lparr>dm_entries := (dm_entries m)[i := e]\<rparr>) = entries_of k m"
    if "\<not> (le_active e \<and> entry_key e = k)" "\<not> (le_active (dm_entries m ! i) \<and> entry_key (dm_entries m ! i) = k)"
    for m :: "'a DeadSubscriberMonitor" and i e
    using that unfolding entries_of_def by (simp add: filter_update_other)
  have found: "entry_key (dm_entries m ! i) = (sid, eid)" if "FindIndex sid eid m = Some i"
    for m :: "'a DeadSubscriberMonitor" and sid eid i
    using that by (simp add: FindIndex_key first_index_Some_iff)
  have "entries_of k (fst s') = entries_of k (fst s) \<and> snd s' = snd s \<and> mon_inv (fst s') \<and> dm_initialised (fst s')"
    using assms
  proof (induction rule: mon_others.induct)
    case (mo_init m w now)
    then show ?case by (simp add: Monitor_Init_def)
  next
    case (mo_register sid eid m w cb now)
    then have wf: "mon_wf m" by (simp add: mon_inv_def)
    show ?case
      using mo_register mon_inv_Register [of m sid eid cb now]
      by (cases rule: Register_cases [OF wf, of sid eid cb now]) (auto simp: upd)
  next
    case (mo_beat sid eid m w now)
    then show ?case
      using mon_inv_beat [of m sid eid now] found [of sid eid m]
      by (auto simp: Monitor_RecordHeartbeat_def upd entry_key_def split: option.splits)
  next
    case (mo_deregister sid eid m w)
    then show ?case
      using mon_inv_Deregister [of m sid eid] found [of sid eid m]
      by (auto simp: Deregister_def upd release_entry_def split: option.splits)
  qed
  then show "entries_of k (fst s') = entries_of k (fst s)" "snd s' = snd s" "mon_inv (fst s')"
    "dm_initialised (fst s')" by blast+
qed

section \<open>The scan\<close>

lemma entries_scanned:
  "filter (\<lambda>e. le_active e \<and> entry_key e = k) (map (scanned_entry t) es) =
     map (scanned_entry t) (filter (\<lambda>e. \<not> expired t e) (filter (\<lambda>e. le_active e \<and> entry_key e = k) es))"
proof -
  have "le_active (scanned_entry t e) \<and> entry_key (scanned_entry t e) = k \<longleftrightarrow>
      le_active e \<and> entry_key e = k \<and> \<not> expired t e" for e :: "'a LivenessEntry"
    by (auto simp: scanned_entry_def release_entry_def entry_key_def)
  then show ?thesis by (simp add: filter_map o_def conj_ac)
qed

lemma calls_recorded:
  "\<forall>e \<in> set es. le_onDead e \<noteq> None \<Longrightarrow>
     calls_of k (fold (notify_dead record_dead) es w) =
     calls_of k w @ map (the \<circ> le_onDead) (filter (\<lambda>e. entry_key e = k) es)"
  by (induction es arbitrary: w)
    (auto simp: notify_dead_def record_dead_def calls_of_def entry_key_def)

lemma scan_entries:
  assumes "mon_inv m" "dm_initialised m" "mon_scan t (m, w) (m', w')"
  shows "entries_of k m' = map (scanned_entry t) (filter (\<lambda>e. \<not> expired t e) (entries_of k m))"
    "calls_of k w' = calls_of k w @ map (the \<circ> le_onDead) (filter (expired t) (entries_of k m))"
    "mon_inv m'" "dm_initialised m'"
proof -
  have wf: "mon_wf m" using assms(1) by (simp add: mon_inv_def)
  have s': "(m', w') = snd (ScanAndEvict (plain_dead record_dead) t (m, w))"
    using assms(3) by (simp add: mon_scan_def)
  then have m': "dm_entries m' = map (scanned_entry t) (dm_entries m)" "dm_initialised m'"
    and w': "w' = fold (notify_dead record_dead) (dead_entries t (dm_entries m)) w"
    using assms(2) by (simp_all add: ScanAndEvict_plain [OF wf assms(2)] Let_def)
  show "dm_initialised m'" by (rule m'(2))
  show "mon_inv m'"
    using mon_inv_scan [OF assms(1), where eff = record_dead and now = t and w = w] s'
    by (metis fst_conv)
  show "entries_of k m' = map (scanned_entry t) (filter (\<lambda>e. \<not> expired t e) (entries_of k m))"
    by (simp only: entries_of_def m'(1) entries_scanned)
  have "\<forall>e \<in> set (dead_entries t (dm_entries m)). le_onDead e \<noteq> None"
    using assms(1) by (auto simp: dead_entries_def mon_inv_def expired_def)
  moreover have "filter (\<lambda>e. entry_key e = k) (dead_entries t (dm_entries m)) = filter (expired t) (entries_of k m)"
    by (auto simp: dead_entries_def entries_of_def expired_def intro!: filter_cong)
  ultimately show "calls_of k w' = calls_of k w @ map (the \<circ> le_onDead) (filter (expired t) (entries_of k m))"
    by (simp add: w' calls_recorded)
qed

lemma silent_scan:
  assumes "mon_scan t s s'" "silent_sub k c t0 s"
  shows "silent_sub k c t0 s'" "unat t0 + 2000 < unat t \<Longrightarrow> evicted k c s'"
    "unat t \<le> unat t0 + 2000 \<Longrightarrow> evicted k c s' \<Longrightarrow> evicted k c s"
proof -
  have s: "mon_inv (fst s)" "dm_initialised (fst s)" "mon_scan t (fst s, snd s) (fst s', snd s')"
    using assms by (simp_all add: silent_sub_def)
  note sc = scan_entries [OF s]
  have old: "le_active e" if "entries_of k (fst s) = [e]" for e
  proof -
    have "e \<in> set (entries_of k (fst s))" using that by simp
    then show ?thesis unfolding entries_of_def by simp
  qed
  have beat: "le_lastBeatMs (scanned_entry t e) = le_lastBeatMs e \<and> le_onDead (scanned_entry t e) = le_onDead e"
    if "\<not> expired t e" for e :: "'a LivenessEntry"
    using that by (simp add: scanned_entry_def)
  have "silent_sub k c t0 s' \<and> (unat t0 + 2000 < unat t \<longrightarrow> evicted k c s') \<and>
      (unat t \<le> unat t0 + 2000 \<longrightarrow> evicted k c s' \<longrightarrow> evicted k c s)"
  proof (cases "entries_of k (fst s) = []")
    case True
    then show ?thesis
      using assms(2) sc by (simp add: silent_sub_def evicted_def)
  next
    case False
    then obtain e where e: "entries_of k (fst s) = [e]" "le_lastBeatMs e = t0" "le_onDead e = Some c"
      "calls_of k (snd s) = []"
      using assms(2) by (auto simp: silent_sub_def)
    have "expired t e \<longleftrightarrow> unat t0 + 2000 < unat t"
      using old [OF e(1)] e(2) by (simp add: expired_def)
    then show ?thesis
      using sc e beat [of e] by (auto simp: silent_sub_def evicted_def)
  qed
  then show "silent_sub k c t0 s'" "unat t0 + 2000 < unat t \<Longrightarrow> evicted k c s'"
    "unat t \<le> unat t0 + 2000 \<Longrightarrow> evicted k c s' \<Longrightarrow> evicted k c s" by blast+
qed

lemma silent_mon_others:
  assumes "mon_others k s s'" "silent_sub k c t0 s"
  shows "silent_sub k c t0 s'" "evicted k c s' \<longleftrightarrow> evicted k c s"
  using assms others_entries [OF assms(1)] by (simp_all add: silent_sub_def evicted_def)

interpretation silent_subscriber: exact_scan "mon_others k" mon_scan "silent_sub k c t0" "evicted k c"
    "unat t0 + 2000" for k c t0
  by unfold_locales (auto intro: silent_mon_others silent_scan simp: silent_mon_others)

lemma mon_scan_possible: "\<exists>s'. mon_scan t s s'"
  by (simp add: mon_scan_def)

lemma entries_of_found: "mon_wf m \<Longrightarrow> entries_of (sid, eid) m = [] \<longleftrightarrow> FindIndex sid eid m = None"
  by (auto simp: entries_of_def FindIndex_key first_index_None_iff filter_empty_conv all_set_conv_all_nth mon_wf_def)

lemma filter_upt_one: "filter (\<lambda>j. j = i) [0..<n] = (if i < n then [i] else [])"
  by (induction n) auto

text \<open>The slot that is found is the only one with these ids.\<close>

lemma entries_of_index:
  assumes "mon_inv m" "FindIndex sid eid m = Some i"
  shows "entries_of (sid, eid) m = [dm_entries m ! i]"
proof -
  have len: "length (dm_entries m) = 32" and u: "entries.unique_holders m"
    using assms(1) by (simp_all add: mon_inv_def mon_wf_def)
  have i: "i < 32" "le_active (dm_entries m ! i)" "entry_key (dm_entries m ! i) = (sid, eid)"
    using assms(2) by (simp_all add: FindIndex_key first_index_Some_iff)
  have "le_active (dm_entries m ! j) \<and> entry_key (dm_entries m ! j) = (sid, eid) \<longleftrightarrow> j = i" if "j < 32" for j
    using u that i unfolding entries.unique_holders_def entries.holds_def by blast
  then have "filter (\<lambda>j. le_active (dm_entries m ! j) \<and> entry_key (dm_entries m ! j) = (sid, eid)) [0..<32]
      = filter (\<lambda>j. j = i) [0..<32]"
    by (intro filter_cong) auto
  also have "\<dots> = [i]" using i(1) by (simp only: filter_upt_one if_True)
  finally show ?thesis
    using len unfolding entries_of_def by (subst map_nth [symmetric]) (simp add: filter_map o_def)
qed

end
