(* ===== verification/ClaimRace.thy ===== *)
theory ClaimRace
  imports Interleave
begin

text \<open>
  A slot of a table that one call claims while another call, the reaper, looks for slots that are
  out of date. The claim is one compare-exchange of the active flag; the claiming call then fills
  the slot store by store, its time stamp among the stores. The reaper loads the flag, loads the
  stamp, and makes the accesses that the stamp calls for. The locale says when the slot survives;
  it is interpreted for the subscriber monitor and for the rate limiter.
\<close>

section \<open>Accesses\<close>

text \<open>
  \<open>CTry\<close>, \<open>CFull\<close> and \<open>CRun\<close>: the claiming call before its exchange, after a failed one, and with the
  stores it has still to make. \<open>RActive\<close>, \<open>RStamp\<close>, \<open>RRun\<close>: the reaper before its two loads, and
  with the accesses still to make.
\<close>

datatype 's slot_pc = CTry | CFull | CRun "('s \<Rightarrow> 's) list" | RActive | RStamp | RRun "('s \<Rightarrow> 's) list"

fun slot_access :: "('s \<Rightarrow> bool) \<Rightarrow> ('s \<Rightarrow> u64) \<Rightarrow> ('s \<Rightarrow> 's) \<Rightarrow> ('s \<Rightarrow> 's) list \<Rightarrow> (u64 \<Rightarrow> ('s \<Rightarrow> 's) list) \<Rightarrow>
    's slot_pc \<Rightarrow> 's \<Rightarrow> 's slot_pc \<times> 's" where
  "slot_access active stamp claim fills decide CTry s =
     (if active s then (CFull, s) else (CRun fills, claim s))"
| "slot_access active stamp claim fills decide (CRun (f # fs)) s = (CRun fs, f s)"
| "slot_access active stamp claim fills decide RActive s = (if active s then (RStamp, s) else (RRun [], s))"
| "slot_access active stamp claim fills decide RStamp s = (RRun (decide (stamp s)), s)"
| "slot_access active stamp claim fills decide (RRun (f # fs)) s = (RRun fs, f s)"
| "slot_access active stamp claim fills decide p s = (p, s)"

text \<open>
  The schedules, over \<open>0\<close> for the claiming call and \<open>1\<close> for the reaper, in which the reaper loads
  the flag after the claim but the stamp before it is stored as the \<open>k\<close>-th store.
\<close>

definition exposed :: "nat \<Rightarrow> nat list \<Rightarrow> bool" where
  "exposed k xs =
     (let a = length (takeWhile (\<lambda>x. x = 0) xs);
          b = length (takeWhile (\<lambda>x. x = 0) (drop (Suc a) xs))
      in 1 \<le> a \<and> a + b \<le> k + 1)"

lemma zero_prefix:
  assumes "set xs \<subseteq> {0, 1 :: nat}"
  obtains (all) a where "xs = replicate a 0" | (split) a ys where "xs = replicate a 0 @ 1 # ys" "set ys \<subseteq> {0, 1}"
proof -
  let ?a = "length (takeWhile (\<lambda>x. x = 0) xs)"
  have zeros: "takeWhile (\<lambda>x. x = 0) xs = replicate ?a 0"
    by (metis (mono_tags, lifting) replicate_eqI set_takeWhileD)
  show thesis
  proof (cases "dropWhile (\<lambda>x. x = 0) xs")
    case Nil
    then have "takeWhile (\<lambda>x. x = 0) xs = xs"
      using takeWhile_dropWhile_id [of "\<lambda>x. x = 0" xs] by (simp del: dropWhile_eq_Nil_conv)
    with zeros have "xs = replicate ?a 0" by metis
    then show ?thesis by (rule all)
  next
    case (Cons y ys)
    then have "y \<noteq> 0" by (simp add: dropWhile_eq_Cons_conv)
    moreover have xs: "xs = replicate ?a 0 @ y # ys"
      using zeros takeWhile_dropWhile_id [of "\<lambda>x. x = 0" xs] Cons by simp
    moreover have "y \<in> set xs" "set ys \<subseteq> set xs" by (subst xs; force)+
    ultimately show ?thesis using split [of ?a ys] assms by auto
  qed
qed

lemma takeWhile_zeros: "x \<noteq> 0 \<Longrightarrow> takeWhile (\<lambda>x. x = 0) (replicate a (0 :: nat) @ x # ys) = replicate a 0"
  by (induction a) simp_all

lemma exposed_split:
  "exposed k (replicate a 0 @ 1 # replicate b 0 @ 1 # ys) \<longleftrightarrow> 1 \<le> a \<and> a + b \<le> k + 1"
  "\<not> exposed k (1 # ys)"
  by (simp_all add: exposed_def takeWhile_zeros Let_def)

section \<open>When the slot survives\<close>

locale claim_race =
  fixes active :: "'s \<Rightarrow> bool" and stamp :: "'s \<Rightarrow> u64" and claim :: "'s \<Rightarrow> 's"
    and fills :: "('s \<Rightarrow> 's) list" and k :: nat and t :: u64
    and decide :: "u64 \<Rightarrow> ('s \<Rightarrow> 's) list"
  assumes claimed: "active (claim s)" "stamp (claim s) = stamp s"
    and fill_active: "f \<in> set fills \<Longrightarrow> active (f s) = active s"
    and fill_stamp: "i < length fills \<Longrightarrow> stamp ((fills ! i) s) = (if i = k then t else stamp s)"
    and stamp_store: "k < length fills"
begin

text \<open>Accesses that release the slot at some point and never claim it; accesses that do neither.\<close>

definition reaping :: "('s \<Rightarrow> 's) list \<Rightarrow> bool" where
  "reaping fs \<longleftrightarrow> (\<exists>r < length fs. \<forall>s. \<not> active ((fs ! r) s)) \<and> (\<forall>f \<in> set fs. \<forall>s. active (f s) \<longrightarrow> active s)"

definition sparing :: "('s \<Rightarrow> 's) list \<Rightarrow> bool" where
  "sparing fs \<longleftrightarrow> (\<forall>f \<in> set fs. \<forall>s. active (f s) = active s)"

abbreviation acc :: "'s slot_pc \<Rightarrow> 's \<Rightarrow> 's slot_pc \<times> 's" where
  "acc \<equiv> slot_access active stamp claim fills decide"

text \<open>The slot after the claim and the first \<open>n\<close> stores.\<close>

definition filled :: "nat \<Rightarrow> 's \<Rightarrow> 's" where
  "filled n s = fold (\<lambda>f. f) (take n fills) (claim s)"

lemma filled_Suc: "n < length fills \<Longrightarrow> filled (Suc n) s = (fills ! n) (filled n s)"
  by (simp add: filled_def take_Suc_conv_app_nth)

lemma filled_beyond: "length fills \<le> n \<Longrightarrow> filled n s = filled (length fills) s"
  by (simp add: filled_def)

lemma filled_active: "active (filled n s)"
proof (induction n)
  case 0
  then show ?case by (simp add: filled_def claimed)
next
  case (Suc n)
  then show ?case
    by (cases "n < length fills")
      (simp_all add: filled_Suc fill_active filled_beyond [of "Suc n"] filled_beyond [of n])
qed

lemma filled_stamp: "n \<le> length fills \<Longrightarrow> stamp (filled n s) = (if k < n then t else stamp s)"
proof (induction n)
  case 0
  then show ?case by (simp add: filled_def claimed)
next
  case (Suc n)
  then show ?case by (simp add: filled_Suc fill_stamp less_Suc_eq)
qed

lemma stamp_of_filled: "stamp (filled n s) = (if k < n then t else stamp s)"
  using filled_stamp [of n s] filled_stamp [of "length fills" s] filled_beyond [of n s] stamp_store
  by (cases "n \<le> length fills") auto

text \<open>The claiming call after \<open>n\<close> accesses.\<close>

definition claim_at :: "nat \<Rightarrow> 's \<Rightarrow> 's slot_pc \<times> 's" where
  "claim_at n s = (if n = 0 then (CTry, s) else (CRun (drop (n - 1) fills), filled (n - 1) s))"

lemma claim_at_Suc:
  assumes "\<not> active s"
  shows "(\<lambda>(p, s'). acc p s') (claim_at n s) = claim_at (Suc n) s"
proof (cases n)
  case 0
  then show ?thesis using assms by (simp add: claim_at_def filled_def)
next
  case (Suc m)
  show ?thesis
  proof (cases "m < length fills")
    case True
    then show ?thesis
      using Suc by (simp add: claim_at_def filled_Suc Cons_nth_drop_Suc [symmetric])
  next
    case False
    then show ?thesis using Suc by (simp add: claim_at_def filled_def)
  qed
qed

lemma claim_runs:
  assumes "\<not> active s"
  shows "run_schedule acc (replicate b 0) ([fst (claim_at n s), q], snd (claim_at n s)) =
    ([fst (claim_at (n + b) s), q], snd (claim_at (n + b) s))"
proof (induction b)
  case (Suc b)
  then show ?case
    using claim_at_Suc [OF assms, of "n + b"]
    by (simp add: run_schedule_replicate_Suc split_beta del: replicate.simps)
qed simp

text \<open>Once the reaper is done without an access, the claim completes undisturbed.\<close>

lemma undisturbed:
  assumes "\<not> active s"
    and "run_schedule acc xs ([fst (claim_at n s), RRun []], snd (claim_at n s)) = ([CRun [], RRun []], s')"
  shows "s' = filled (length fills) s"
proof -
  define I where "I = (\<lambda>(m :: nat) ps s1. \<exists>n. ps = [fst (claim_at n s), RRun []] \<and> s1 = snd (claim_at n s))"
  have "case_prod (I 0) (run_schedule acc xs ([fst (claim_at n s), RRun []], snd (claim_at n s)))"
  proof (rule run_schedule_invariant [where I = I])
    show "I (length xs) [fst (claim_at n s), RRun []] (snd (claim_at n s))" by (auto simp: I_def)
  next
    fix m i p s1 ps s0
    assume "I (Suc m) ps s0" "i < length ps" "acc (ps ! i) s0 = (p, s1)"
    then obtain n where n: "ps = [fst (claim_at n s), RRun []]" "s0 = snd (claim_at n s)" "i = 0 \<or> i = 1"
      by (auto simp: I_def less_Suc_eq)
    then show "I m (ps[i := p]) s1"
      using \<open>acc (ps ! i) s0 = (p, s1)\<close> claim_at_Suc [OF assms(1), of n]
      by (auto simp: I_def split_beta intro: exI [of _ n] exI [of _ "Suc n"])
  qed (simp add: I_def)
  then obtain m where "CRun [] = fst (claim_at m s)" "s' = snd (claim_at m s)"
    using assms(2) by (auto simp: I_def)
  then show ?thesis
    using filled_beyond [of "m - 1" s] by (auto simp: claim_at_def split: if_splits)
qed

text \<open>Once the reaper has found the old stamp, the slot ends released.\<close>

lemma reaped:
  assumes "run_schedule acc xs ([CRun fs, RRun rs], s) = ([CRun [], RRun []], s')" "set fs \<subseteq> set fills"
    and "reaping rs"
  shows "\<not> active s'"
proof -
  obtain r where r: "r < length rs" "\<And>s. \<not> active ((rs ! r) s)"
    using assms(3) by (auto simp: reaping_def)
  define I where "I = (\<lambda>(m :: nat) ps s1. \<exists>gs i. ps = [CRun gs, RRun (drop i rs)] \<and>
      set gs \<subseteq> set fills \<and> (r < i \<longrightarrow> \<not> active s1))"
  have "case_prod (I 0) (run_schedule acc xs ([CRun fs, RRun rs], s))"
  proof (rule run_schedule_invariant [where I = I])
    show "I (length xs) [CRun fs, RRun rs] s"
      using assms(2) by (auto simp: I_def intro!: exI [of _ 0])
  next
    fix m i p s1 ps s0
    assume "I (Suc m) ps s0" "i < length ps" and st: "acc (ps ! i) s0 = (p, s1)"
    then obtain gs j where j: "ps = [CRun gs, RRun (drop j rs)]" "set gs \<subseteq> set fills"
      "r < j \<longrightarrow> \<not> active s0" "i = 0 \<or> i = 1"
      by (auto simp: I_def less_Suc_eq)
    show "I m (ps[i := p]) s1"
    proof (cases "i = 0")
      case True
      then show ?thesis
        using j st fill_active by (cases gs) (auto simp: I_def)
    next
      case False
      show ?thesis
      proof (cases "j < length rs")
        case True
        then have "drop j rs = rs ! j # drop (Suc j) rs"
          by (simp add: Cons_nth_drop_Suc)
        then have "ps[i := p] = [CRun gs, RRun (drop (Suc j) rs)]" "s1 = (rs ! j) s0"
          using j(1,4) False st by auto
        moreover have "r < Suc j \<longrightarrow> \<not> active ((rs ! j) s0)"
          using j(3) assms(3) r(2) True by (auto simp: less_Suc_eq reaping_def)
        ultimately show ?thesis using j(2) unfolding I_def by blast
      next
        case stop: False
        then have "ps[i := p] = ps \<and> s1 = s0" using j(1,4) False st by auto
        then show ?thesis using j(1-3) unfolding I_def by blast
      qed
    qed
  qed (simp add: I_def)
  then show ?thesis using assms(1) r(1) by (auto simp: I_def)
qed

lemma outcome:
  assumes "set xs \<subseteq> {0, 1}" "\<not> active s" "reaping (decide (stamp s))" "decide t = []"
    and run: "run_schedule acc xs ([CTry, RActive], s) = ([CRun [], RRun []], s')"
  shows "(active s' \<longleftrightarrow> \<not> exposed k xs) \<and> (\<not> exposed k xs \<longrightarrow> s' = fold (\<lambda>f. f) fills (claim s))"
proof -
  have start: "([CTry, RActive], s) = ([fst (claim_at 0 s), RActive], snd (claim_at 0 s))"
    by (simp add: claim_at_def)
  note runs = claim_runs [OF assms(2)]
  have fin: "s' = fold (\<lambda>f. f) fills (claim s)" "active s'"
    if "run_schedule acc ys ([fst (claim_at n s), RRun []], snd (claim_at n s)) = ([CRun [], RRun []], s')" for n ys
    using undisturbed [OF assms(2) that] filled_active [of "length fills" s] by (simp_all add: filled_def)
  from assms(1) show ?thesis
  proof (cases rule: zero_prefix)
    case (all a)
    then show ?thesis using run runs [of a 0 RActive] by (simp add: start)
  next
    case (split a ys)
    show ?thesis
    proof (cases a)
      case 0
      then have "run_schedule acc ys ([fst (claim_at 0 s), RRun []], snd (claim_at 0 s)) = ([CRun [], RRun []], s')"
        using run split(1) assms(2) by (simp add: claim_at_def)
      then show ?thesis using fin [of ys 0] split(1) 0 exposed_split(2) [of k ys] by simp
    next
      case (Suc m)
      have st: "run_schedule acc ys ([fst (claim_at a s), RStamp], snd (claim_at a s)) = ([CRun [], RRun []], s')"
        using run runs [of a 0 RActive] filled_active [of m s] split(1) Suc
        by (simp add: start run_schedule_append del: replicate.simps) (simp add: claim_at_def)
      from split(2) show ?thesis
      proof (cases rule: zero_prefix)
        case (all b)
        then show ?thesis using st runs [of b a RStamp] by simp
      next
        case (split b zs)
        have e: "exposed k xs \<longleftrightarrow> a + b \<le> k + 1"
          unfolding \<open>xs = replicate a 0 @ 1 # ys\<close> split(1) exposed_split using Suc by simp
        have at: "claim_at (a + b) s = (CRun (drop (m + b) fills), filled (m + b) s)"
          using Suc by (simp add: claim_at_def)
        have zs: "run_schedule acc zs ([CRun (drop (m + b) fills), RRun (decide (stamp (filled (m + b) s)))],
            filled (m + b) s) = ([CRun [], RRun []], s')"
          using st runs [of b a RStamp] split(1) by (simp add: run_schedule_append at)
        show ?thesis
        proof (cases "a + b \<le> k + 1")
          case True
          then have "stamp (filled (m + b) s) = stamp s"
            using Suc by (simp add: stamp_of_filled)
          then show ?thesis
            using reaped [of zs] zs e True assms(3) set_drop_subset [of "m + b" fills] by simp
        next
          case False
          then have "decide (stamp (filled (m + b) s)) = []"
            using Suc by (simp add: stamp_of_filled assms(4))
          then show ?thesis using fin [of zs "a + b"] zs e False by (simp add: at)
        qed
      qed
    qed
  qed
qed

text \<open>When the reaper finds nothing to release in the old stamp, no schedule endangers the claim.\<close>

definition spared :: "u64 \<Rightarrow> 's slot_pc list \<Rightarrow> 's \<Rightarrow> bool" where
  "spared old ps s \<longleftrightarrow>
     (\<exists>p q. ps = [p, q] \<and>
        (p = CTry \<and> \<not> active s \<and> (q = RRun [] \<or> q = RActive \<and> stamp s = old) \<or>
         (\<exists>fs. p = CRun fs \<and> set fs \<subseteq> set fills \<and> active s \<and>
           (q \<in> {RActive, RStamp} \<and> stamp s \<in> {old, t} \<or> (\<exists>rs. q = RRun rs \<and> sparing rs)))))"

lemma fill_stamp_cases: "f \<in> set fills \<Longrightarrow> stamp (f s) \<in> {stamp s, t}"
  using fill_stamp by (auto simp: in_set_conv_nth)

lemma spared_access:
  assumes "sparing (decide old)" "sparing (decide t)" "spared old ps s" "i < length ps" "acc (ps ! i) s = (p', s')"
  shows "spared old (ps[i := p']) s'"
proof -
  obtain p q where ps: "ps = [p, q]" using assms(3) by (auto simp: spared_def)
  consider "i = 0" | "i = 1" using assms(4) ps by fastforce
  then show ?thesis
  proof cases
    case 1
    show ?thesis
    proof (cases p)
      case CTry
      then show ?thesis
        using assms 1 ps claimed [of s] by (auto simp: spared_def sparing_def)
    next
      case (CRun fs)
      then show ?thesis
        using assms 1 ps fill_active [of "List.hd fs" s] fill_stamp_cases [of "List.hd fs" s]
        by (cases fs) (auto simp: spared_def)
    qed (use assms(3) ps in \<open>auto simp: spared_def\<close>)
  next
    case 2
    show ?thesis
    proof (cases q)
      case (RRun rs)
      then show ?thesis using assms 2 ps by (cases rs) (auto simp: spared_def sparing_def)
    qed (use assms 2 ps in \<open>auto simp: spared_def sparing_def\<close>)
  qed
qed

lemma spared_outcome:
  assumes "\<not> active s" "sparing (decide (stamp s))" "sparing (decide t)"
    and "run_schedule acc xs ([CTry, RActive], s) = ([CRun [], RRun []], s')"
  shows "active s'"
proof -
  have "case_prod (spared (stamp s)) (run_schedule acc xs ([CTry, RActive], s))"
  proof (rule run_schedule_invariant [where I = "\<lambda>_. spared (stamp s)"])
    show "spared (stamp s) [CTry, RActive] s" using assms(1) by (simp add: spared_def)
  qed (auto intro: spared_access [OF assms(2,3)])
  then show ?thesis using assms(4) by (auto simp: spared_def)
qed

end

end
