(* ===== verification/MonitorRace.thy ===== *)
theory MonitorRace
  imports ClaimRace DeadSub RateLimiter
begin

text \<open>
  Slots that one call claims while a scan runs, access by access, as instances of \<open>claim_race\<close>:
  \<open>Register\<close> beside \<open>ScanAndEvict\<close> on one entry of \<open>src/DeadSubscriberMonitor.cpp\<close>, and
  \<open>FindOrAllocate\<close> beside \<open>EvictIdle\<close> on one bucket of \<open>src/RateLimiter.cpp\<close>. In both the slot is active
  before it is filled, with the time stamp of its last use.
\<close>

section \<open>The liveness table\<close>

text \<open>One entry, with the locals of the scan, the callbacks made and the eviction counter.\<close>

record 'c monitor_slot =
  mo_entry :: "'c LivenessEntry"
  mo_cb :: "'c option"
  mo_sid :: u16
  mo_eid :: u16
  mo_calls :: "('c \<times> u16 \<times> u16) list"
  mo_evicted :: u32

definition on_entry :: "('c LivenessEntry \<Rightarrow> 'c LivenessEntry) \<Rightarrow> 'c monitor_slot \<Rightarrow> 'c monitor_slot" where
  "on_entry f s = s\<lparr>mo_entry := f (mo_entry s)\<rparr>"

definition mo_active :: "'c monitor_slot \<Rightarrow> bool" where
  "mo_active s = le_active (mo_entry s)"

definition mo_stamp :: "'c monitor_slot \<Rightarrow> u64" where
  "mo_stamp s = le_lastBeatMs (mo_entry s)"

definition cas_entry :: "'c monitor_slot \<Rightarrow> 'c monitor_slot" where
  "cas_entry = on_entry (\<lambda>e. e\<lparr>le_active := True\<rparr>)"

definition register_stores :: "u16 \<Rightarrow> u16 \<Rightarrow> 'c option \<Rightarrow> u64 \<Rightarrow> ('c monitor_slot \<Rightarrow> 'c monitor_slot) list" where
  "register_stores serviceId eventId onDead nowMs =
     [on_entry (\<lambda>e. e\<lparr>le_serviceId := serviceId\<rparr>), on_entry (\<lambda>e. e\<lparr>le_eventId := eventId\<rparr>),
      on_entry (\<lambda>e. e\<lparr>le_onDead := onDead\<rparr>), on_entry (\<lambda>e. e\<lparr>le_lastBeatMs := nowMs\<rparr>),
      on_entry (\<lambda>e. e\<lparr>le_health := kAlive\<rparr>)]"

definition evict_accesses :: "('c monitor_slot \<Rightarrow> 'c monitor_slot) list" where
  "evict_accesses =
     [on_entry (\<lambda>e. e\<lparr>le_health := kDead\<rparr>),
      (\<lambda>s. s\<lparr>mo_cb := le_onDead (mo_entry s)\<rparr>), (\<lambda>s. s\<lparr>mo_sid := le_serviceId (mo_entry s)\<rparr>),
      (\<lambda>s. s\<lparr>mo_eid := le_eventId (mo_entry s)\<rparr>),
      on_entry (\<lambda>e. e\<lparr>le_serviceId := kInvalidServiceId\<rparr>), on_entry (\<lambda>e. e\<lparr>le_eventId := 0\<rparr>),
      on_entry (\<lambda>e. e\<lparr>le_onDead := None\<rparr>), on_entry (\<lambda>e. e\<lparr>le_active := False\<rparr>),
      (\<lambda>s. s\<lparr>mo_calls := mo_calls s @
         (case mo_cb s of None \<Rightarrow> [] | Some cb \<Rightarrow> [(cb, mo_sid s, mo_eid s)])\<rparr>),
      (\<lambda>s. s\<lparr>mo_evicted := mo_evicted s + 1\<rparr>)]"

definition scan_accesses :: "u64 \<Rightarrow> u64 \<Rightarrow> ('c monitor_slot \<Rightarrow> 'c monitor_slot) list" where
  "scan_accesses nowMs lastBeat =
     (if nowMs < lastBeat then []
      else
        let ageMs = nowMs - lastBeat
        in if ageMs > ucast kDeadTimeoutMs then evict_accesses
           else if ageMs > ucast kHeartbeatIntervalMs then [on_entry (\<lambda>e. e\<lparr>le_health := kWarning\<rparr>)]
           else [])"

definition monitor_access :: "u16 \<Rightarrow> u16 \<Rightarrow> 'c option \<Rightarrow> u64 \<Rightarrow> u64 \<Rightarrow>
    'c monitor_slot slot_pc \<Rightarrow> 'c monitor_slot \<Rightarrow> 'c monitor_slot slot_pc \<times> 'c monitor_slot" where
  "monitor_access sid eid cb t now =
     slot_access mo_active mo_stamp cas_entry (register_stores sid eid cb t) (scan_accesses now)"

lemmas monitor_stores = on_entry_def mo_active_def mo_stamp_def cas_entry_def register_stores_def

interpretation entry_race: claim_race mo_active mo_stamp cas_entry "register_stores sid eid cb t" 3 t
    "scan_accesses now"
  for sid eid cb t now
  by unfold_locales (auto simp: monitor_stores less_Suc_eq numeral_eq_Suc)

lemma evict_reaps: "entry_race.reaping (evict_accesses :: ('c monitor_slot \<Rightarrow> 'c monitor_slot) list)"
proof -
  have "\<not> mo_active ((evict_accesses ! 7) s)" for s :: "'c monitor_slot"
    by (simp add: evict_accesses_def on_entry_def mo_active_def)
  moreover have "7 < length (evict_accesses :: ('c monitor_slot \<Rightarrow> 'c monitor_slot) list)"
    by (simp add: evict_accesses_def)
  moreover have "\<forall>f \<in> set evict_accesses. \<forall>s :: 'c monitor_slot. mo_active (f s) \<longrightarrow> mo_active s"
    by (simp add: evict_accesses_def on_entry_def mo_active_def)
  ultimately show ?thesis unfolding entry_race.reaping_def by blast
qed

lemma age_cases:
  fixes now u :: u64
  shows "unat now \<le> unat u + 500 \<Longrightarrow> scan_accesses now u = []"
    and "unat now \<le> unat u + 2000 \<Longrightarrow> entry_race.sparing (scan_accesses now u)"
    and "unat u + 2000 < unat now \<Longrightarrow> scan_accesses now u = evict_accesses"
  by (auto simp: scan_accesses_def Let_def word_less_nat_alt unat_sub word_le_nat_alt
      entry_race.sparing_def on_entry_def mo_active_def)

section \<open>Without interference\<close>

text \<open>Each call alone has the effect of the operation modelled as one step.\<close>

lemma register_alone:
  assumes "\<not> le_active (mo_entry s)"
  shows "run_schedule (monitor_access sid eid cb t now) (replicate 6 0) ([CTry, q], s) =
    ([CRun [], q], s\<lparr>mo_entry := (mo_entry s)\<lparr>le_active := True, le_serviceId := sid, le_eventId := eid,
       le_onDead := cb, le_lastBeatMs := t, le_health := kAlive\<rparr>\<rparr>)"
  using assms by (simp add: monitor_access_def monitor_stores numeral_eq_Suc)

text \<open>What an exposed registration leaves, and what the scan leaves alone.\<close>

definition logged :: "'c \<Rightarrow> u16 \<Rightarrow> u16 \<Rightarrow> ('c \<times> u16 \<times> u16) list \<Rightarrow> ('c \<times> u16 \<times> u16) list" where
  "logged cb sid eid calls = calls @ [(cb, sid, eid)]"

lemma slot_scan_alone:
  "run_schedule (monitor_access sid eid cb t now) (replicate 12 1) ([q, RActive], s) =
    ([q, RRun []], let e = mo_entry s; dead = expired now e
       in s\<lparr>mo_entry := scanned_entry now e,
            mo_cb := (if dead then le_onDead e else mo_cb s),
            mo_sid := (if dead then le_serviceId e else mo_sid s),
            mo_eid := (if dead then le_eventId e else mo_eid s),
            mo_calls := (if dead then notify_dead logged e (mo_calls s) else mo_calls s),
            mo_evicted := (if dead then mo_evicted s + 1 else mo_evicted s)\<rparr>)"
proof (cases "le_active (mo_entry s) \<and> \<not> now < le_lastBeatMs (mo_entry s)")
  case False
  then show ?thesis
    by (cases "le_active (mo_entry s)")
      (auto simp: monitor_access_def mo_active_def mo_stamp_def scan_accesses_def replicate_numeral
        expired_def late_def scanned_entry_def word_less_nat_alt Let_def)
next
  case True
  let ?e = "mo_entry s"
  have dead: "now - le_lastBeatMs ?e > ucast kDeadTimeoutMs \<longleftrightarrow> expired now ?e"
    using age_gt [of now "le_lastBeatMs ?e" 2000 "ucast kDeadTimeoutMs"] True by (simp add: expired_def)
  have late: "now - le_lastBeatMs ?e > ucast kHeartbeatIntervalMs \<longleftrightarrow> late now ?e"
    using age_gt [of now "le_lastBeatMs ?e" 500 "ucast kHeartbeatIntervalMs"] True by (simp add: late_def)
  have acts: "scan_accesses now (mo_stamp s) = (if expired now ?e then evict_accesses
      else if late now ?e then [on_entry (\<lambda>e. e\<lparr>le_health := kWarning\<rparr>)] else [])"
    unfolding scan_accesses_def mo_stamp_def Let_def dead late using True by simp
  have "run_schedule (monitor_access sid eid cb t now) (replicate 12 1) ([q, RActive], s) =
    run_schedule (monitor_access sid eid cb t now) (replicate 10 1) ([q, RRun (scan_accesses now (mo_stamp s))], s)"
    using True by (simp add: monitor_access_def mo_active_def replicate_numeral)
  then show ?thesis
    unfolding acts
    by (auto simp: monitor_access_def evict_accesses_def on_entry_def replicate_numeral Let_def
        scanned_entry_def release_entry_def notify_dead_def logged_def split: option.split)
qed

text \<open>The callback of a subscriber that has just registered can be called at once.\<close>

definition stale_slot :: "nat monitor_slot" where
  "stale_slot = \<lparr>mo_entry = LivenessEntry_default\<lparr>le_lastBeatMs := 100\<rparr>, mo_cb = None, mo_sid = 0,
     mo_eid = 0, mo_calls = [], mo_evicted = 0\<rparr>"

lemma dead_at_birth:
  "run_schedule (monitor_access 5 6 (Some 7) 9000 9000) (replicate 4 0 @ replicate 12 1 @ [0, 0]) ([CTry, RActive], stale_slot)
   = ([CRun [], RRun []], stale_slot\<lparr>mo_entry := LivenessEntry_default\<lparr>le_lastBeatMs := 9000\<rparr>,
        mo_cb := Some 7, mo_sid := 5, mo_eid := 6, mo_calls := [(7, 5, 6)], mo_evicted := 1\<rparr>)"
  by (simp add: stale_slot_def monitor_access_def monitor_stores scan_accesses_def evict_accesses_def
      replicate_numeral LivenessEntry_default_def)

section \<open>The token buckets\<close>

definition cas_bucket :: "TokenBucket \<Rightarrow> TokenBucket" where
  "cas_bucket b = b\<lparr>tb_active := True\<rparr>"

definition allocate_stores :: "u32 \<Rightarrow> u64 \<Rightarrow> (TokenBucket \<Rightarrow> TokenBucket) list" where
  "allocate_stores sourceId nowMs =
     [(\<lambda>b. b\<lparr>tb_sourceId := sourceId\<rparr>), (\<lambda>b. b\<lparr>tb_tokens := kBurstCapacity\<rparr>),
      (\<lambda>b. b\<lparr>tb_lastRefillMs := nowMs\<rparr>), (\<lambda>b. b\<lparr>tb_lastSeenMs := nowMs\<rparr>),
      (\<lambda>b. b\<lparr>tb_dropCount := 0\<rparr>), (\<lambda>b. b\<lparr>tb_passCount := 0\<rparr>)]"

definition evict_stores :: "u64 \<Rightarrow> u64 \<Rightarrow> (TokenBucket \<Rightarrow> TokenBucket) list" where
  "evict_stores nowMs lastSeen =
     (if nowMs \<ge> lastSeen \<and> nowMs - lastSeen > kSourceEvictAfterMs
      then [(\<lambda>b. b\<lparr>tb_sourceId := kInvalidSourceId\<rparr>), (\<lambda>b. b\<lparr>tb_tokens := kBurstCapacity\<rparr>),
            (\<lambda>b. b\<lparr>tb_dropCount := 0\<rparr>), (\<lambda>b. b\<lparr>tb_passCount := 0\<rparr>), (\<lambda>b. b\<lparr>tb_active := False\<rparr>)]
      else [])"

definition bucket_access :: "u32 \<Rightarrow> u64 \<Rightarrow> u64 \<Rightarrow> TokenBucket slot_pc \<Rightarrow> TokenBucket \<Rightarrow>
    TokenBucket slot_pc \<times> TokenBucket" where
  "bucket_access src t now =
     slot_access tb_active tb_lastSeenMs cas_bucket (allocate_stores src t) (evict_stores now)"

interpretation bucket_race: claim_race tb_active tb_lastSeenMs cas_bucket "allocate_stores src t" 3 t
    "evict_stores now"
  for src t now
  by unfold_locales (auto simp: cas_bucket_def allocate_stores_def less_Suc_eq numeral_eq_Suc)

lemma idle_cases:
  fixes now u :: u64
  shows "unat now \<le> unat u + 5000 \<Longrightarrow> evict_stores now u = []"
    and "unat u + 5000 < unat now \<Longrightarrow> bucket_race.reaping (evict_stores now u)"
proof -
  show "unat now \<le> unat u + 5000 \<Longrightarrow> evict_stores now u = []"
    by (auto simp: evict_stores_def word_less_nat_alt unat_sub word_le_nat_alt)
  assume "unat u + 5000 < unat now"
  then have "evict_stores now u =
     [(\<lambda>b. b\<lparr>tb_sourceId := kInvalidSourceId\<rparr>), (\<lambda>b. b\<lparr>tb_tokens := kBurstCapacity\<rparr>),
      (\<lambda>b. b\<lparr>tb_dropCount := 0\<rparr>), (\<lambda>b. b\<lparr>tb_passCount := 0\<rparr>), (\<lambda>b. b\<lparr>tb_active := False\<rparr>)]"
    by (simp add: evict_stores_def word_less_nat_alt unat_sub word_le_nat_alt)
  then show "bucket_race.reaping (evict_stores now u)"
    unfolding bucket_race.reaping_def by (auto simp: numeral_eq_Suc intro!: exI [of _ "Suc (Suc (Suc (Suc 0)))"])
qed

lemma allocate_alone:
  assumes "\<not> tb_active b"
  shows "run_schedule (bucket_access src t now) (replicate 7 0) ([CTry, q], b) =
    ([CRun [], q], b\<lparr>tb_active := True, tb_sourceId := src, tb_tokens := kBurstCapacity, tb_lastRefillMs := t,
       tb_lastSeenMs := t, tb_dropCount := 0, tb_passCount := 0\<rparr>)"
  using assms by (simp add: bucket_access_def cas_bucket_def allocate_stores_def numeral_eq_Suc)

lemma evict_alone:
  "run_schedule (bucket_access src t now) (replicate 7 1) ([q, RActive], b) = ([q, RRun []], evict_bucket now b)"
  by (simp add: bucket_access_def evict_stores_def evict_bucket_def numeral_eq_Suc Let_def)

text \<open>An allocation beside the eviction task: the bucket of a new source survives unless exposed.\<close>

lemma allocation_race:
  assumes "set xs \<subseteq> {0, 1}" "\<not> tb_active b" "unat (tb_lastSeenMs b) + 5000 < unat now"
    and "unat now \<le> unat t + 5000"
    and "run_schedule (bucket_access src t now) xs ([CTry, RActive], b) = ([CRun [], RRun []], b')"
  shows "tb_active b' \<longleftrightarrow> \<not> exposed 3 xs"
  using bucket_race.outcome [OF assms(1,2) idle_cases(2) [OF assms(3)] idle_cases(1) [OF assms(4)]]
    assms(5) by (simp add: bucket_access_def)

end
