(* ===== verification/BeatRace.thy ===== *)
theory BeatRace
  imports MonitorRace
begin

text \<open>
  \<open>RecordHeartbeat\<close> and \<open>Deregister\<close> of \<open>src/DeadSubscriberMonitor.cpp\<close> beside \<open>ScanAndEvict\<close>, on one
  entry, access by access. Both find the entry and then store to it; the scan loads the heartbeat,
  and what it then does rests on that value alone.
\<close>

section \<open>Accesses\<close>

text \<open>
  The comparisons of \<open>FindIndex\<close> on this entry, then the stores that are left; \<open>BtDone\<close> tells whether
  the entry was found. \<open>BtScan\<close> is the scan, as in MonitorRace.
\<close>

datatype 'c beat_pc =
    BtActive "('c monitor_slot \<Rightarrow> 'c monitor_slot) list" | BtSid "('c monitor_slot \<Rightarrow> 'c monitor_slot) list"
  | BtEid "('c monitor_slot \<Rightarrow> 'c monitor_slot) list" | BtRun "('c monitor_slot \<Rightarrow> 'c monitor_slot) list"
  | BtDone bool | BtScan "'c monitor_slot slot_pc"

definition heartbeat_stores :: "u64 \<Rightarrow> ('c monitor_slot \<Rightarrow> 'c monitor_slot) list" where
  "heartbeat_stores t = [on_entry (\<lambda>e. e\<lparr>le_lastBeatMs := t\<rparr>), on_entry (\<lambda>e. e\<lparr>le_health := kAlive\<rparr>)]"

definition deregister_stores :: "('c monitor_slot \<Rightarrow> 'c monitor_slot) list" where
  "deregister_stores =
     [on_entry (\<lambda>e. e\<lparr>le_serviceId := kInvalidServiceId\<rparr>), on_entry (\<lambda>e. e\<lparr>le_eventId := 0\<rparr>),
      on_entry (\<lambda>e. e\<lparr>le_onDead := None\<rparr>), on_entry (\<lambda>e. e\<lparr>le_active := False\<rparr>)]"

fun beat_access :: "u16 \<Rightarrow> u16 \<Rightarrow> u64 \<Rightarrow> 'c beat_pc \<Rightarrow> 'c monitor_slot \<Rightarrow> 'c beat_pc \<times> 'c monitor_slot" where
  "beat_access sid eid now (BtActive fs) s = ((if mo_active s then BtSid fs else BtDone False), s)"
| "beat_access sid eid now (BtSid fs) s =
     ((if le_serviceId (mo_entry s) = sid then BtEid fs else BtDone False), s)"
| "beat_access sid eid now (BtEid fs) s =
     ((if le_eventId (mo_entry s) = eid then BtRun fs else BtDone False), s)"
| "beat_access sid eid now (BtRun []) s = (BtDone True, s)"
| "beat_access sid eid now (BtRun (f # fs)) s = ((if fs = [] then BtDone True else BtRun fs), f s)"
| "beat_access sid eid now (BtDone b) s = (BtDone b, s)"
| "beat_access sid eid now (BtScan q) s =
     (case slot_access mo_active mo_stamp cas_entry [] (scan_accesses now) q s of (q', s') \<Rightarrow> (BtScan q', s'))"

abbreviation beat_run :: "u16 \<Rightarrow> u16 \<Rightarrow> u64 \<Rightarrow> nat list \<Rightarrow> 'c beat_pc list \<times> 'c monitor_slot \<Rightarrow>
    'c beat_pc list \<times> 'c monitor_slot" where
  "beat_run sid eid now \<equiv> run_schedule (beat_access sid eid now)"

section \<open>Without interference\<close>

lemma heartbeat_slot_alone:
  assumes "le_active (mo_entry s)" "entry_key (mo_entry s) = (sid, eid)"
  shows "beat_run sid eid now (replicate 5 0) ([BtActive (heartbeat_stores t), q], s) =
    ([BtDone True, q], s\<lparr>mo_entry := (mo_entry s)\<lparr>le_lastBeatMs := t, le_health := kAlive\<rparr>\<rparr>)"
  using assms
  by (simp add: heartbeat_stores_def on_entry_def mo_active_def entry_key_def numeral_eq_Suc)

lemma deregister_slot_alone:
  assumes "le_active (mo_entry s)" "entry_key (mo_entry s) = (sid, eid)"
  shows "beat_run sid eid now (replicate 7 0) ([BtActive deregister_stores, q], s) =
    ([BtDone True, q], s\<lparr>mo_entry := (mo_entry s)\<lparr>le_serviceId := kInvalidServiceId, le_eventId := 0,
       le_onDead := None, le_active := False\<rparr>\<rparr>)"
  using assms
  by (simp add: deregister_stores_def on_entry_def mo_active_def entry_key_def numeral_eq_Suc)

section \<open>A heartbeat beside a scan\<close>

text \<open>The heartbeat call after \<open>n\<close> accesses that nothing disturbs, and its effect by then.\<close>

definition beat_at :: "u64 \<Rightarrow> nat \<Rightarrow> 'c beat_pc" where
  "beat_at t n =
     (if n = 0 then BtActive (heartbeat_stores t) else if n = 1 then BtSid (heartbeat_stores t)
      else if n = 2 then BtEid (heartbeat_stores t) else if n = 3 then BtRun (heartbeat_stores t)
      else if n = 4 then BtRun (tl (heartbeat_stores t)) else BtDone True)"

definition beaten :: "u64 \<Rightarrow> nat \<Rightarrow> 'c monitor_slot \<Rightarrow> 'c monitor_slot" where
  "beaten t n s =
     (if n < 4 then s else if n = 4 then on_entry (\<lambda>e. e\<lparr>le_lastBeatMs := t\<rparr>) s
      else on_entry (\<lambda>e. e\<lparr>le_lastBeatMs := t, le_health := kAlive\<rparr>) s)"

lemma beat_access_at:
  assumes "le_active (mo_entry s)" "entry_key (mo_entry s) = (sid, eid)"
  shows "beat_access sid eid now (beat_at t n) (beaten t n s) = (beat_at t (Suc n), beaten t (Suc n) s)"
proof -
  consider "n = 0" | "n = 1" | "n = 2" | "n = 3" | "n = 4" | "5 \<le> n" by linarith
  then show ?thesis
    by cases (use assms in \<open>simp_all add: beat_at_def beaten_def heartbeat_stores_def on_entry_def mo_active_def entry_key_def\<close>)
qed

lemma beaten_keeps [simp]:
  "le_active (mo_entry (beaten t n s)) = le_active (mo_entry s)" "mo_calls (beaten t n s) = mo_calls s"
  "le_onDead (mo_entry (beaten t n s)) = le_onDead (mo_entry s)" "mo_evicted (beaten t n s) = mo_evicted s"
  "le_serviceId (mo_entry (beaten t n s)) = le_serviceId (mo_entry s)"
  "le_eventId (mo_entry (beaten t n s)) = le_eventId (mo_entry s)"
  "le_lastBeatMs (mo_entry (beaten t n s)) = (if n < 4 then le_lastBeatMs (mo_entry s) else t)"
  by (simp_all add: beaten_def on_entry_def)

text \<open>As long as the scan makes no store, the heartbeat goes on undisturbed.\<close>

lemma beat_before_scan:
  assumes "le_active (mo_entry s)" "entry_key (mo_entry s) = (sid, eid)" "set ys \<subseteq> {0, 1}" "count_list ys 1 = Suc 0"
  shows "beat_run sid eid now ys ([beat_at t n, BtScan RActive], beaten t n s) =
    ([beat_at t (n + count_list ys 0), BtScan RStamp], beaten t (n + count_list ys 0) s)"
proof -
  have stamp: "beat_run sid eid now zs ([beat_at t m, BtScan RStamp], beaten t m s) =
      ([beat_at t (m + count_list zs 0), BtScan RStamp], beaten t (m + count_list zs 0) s)"
    if "set zs \<subseteq> {0, 1}" "count_list zs 1 = 0" for zs m
    using that
  proof (induction zs arbitrary: m)
    case (Cons z zs)
    then show ?case
      using beat_access_at [OF assms(1,2), of now t m] Cons.IH [of "Suc m"] by (auto split: if_splits)
  qed simp
  show ?thesis
    using assms(3,4)
  proof (induction ys arbitrary: n)
    case (Cons y ys)
    then show ?case
      using beat_access_at [OF assms(1,2), of now t n] Cons.IH [of "Suc n"] stamp [of ys n] assms(1)
      by (auto simp: mo_active_def split: if_splits)
  qed simp
qed

text \<open>A scan that has loaded a fresh heartbeat makes no access; the heartbeat call ends.\<close>

lemma beat_after_spared:
  assumes "le_active (mo_entry s)" "entry_key (mo_entry s) = (sid, eid)" "set zs \<subseteq> {0, 1}"
  shows "beat_run sid eid now zs ([beat_at t n, BtScan (RRun [])], beaten t n s) =
    ([beat_at t (n + count_list zs 0), BtScan (RRun [])], beaten t (n + count_list zs 0) s)"
  using assms(3)
proof (induction zs arbitrary: n)
  case (Cons z zs)
  then show ?case
    using beat_access_at [OF assms(1,2), of now t n] Cons.IH [of "Suc n"] by (auto split: if_splits)
qed simp

text \<open>
  The eviction after \<open>j\<close> of its accesses. The heartbeat call stores at most to the heartbeat and the
  health, which the eviction does not read.
\<close>

definition evicting :: "'c monitor_slot \<Rightarrow> nat \<Rightarrow> 'c monitor_slot \<Rightarrow> bool" where
  "evicting s0 j s \<longleftrightarrow>
     (let e0 = mo_entry s0; e = mo_entry s in
      (2 \<le> j \<longrightarrow> mo_cb s = le_onDead e0) \<and> (3 \<le> j \<longrightarrow> mo_sid s = le_serviceId e0) \<and>
      (4 \<le> j \<longrightarrow> mo_eid s = le_eventId e0) \<and>
      (j < 5 \<longrightarrow> le_serviceId e = le_serviceId e0) \<and> (j < 6 \<longrightarrow> le_eventId e = le_eventId e0) \<and>
      (j < 7 \<longrightarrow> le_onDead e = le_onDead e0) \<and> (8 \<le> j \<longrightarrow> \<not> le_active e) \<and>
      mo_calls s = mo_calls s0 @ (if j < 9 then [] else case le_onDead e0 of None \<Rightarrow> [] | Some c \<Rightarrow>
        [(c, le_serviceId e0, le_eventId e0)]) \<and>
      mo_evicted s = mo_evicted s0 + (if j < 10 then 0 else 1))"

lemma evicting_step:
  assumes "evicting s0 j s" "j < 10"
  shows "evicting s0 (Suc j) ((evict_accesses ! j) s)"
proof -
  consider "j = 0" | "j = 1" | "j = 2" | "j = 3" | "j = 4" | "j = 5" | "j = 6" | "j = 7" | "j = 8" | "j = 9"
    using assms(2) by (auto simp: eval_nat_numeral less_Suc_eq)
  then show ?thesis
    by cases (use assms(1) in \<open>simp_all add: evicting_def evict_accesses_def on_entry_def Let_def split: option.splits\<close>)
qed

fun beating :: "u64 \<Rightarrow> 'c beat_pc \<Rightarrow> bool" where
  "beating t (BtActive fs) \<longleftrightarrow> fs = heartbeat_stores t"
| "beating t (BtSid fs) \<longleftrightarrow> fs = heartbeat_stores t"
| "beating t (BtEid fs) \<longleftrightarrow> fs = heartbeat_stores t"
| "beating t (BtRun fs) \<longleftrightarrow> set fs \<subseteq> set (heartbeat_stores t)"
| "beating t (BtDone b) \<longleftrightarrow> True"
| "beating t (BtScan q) \<longleftrightarrow> False"

lemma beating_step:
  assumes "beating t p" "beat_access sid eid now p s = (p', s')" "evicting s0 j s"
  shows "beating t p' \<and> evicting s0 j s'"
proof -
  have store: "evicting s0 j (f s)" if "f \<in> set (heartbeat_stores t)" for f
  proof -
    have "evicting s0 j (on_entry (\<lambda>e. e\<lparr>le_lastBeatMs := t\<rparr>) s)"
      "evicting s0 j (on_entry (\<lambda>e. e\<lparr>le_health := kAlive\<rparr>) s)"
      using assms(3) by (simp_all add: evicting_def on_entry_def Let_def)
    then show ?thesis using that by (auto simp: heartbeat_stores_def)
  qed
  show ?thesis
  proof (cases p)
    case (BtRun fs)
    then show ?thesis using assms store by (cases fs) (auto split: if_splits)
  qed (use assms in \<open>auto split: if_splits\<close>)
qed

definition evict_run :: "u64 \<Rightarrow> 'c monitor_slot \<Rightarrow> nat \<Rightarrow> 'c beat_pc list \<Rightarrow> 'c monitor_slot \<Rightarrow> bool" where
  "evict_run t s0 n ps s \<longleftrightarrow> (\<exists>p j. ps = [p, BtScan (RRun (drop j evict_accesses))] \<and> j \<le> 10 \<and>
     beating t p \<and> evicting s0 j s)"

lemma length_evict_accesses: "length evict_accesses = 10"
  by (simp add: evict_accesses_def)

lemma drop_evict_accesses:
  "j < 10 \<Longrightarrow> drop j evict_accesses = (evict_accesses ! j) # drop (Suc j) evict_accesses"
  by (simp add: Cons_nth_drop_Suc length_evict_accesses)

lemma evict_run_step:
  assumes "evict_run t s0 (Suc n) ps s" "i < length ps" "beat_access sid eid now (ps ! i) s = (p', s')"
  shows "evict_run t s0 n (ps[i := p']) s'"
proof -
  obtain p j where ps: "ps = [p, BtScan (RRun (drop j evict_accesses))]" "j \<le> 10" "beating t p" "evicting s0 j s"
    using assms(1) by (auto simp: evict_run_def)
  consider "i = 0" | "i = 1" using assms(2) ps(1) by (auto simp: less_Suc_eq)
  then show ?thesis
  proof cases
    case 1
    then have "beat_access sid eid now p s = (p', s')" using assms(3) ps(1) by simp
    from beating_step [OF ps(3) this ps(4)] show ?thesis using ps 1 by (auto simp: evict_run_def)
  next
    case 2
    show ?thesis
    proof (cases "j < 10")
      case True
      have p': "p' = BtScan (RRun (drop (Suc j) evict_accesses))" "s' = (evict_accesses ! j) s"
        using assms(3) ps(1) 2 unfolding drop_evict_accesses [OF True] by auto
      have "Suc j \<le> 10" using True by simp
      then show ?thesis
        unfolding evict_run_def p'
        using ps 2 evicting_step [OF ps(4) True] by (intro exI [of _ p] exI [of _ "Suc j"]) simp
    next
      case False
      then have "p' = BtScan (RRun (drop j evict_accesses))" "s' = s"
        using assms(3) ps(1) 2 by (simp_all add: length_evict_accesses)
      then show ?thesis using ps 2 unfolding evict_run_def by (intro exI [of _ p] exI [of _ j]) simp
    qed
  qed
qed

lemma evict_run_ends:
  fixes s :: "'a monitor_slot"
  assumes "beating t p" "evicting s0 0 s" "beat_run sid eid now zs ([p, BtScan (RRun evict_accesses)], s) = ([p', BtScan (RRun [])], s')"
  shows "evicting s0 10 s'"
proof -
  have "case_prod (evict_run t s0 0) (beat_run sid eid now zs ([p, BtScan (RRun evict_accesses)], s))"
  proof (rule run_schedule_invariant [where I = "evict_run t s0"])
    show "evict_run t s0 (length zs) [p, BtScan (RRun evict_accesses)] s"
      unfolding evict_run_def using assms(1,2) by (intro exI [of _ p] exI [of _ 0]) simp
  qed (erule (2) evict_run_step | simp add: evict_run_def)+
  then obtain j where j: "drop j evict_accesses = ([] :: ('a monitor_slot \<Rightarrow> 'a monitor_slot) list)"
      "j \<le> 10" "evicting s0 j s'"
    using assms(3) by (auto simp: evict_run_def)
  then have "j = 10" by (simp add: length_evict_accesses)
  then show ?thesis using j(3) by simp
qed

section \<open>The outcome\<close>

lemma heartbeat_race:
  fixes s :: "'a monitor_slot"
  assumes "le_active (mo_entry s)" "entry_key (mo_entry s) = (sid, eid)"
    and "unat (le_lastBeatMs (mo_entry s)) + 2000 < unat now" "unat now \<le> unat t + 500"
    and "set (ys @ zs) \<subseteq> {0, 1}" "count_list ys 1 = Suc 0"
    and "beat_run sid eid now (ys @ 1 # zs) ([BtActive (heartbeat_stores t), BtScan RActive], s)
      = ([BtDone ok, BtScan (RRun [])], s')"
  shows "4 \<le> count_list ys 0 \<Longrightarrow> ok \<and>
      s' = s\<lparr>mo_entry := (mo_entry s)\<lparr>le_lastBeatMs := t, le_health := kAlive\<rparr>\<rparr>"
    "count_list ys 0 < 4 \<Longrightarrow> evicting s 10 s'"
proof -
  let ?n = "count_list ys 0"
  have start: "beat_at t 0 = BtActive (heartbeat_stores t)" "beaten t 0 s = s"
    by (simp_all add: beat_at_def beaten_def)
  have "beat_run sid eid now ys ([BtActive (heartbeat_stores t), BtScan RActive], s) =
      ([beat_at t ?n, BtScan RStamp], beaten t ?n s)"
    using beat_before_scan [OF assms(1,2), of ys now t 0, unfolded start] assms(5,6) by simp
  then have rest: "beat_run sid eid now zs
      ([beat_at t ?n, BtScan (RRun (scan_accesses now (mo_stamp (beaten t ?n s))))], beaten t ?n s)
      = ([BtDone ok, BtScan (RRun [])], s')"
    using assms(7) by (simp add: run_schedule_append)
  show "ok \<and> s' = s\<lparr>mo_entry := (mo_entry s)\<lparr>le_lastBeatMs := t, le_health := kAlive\<rparr>\<rparr>" if n: "4 \<le> ?n"
  proof -
    have "scan_accesses now (mo_stamp (beaten t ?n s)) = ([] :: ('a monitor_slot \<Rightarrow> 'a monitor_slot) list)"
      using n age_cases(1) [OF assms(4)] by (simp add: mo_stamp_def)
    then have "(BtDone ok :: 'a beat_pc) = beat_at t (?n + count_list zs 0)" "beaten t (?n + count_list zs 0) s = s'"
      using rest beat_after_spared [OF assms(1,2), of zs now t ?n] assms(5) by simp_all
    then show ?thesis
      by (auto simp: beat_at_def beaten_def on_entry_def heartbeat_stores_def split: if_splits)
  qed
  show "evicting s 10 s'" if n: "?n < 4"
  proof -
    have s: "beaten t ?n s = s" using n by (simp add: beaten_def)
    have "scan_accesses now (mo_stamp s) = (evict_accesses :: ('a monitor_slot \<Rightarrow> 'a monitor_slot) list)"
      using age_cases(3) [OF assms(3)] by (simp add: mo_stamp_def)
    then have run: "beat_run sid eid now zs ([beat_at t ?n, BtScan (RRun evict_accesses)], s)
        = ([BtDone ok, BtScan (RRun [])], s')"
      using rest by (simp add: s)
    have "evicting s 0 s" by (simp add: evicting_def)
    moreover have "beating t (beat_at t ?n)" using n by (simp add: beat_at_def)
    ultimately show ?thesis using evict_run_ends run by blast
  qed
qed

text \<open>A heartbeat that returns \<open>Ok\<close> for a subscriber that is then evicted all the same.\<close>

definition silent_slot :: "nat monitor_slot" where
  "silent_slot = \<lparr>mo_entry = \<lparr>le_serviceId = 5, le_eventId = 6, le_lastBeatMs = 100, le_health = kWarning,
     le_onDead = Some 7, le_active = True\<rparr>, mo_cb = None, mo_sid = 0, mo_eid = 0, mo_calls = [], mo_evicted = 0\<rparr>"

lemma heartbeat_too_late:
  "beat_run 5 6 9000 (replicate 3 0 @ [1] @ 1 # replicate 2 0 @ replicate 10 1)
     ([BtActive (heartbeat_stores 9000), BtScan RActive], silent_slot) =
   ([BtDone True, BtScan (RRun [])], silent_slot\<lparr>mo_entry := LivenessEntry_default\<lparr>le_lastBeatMs := 9000, le_health := kDead\<rparr>,
      mo_cb := Some 7, mo_sid := 5, mo_eid := 6, mo_calls := [(7, 5, 6)], mo_evicted := 1\<rparr>)"
  by (simp add: silent_slot_def heartbeat_stores_def on_entry_def mo_active_def mo_stamp_def scan_accesses_def
      evict_accesses_def replicate_numeral LivenessEntry_default_def)

section \<open>A deregistration beside a scan\<close>

text \<open>The callback is called after \<open>Deregister\<close> has returned, and can be given the ids of a free slot.\<close>

lemma callback_after_deregister:
  "beat_run 5 6 9000 (replicate 2 1 @ replicate 4 1 @ replicate 7 0 @ replicate 6 1)
     ([BtActive deregister_stores, BtScan RActive], silent_slot) =
   ([BtDone True, BtScan (RRun [])], silent_slot\<lparr>mo_entry := LivenessEntry_default\<lparr>le_lastBeatMs := 100, le_health := kDead\<rparr>,
      mo_cb := Some 7, mo_sid := 5, mo_eid := 6, mo_calls := [(7, 5, 6)], mo_evicted := 1\<rparr>)"
  "mo_calls (snd (beat_run 5 6 9000 (replicate 2 1 @ replicate 4 0 @ replicate 2 1 @ replicate 3 0 @ replicate 8 1)
     ([BtActive deregister_stores, BtScan RActive], silent_slot))) = [(7, kInvalidServiceId, 0)]"
  by (simp_all add: silent_slot_def deregister_stores_def on_entry_def mo_active_def mo_stamp_def scan_accesses_def
      evict_accesses_def replicate_numeral LivenessEntry_default_def)

end
