(* ===== verification/DdsQos.thy ===== *)
theory DdsQos
  imports Registry
begin

text \<open>
  \<open>include/DdsQosPolicy.hpp\<close> and \<open>src/DdsQosPolicy.cpp\<close>: the QoS profiles, the parallel table
  of deadline states, sample validation and the deadline check.
\<close>

section \<open>State\<close>

definition kMaxQosProfiles :: nat where [simp]: "kMaxQosProfiles = 16"
definition kInvalidTopicId :: u32 where [simp]: "kInvalidTopicId = 0xFFFFFFFF"
definition kDeadlineInfiniteMs :: u32 where [simp]: "kDeadlineInfiniteMs = 0xFFFFFFFF"

datatype ReliabilityKind = kBestEffort | kReliable
datatype DurabilityKind = kVolatile | kTransientLocal
datatype HistoryKind = kKeepLast | kKeepAll

record DdsQosProfile =
  qp_topicId :: u32
  qp_topicName :: "u8 list"
  qp_reliability :: ReliabilityKind
  qp_deadlineMs :: u32
  qp_latencyBudgetMs :: u32
  qp_durability :: DurabilityKind
  qp_history :: HistoryKind
  qp_historyDepth :: u8

definition DdsQosProfile_default :: DdsQosProfile where
  "DdsQosProfile_default =
     \<lparr>qp_topicId = kInvalidTopicId, qp_topicName = replicate 32 0, qp_reliability = kBestEffort,
      qp_deadlineMs = kDeadlineInfiniteMs, qp_latencyBudgetMs = 1, qp_durability = kVolatile,
      qp_history = kKeepLast, qp_historyDepth = 1\<rparr>"

record DeadlineState =
  dl_topicId :: u32
  dl_lastSampleMs :: u64
  dl_violationCount :: u32
  dl_active :: bool

definition DeadlineState_default :: DeadlineState where
  "DeadlineState_default =
     \<lparr>dl_topicId = kInvalidTopicId, dl_lastSampleMs = 0, dl_violationCount = 0, dl_active = False\<rparr>"

record DdsQosEnforcer =
  dq_profiles :: "DdsQosProfile list"
  dq_deadlines :: "DeadlineState list"
  dq_profileCount :: u8
  dq_initialised :: bool

definition DdsQosEnforcer_new :: DdsQosEnforcer where
  "DdsQosEnforcer_new =
     \<lparr>dq_profiles = replicate kMaxQosProfiles DdsQosProfile_default,
      dq_deadlines = replicate kMaxQosProfiles DeadlineState_default,
      dq_profileCount = 0, dq_initialised = False\<rparr>"

section \<open>Operations\<close>

text \<open>The component's copy of the clock reading.\<close>

definition Dds_GetMonotonicMs :: "timespec option \<Rightarrow> u64" where
  "Dds_GetMonotonicMs r =
     (case r of None \<Rightarrow> 0 | Some ts \<Rightarrow> tv_sec ts * 1000 + tv_nsec ts div 1000000)"

lemma Dds_clock: "Dds_GetMonotonicMs = GetMonotonicMs"
  by (rule ext) (simp add: Dds_GetMonotonicMs_def GetMonotonicMs_def)

definition Dds_Init :: "u64 \<Rightarrow> DdsQosEnforcer \<Rightarrow> VoidResult \<times> DdsQosEnforcer" where
  "Dds_Init nowMs q =
     (if dq_initialised q then (Err kAlreadyRegistered, q)
      else (Ok (), q\<lparr>dq_initialised := True, dq_profileCount := 0,
             dq_deadlines := map (\<lambda>d. d\<lparr>dl_topicId := kInvalidTopicId, dl_lastSampleMs := nowMs,
                                       dl_violationCount := 0, dl_active := False\<rparr>)
                               (dq_deadlines q)\<rparr>))"

definition FindProfileIndex :: "u32 \<Rightarrow> DdsQosEnforcer \<Rightarrow> nat option" where
  "FindProfileIndex topicId q =
     first_index (\<lambda>i. qp_topicId (dq_profiles q ! i) = topicId) (unat (dq_profileCount q))"

definition FindDeadlineIndex :: "u32 \<Rightarrow> DdsQosEnforcer \<Rightarrow> nat option" where
  "FindDeadlineIndex topicId q =
     first_index (\<lambda>i. dl_active (dq_deadlines q ! i) \<and> dl_topicId (dq_deadlines q ! i) = topicId)
       kMaxQosProfiles"

definition RegisterProfile :: "DdsQosProfile \<Rightarrow> u64 \<Rightarrow> DdsQosEnforcer \<Rightarrow> VoidResult \<times> DdsQosEnforcer" where
  "RegisterProfile profile nowMs q =
     (if \<not> dq_initialised q then (Err kNotInitialized, q)
      else if unat (dq_profileCount q) \<ge> kMaxQosProfiles then (Err kRegistryFull, q)
      else if FindProfileIndex (qp_topicId profile) q \<noteq> None then (Err kAlreadyRegistered, q)
      else
        let slot = unat (dq_profileCount q)
        in (Ok (), q\<lparr>dq_profiles := (dq_profiles q)[slot := profile],
               dq_deadlines := (dq_deadlines q)[slot :=
                 \<lparr>dl_topicId = qp_topicId profile, dl_lastSampleMs = nowMs, dl_violationCount = 0,
                  dl_active = True\<rparr>],
               dq_profileCount := dq_profileCount q + 1\<rparr>))"

definition ValidateSample :: "u32 \<Rightarrow> u16 \<Rightarrow> u64 \<Rightarrow> DdsQosEnforcer \<Rightarrow> VoidResult \<times> DdsQosEnforcer" where
  "ValidateSample topicId sampleLen nowMs q =
     (if \<not> dq_initialised q then (Err kNotInitialized, q)
      else if FindProfileIndex topicId q = None then (Err kServiceNotFound, q)
      else if sampleLen = 0 \<or> sampleLen > word_of_nat kMaxPayloadBytes then (Err kInvalidArgument, q)
      else (Ok (),
        (case FindDeadlineIndex topicId q of
           None \<Rightarrow> q
         | Some i \<Rightarrow> q\<lparr>dq_deadlines := (dq_deadlines q)[i :=
                         (dq_deadlines q ! i)\<lparr>dl_lastSampleMs := nowMs\<rparr>]\<rparr>)))"

definition deadline_missed :: "u64 \<Rightarrow> DdsQosProfile \<Rightarrow> DeadlineState \<Rightarrow> bool" where
  "deadline_missed nowMs profile d \<longleftrightarrow>
     qp_deadlineMs profile \<noteq> kDeadlineInfiniteMs \<and> dl_active d \<and>
     nowMs \<ge> dl_lastSampleMs d \<and> nowMs - dl_lastSampleMs d > ucast (qp_deadlineMs profile)"

text \<open>The second component is \<open>outTopicId\<close>, which an uninitialised enforcer does not write.\<close>

definition CheckDeadlines :: "u64 \<Rightarrow> u32 \<Rightarrow> DdsQosEnforcer \<Rightarrow> VoidResult \<times> u32 \<times> DdsQosEnforcer" where
  "CheckDeadlines nowMs outTopicId q =
     (if \<not> dq_initialised q then (Err kNotInitialized, outTopicId, q)
      else case first_index (\<lambda>i. deadline_missed nowMs (dq_profiles q ! i) (dq_deadlines q ! i))
                  (unat (dq_profileCount q)) of
        Some i \<Rightarrow>
          (Err kTimeout, qp_topicId (dq_profiles q ! i),
           q\<lparr>dq_deadlines := (dq_deadlines q)[i := (dq_deadlines q ! i)
               \<lparr>dl_violationCount := dl_violationCount (dq_deadlines q ! i) + 1\<rparr>]\<rparr>)
      | None \<Rightarrow> (Ok (), kInvalidTopicId, q))"

definition GetProfile :: "u32 \<Rightarrow> DdsQosEnforcer \<Rightarrow> nat Result" where
  "GetProfile topicId q =
     (case FindProfileIndex topicId q of None \<Rightarrow> Err kServiceNotFound | Some i \<Rightarrow> Ok i)"

definition GetViolationCount :: "u32 \<Rightarrow> DdsQosEnforcer \<Rightarrow> u32 Result" where
  "GetViolationCount topicId q =
     (case FindDeadlineIndex topicId q of
        None \<Rightarrow> Err kServiceNotFound
      | Some i \<Rightarrow> Ok (dl_violationCount (dq_deadlines q ! i)))"

section \<open>Profiles\<close>

text \<open>Row \<open>i\<close> of the deadline table belongs to profile \<open>i\<close>, and no further row is active.\<close>

definition dds_wf :: "DdsQosEnforcer \<Rightarrow> bool" where
  "dds_wf q \<longleftrightarrow> length (dq_profiles q) = 16 \<and> length (dq_deadlines q) = 16 \<and>
     unat (dq_profileCount q) \<le> 16 \<and>
     (\<forall>i<16. if i < unat (dq_profileCount q)
       then dl_active (dq_deadlines q ! i) \<and> dl_topicId (dq_deadlines q ! i) = qp_topicId (dq_profiles q ! i)
       else \<not> dl_active (dq_deadlines q ! i))"

definition profiles :: "DdsQosEnforcer \<Rightarrow> DdsQosProfile list" where
  "profiles q = take (unat (dq_profileCount q)) (dq_profiles q)"

lemma dds_wf_new: "dds_wf DdsQosEnforcer_new"
  by (simp add: dds_wf_def DdsQosEnforcer_new_def DeadlineState_default_def)

lemma dds_wf_Init: "dds_wf q \<Longrightarrow> dds_wf (snd (Dds_Init now q))"
  by (auto simp: dds_wf_def Dds_Init_def)

lemma length_profiles: "dds_wf q \<Longrightarrow> length (profiles q) = unat (dq_profileCount q)"
  by (simp add: profiles_def dds_wf_def)

lemma profile_count_inc: "unat (n :: u8) < 16 \<Longrightarrow> unat (n + 1) = Suc (unat n)"
  by (simp add: unat_word_ariths)

lemma RegisterProfile_cases:
  assumes "dds_wf q"
  obtains (refused) e where "RegisterProfile p now q = (Err e, q)"
  | (added) "dq_initialised q" "unat (dq_profileCount q) < 16"
      "qp_topicId p \<notin> qp_topicId ` set (profiles q)"
      "RegisterProfile p now q = (Ok (), q\<lparr>dq_profiles := (dq_profiles q)[unat (dq_profileCount q) := p],
         dq_deadlines := (dq_deadlines q)[unat (dq_profileCount q) :=
           \<lparr>dl_topicId = qp_topicId p, dl_lastSampleMs = now, dl_violationCount = 0, dl_active = True\<rparr>],
         dq_profileCount := dq_profileCount q + 1\<rparr>)"
proof (cases "dq_initialised q \<and> unat (dq_profileCount q) < 16 \<and> FindProfileIndex (qp_topicId p) q = None")
  case False
  then have "\<exists>e. RegisterProfile p now q = (Err e, q)" by (auto simp: RegisterProfile_def)
  then show ?thesis using refused by blast
next
  case True
  have "qp_topicId p \<notin> qp_topicId ` set (profiles q)"
    using True assms
    by (fastforce simp: FindProfileIndex_def first_index_None_iff profiles_def in_set_conv_nth dds_wf_def)
  then show ?thesis using added True by (simp add: RegisterProfile_def Let_def)
qed

lemma dds_wf_Register: "dds_wf q \<Longrightarrow> dds_wf (snd (RegisterProfile p now q))"
proof (rule RegisterProfile_cases [of q p now])
  assume wf: "dds_wf q" and lt: "unat (dq_profileCount q) < 16"
    and reg: "RegisterProfile p now q = (Ok (), q\<lparr>dq_profiles := (dq_profiles q)[unat (dq_profileCount q) := p],
         dq_deadlines := (dq_deadlines q)[unat (dq_profileCount q) :=
           \<lparr>dl_topicId = qp_topicId p, dl_lastSampleMs = now, dl_violationCount = 0, dl_active = True\<rparr>],
         dq_profileCount := dq_profileCount q + 1\<rparr>)"
  show ?thesis
    using wf lt unfolding reg by (simp add: dds_wf_def profile_count_inc nth_list_update less_Suc_eq)
qed simp_all

lemma RegisterProfile_Ok:
  assumes "dds_wf q" "RegisterProfile p now q = (Ok (), q')"
  shows "qp_topicId p \<notin> qp_topicId ` set (profiles q) \<and> profiles q' = profiles q @ [p]"
  using assms(1)
proof (rule RegisterProfile_cases [of q p now])
  assume lt: "unat (dq_profileCount q) < 16" and new: "qp_topicId p \<notin> qp_topicId ` set (profiles q)"
    and reg: "RegisterProfile p now q = (Ok (), q\<lparr>dq_profiles := (dq_profiles q)[unat (dq_profileCount q) := p],
         dq_deadlines := (dq_deadlines q)[unat (dq_profileCount q) :=
           \<lparr>dl_topicId = qp_topicId p, dl_lastSampleMs = now, dl_violationCount = 0, dl_active = True\<rparr>],
         dq_profileCount := dq_profileCount q + 1\<rparr>)"
  have "length (dq_profiles q) = 16" using assms(1) by (simp add: dds_wf_def)
  then show ?thesis
    using new lt assms(2) unfolding reg by (auto simp: profiles_def profile_count_inc take_Suc_conv_app_nth)
qed (use assms(2) in simp)

lemma RegisterProfile_Err: "RegisterProfile p now q = (Err e, q') \<Longrightarrow> q' = q"
  by (auto simp: RegisterProfile_def Let_def split: if_splits)

interpretation profiles: registry profiles qp_topicId "\<lambda>p. RegisterProfile p now" "\<lambda>p. p" dds_wf 16
  for now
proof unfold_locales
  show "dds_wf q \<Longrightarrow> length (profiles q) \<le> 16" for q
    by (simp add: length_profiles) (simp add: dds_wf_def)
qed (auto simp: dds_wf_Register dest: RegisterProfile_Ok RegisterProfile_Err)

interpretation open_profiles: accepting_registry profiles qp_topicId "\<lambda>p. RegisterProfile p now" "\<lambda>p. p"
    dds_wf 16 dq_initialised
  for now
proof unfold_locales
  fix q p
  show "dq_initialised q \<Longrightarrow> dq_initialised (snd (RegisterProfile p now q))"
    by (simp add: RegisterProfile_def Let_def)
  assume q: "dds_wf q" "dq_initialised q" "qp_topicId p \<notin> qp_topicId ` set (profiles q)" "length (profiles q) < 16"
  have "profiles q ! i = dq_profiles q ! i \<and> profiles q ! i \<in> set (profiles q)"
    if "i < unat (dq_profileCount q)" for i
    using that q(1) nth_mem [of i "profiles q"] by (simp add: length_profiles) (simp add: profiles_def)
  then have "FindProfileIndex (qp_topicId p) q = None"
    unfolding FindProfileIndex_def first_index_None_iff using q(3) by (metis imageI)
  then show "fst (RegisterProfile p now q) = Ok ()"
    using q by (simp add: RegisterProfile_def Let_def length_profiles)
qed

section \<open>Samples and deadlines\<close>

lemma dds_row:
  assumes "dds_wf q" "i < 16"
  shows "dl_active (dq_deadlines q ! i) \<longleftrightarrow> i < unat (dq_profileCount q)"
    "dl_active (dq_deadlines q ! i) \<Longrightarrow> dl_topicId (dq_deadlines q ! i) = qp_topicId (dq_profiles q ! i)"
  using assms unfolding dds_wf_def by (metis (full_types))+

lemma FindDeadlineIndex_profile:
  assumes "dds_wf q"
  shows "FindDeadlineIndex t q = FindProfileIndex t q"
proof -
  have "first_index (\<lambda>i. dl_active (dq_deadlines q ! i) \<and> dl_topicId (dq_deadlines q ! i) = t) 16 =
      first_index (\<lambda>i. i < unat (dq_profileCount q) \<and> qp_topicId (dq_profiles q ! i) = t) 16"
    using dds_row [OF assms] by (intro first_index_cong) auto
  also have "\<dots> = first_index (\<lambda>i. qp_topicId (dq_profiles q ! i) = t) (unat (dq_profileCount q))"
  proof (cases "first_index (\<lambda>i. qp_topicId (dq_profiles q ! i) = t) (unat (dq_profileCount q))")
    case None
    then have "first_index (\<lambda>i. i < unat (dq_profileCount q) \<and> qp_topicId (dq_profiles q ! i) = t) 16 = None"
      unfolding first_index_None_iff by blast
    with None show ?thesis by simp
  next
    case (Some i)
    moreover have "unat (dq_profileCount q) \<le> 16" using assms by (simp add: dds_wf_def)
    ultimately have "first_index (\<lambda>i. i < unat (dq_profileCount q) \<and> qp_topicId (dq_profiles q ! i) = t) 16 = Some i"
      unfolding first_index_Some_iff by auto
    with Some show ?thesis by simp
  qed
  finally show ?thesis by (simp add: FindDeadlineIndex_def FindProfileIndex_def)
qed

lemma ValidateSample_cases:
  assumes "dds_wf q" "dq_initialised q"
  shows "ValidateSample t n now q =
    (case FindProfileIndex t q of
       None \<Rightarrow> (Err kServiceNotFound, q)
     | Some i \<Rightarrow>
         if unat n = 0 \<or> 256 < unat n then (Err kInvalidArgument, q)
         else (Ok (), q\<lparr>dq_deadlines := (dq_deadlines q)[i := (dq_deadlines q ! i)\<lparr>dl_lastSampleMs := now\<rparr>]\<rparr>))"
  using assms
  by (auto simp: ValidateSample_def FindDeadlineIndex_profile word_less_nat_alt unat_eq_0
      split: option.split)

lemma FindProfileIndex_SomeD:
  assumes "dds_wf q" "FindProfileIndex t q = Some i"
  shows "i < unat (dq_profileCount q)" "i < 16" "qp_topicId (dq_profiles q ! i) = t"
  using first_index_SomeD [OF assms(2) [unfolded FindProfileIndex_def]] assms(1)
  by (auto simp: dds_wf_def)

lemma dds_wf_update_deadline:
  assumes "dds_wf q" "dl_active d = dl_active (dq_deadlines q ! i)" "dl_topicId d = dl_topicId (dq_deadlines q ! i)"
  shows "dds_wf (q\<lparr>dq_deadlines := (dq_deadlines q)[i := d]\<rparr>)"
  using assms by (cases "i < 16") (auto simp: dds_wf_def nth_list_update)

lemma dds_wf_ValidateSample: "dds_wf q \<Longrightarrow> dds_wf (snd (ValidateSample t n now q))"
  by (auto simp: ValidateSample_def intro: dds_wf_update_deadline split: option.split)

lemma dds_wf_CheckDeadlines: "dds_wf q \<Longrightarrow> dds_wf (snd (snd (CheckDeadlines now out q)))"
  by (auto simp: CheckDeadlines_def intro: dds_wf_update_deadline split: option.split)

lemma deadline_missed_iff:
  "deadline_missed now p d \<longleftrightarrow> qp_deadlineMs p \<noteq> kDeadlineInfiniteMs \<and> dl_active d \<and>
     unat (dl_lastSampleMs d) + unat (qp_deadlineMs p) < unat now"
proof -
  have u: "unat (ucast (qp_deadlineMs p) :: u64) = unat (qp_deadlineMs p)"
  proof -
    have "unat (qp_deadlineMs p) < 2 ^ 64" by (rule less_trans [OF unat_u32_less]) simp
    then show ?thesis by (simp add: unsigned_ucast_eq take_bit_nat_eq_self)
  qed
  have "(dl_lastSampleMs d \<le> now \<and> now - dl_lastSampleMs d > ucast (qp_deadlineMs p)) \<longleftrightarrow>
      unat (dl_lastSampleMs d) + unat (qp_deadlineMs p) < unat now"
    by (auto simp: word_le_nat_alt word_less_nat_alt unat_sub u)
  then show ?thesis unfolding deadline_missed_def by blast
qed

end
