(* ===== verification/DdsTiming.thy ===== *)
theory DdsTiming
  imports DdsQos Periodic
begin

text \<open>
  The deadline enforcer of \<open>src/DdsQosPolicy.cpp\<close> on its period: timed runs in which
  \<open>CheckDeadlines\<close> runs now and then and the topic it reports is written down, while profiles
  are registered and samples of other topics arrive. With no deadline registered before it, a
  silent topic is reported in time and not too early (an interpretation of \<open>exact_scan\<close>); a topic
  registered before it that is late stops every later report.
\<close>

section \<open>Runs\<close>

text \<open>
  Every operation but a sample of a topic in \<open>K\<close> that \<open>ValidateSample\<close> accepts. The second
  component is the list of topics reported so far.
\<close>

inductive dds_others :: "u32 set \<Rightarrow> DdsQosEnforcer \<times> u32 list \<Rightarrow> DdsQosEnforcer \<times> u32 list \<Rightarrow> bool" for K where
  do_init: "dds_others K (q, r) (snd (Dds_Init now q), r)"
| do_register: "dds_others K (q, r) (snd (RegisterProfile p now q), r)"
| do_sample: "t \<notin> K \<or> len = 0 \<or> len > word_of_nat kMaxPayloadBytes \<Longrightarrow>
    dds_others K (q, r) (snd (ValidateSample t len now q), r)"

definition deadline_round :: "u64 \<Rightarrow> DdsQosEnforcer \<times> u32 list \<Rightarrow> DdsQosEnforcer \<times> u32 list" where
  "deadline_round now s =
     (case CheckDeadlines now kInvalidTopicId (fst s) of
        (r, topic, q) \<Rightarrow> (q, if r = Err kTimeout then snd s @ [topic] else snd s))"

definition dds_scan :: "u64 \<Rightarrow> DdsQosEnforcer \<times> u32 list \<Rightarrow> DdsQosEnforcer \<times> u32 list \<Rightarrow> bool" where
  "dds_scan t s s' \<longleftrightarrow> s' = deadline_round t s"

lemma dds_scan_possible: "\<exists>s'. dds_scan t s s'"
  by (simp add: dds_scan_def)

section \<open>The invariant of an initialised enforcer\<close>

definition dds_inv :: "DdsQosEnforcer \<Rightarrow> bool" where
  "dds_inv q \<longleftrightarrow> dds_wf q \<and> dq_initialised q \<and> distinct (map qp_topicId (profiles q))"

lemma dds_inv_Init: "dds_wf q \<Longrightarrow> Dds_Init now q = (Ok (), q') \<Longrightarrow> dds_inv q'"
  using dds_wf_Init [of q now] by (auto simp: dds_inv_def Dds_Init_def profiles_def split: if_splits)

lemma dds_inv_again: "dds_inv q \<Longrightarrow> snd (Dds_Init now q) = q"
  by (simp add: dds_inv_def Dds_Init_def)

lemma dds_inv_Register: "dds_inv q \<Longrightarrow> dds_inv (snd (RegisterProfile p now q))"
  using dds_wf_Register [of q p now] profiles.keys_distinct_add [of q p now] open_profiles.add_ready [of q p now]
  by (simp add: dds_inv_def profiles.keys_def)

lemma dds_inv_Validate: "dds_inv q \<Longrightarrow> dds_inv (snd (ValidateSample t n now q))"
  using dds_wf_ValidateSample [of q t n now]
  by (auto simp: ValidateSample_def dds_inv_def profiles_def split: option.splits)

lemma dds_inv_round: "dds_inv (fst s) \<Longrightarrow> dds_inv (fst (deadline_round now s))"
  using dds_wf_CheckDeadlines [of "fst s" now kInvalidTopicId]
  by (auto simp: deadline_round_def CheckDeadlines_def dds_inv_def profiles_def split: option.splits)

lemma dds_inv_others: "dds_others K s s' \<Longrightarrow> dds_inv (fst s) \<Longrightarrow> dds_inv (fst s')"
  by (induction rule: dds_others.induct) (auto simp: dds_inv_again intro: dds_inv_Register dds_inv_Validate)

lemma dds_inv_topics:
  assumes "dds_inv q" "i < unat (dq_profileCount q)" "j < unat (dq_profileCount q)"
  shows "qp_topicId (dq_profiles q ! i) = qp_topicId (dq_profiles q ! j) \<longleftrightarrow> i = j"
proof -
  have "length (profiles q) = unat (dq_profileCount q)"
    using assms(1) by (simp add: dds_inv_def length_profiles)
  moreover have "distinct (map qp_topicId (profiles q))" using assms(1) by (simp add: dds_inv_def)
  ultimately show ?thesis
    using assms(2,3) nth_eq_iff_index_eq [of "map qp_topicId (profiles q)" i j]
    by (simp add: profiles_def)
qed

lemma dds_inv_found:
  assumes "dds_inv q" "i < unat (dq_profileCount q)"
  shows "FindProfileIndex (qp_topicId (dq_profiles q ! i)) q = Some i"
    "FindDeadlineIndex (qp_topicId (dq_profiles q ! i)) q = Some i"
proof -
  show "FindProfileIndex (qp_topicId (dq_profiles q ! i)) q = Some i"
    unfolding FindProfileIndex_def first_index_Some_iff using assms dds_inv_topics [OF assms(1)] by fastforce
  then show "FindDeadlineIndex (qp_topicId (dq_profiles q ! i)) q = Some i"
    using assms(1) by (simp add: dds_inv_def FindDeadlineIndex_profile)
qed

section \<open>One row of the tables\<close>

text \<open>Row \<open>i\<close> holds profile \<open>p\<close>, its last sample came at \<open>t0\<close>, and \<open>v\<close> violations were counted.\<close>

definition topic_row :: "nat \<Rightarrow> DdsQosProfile \<Rightarrow> u64 \<Rightarrow> DdsQosEnforcer \<Rightarrow> bool" where
  "topic_row i p t0 q \<longleftrightarrow> i < unat (dq_profileCount q) \<and> dq_profiles q ! i = p \<and>
     dl_lastSampleMs (dq_deadlines q ! i) = t0"

definition violations_are :: "nat \<Rightarrow> u32 \<Rightarrow> DdsQosEnforcer \<Rightarrow> bool" where
  "violations_are i v q \<longleftrightarrow> i < unat (dq_profileCount q) \<and> dl_violationCount (dq_deadlines q ! i) = v"

text \<open>Rows are never taken away or given to another topic.\<close>

lemma others_rows:
  assumes "dds_others K s s'" "dds_inv (fst s)"
  shows "snd s' = snd s" "unat (dq_profileCount (fst s)) \<le> unat (dq_profileCount (fst s'))"
    "i < unat (dq_profileCount (fst s)) \<Longrightarrow> dq_profiles (fst s') ! i = dq_profiles (fst s) ! i"
    "violations_are i v (fst s) \<Longrightarrow> violations_are i v (fst s')"
    "topic_row i p t0 (fst s) \<Longrightarrow> qp_topicId p \<in> K \<Longrightarrow> topic_row i p t0 (fst s')"
proof -
  have "snd s' = snd s \<and> unat (dq_profileCount (fst s)) \<le> unat (dq_profileCount (fst s')) \<and>
     (i < unat (dq_profileCount (fst s)) \<longrightarrow> dq_profiles (fst s') ! i = dq_profiles (fst s) ! i) \<and>
     (violations_are i v (fst s) \<longrightarrow> violations_are i v (fst s')) \<and>
     (topic_row i p t0 (fst s) \<longrightarrow> qp_topicId p \<in> K \<longrightarrow> topic_row i p t0 (fst s'))"
    using assms
  proof (induction rule: dds_others.induct)
    case (do_init q r now)
    then show ?case by (simp add: dds_inv_again)
  next
    case (do_register q r p' now)
    then have wf: "dds_wf q" by (simp add: dds_inv_def)
    show ?case
      by (cases rule: RegisterProfile_cases [OF wf, of p' now])
        (auto simp: topic_row_def violations_are_def profile_count_inc)
  next
    case (do_sample t len q r now)
    then have q: "dds_wf q" "dq_initialised q" by (simp_all add: dds_inv_def)
    have len: "unat len = 0 \<or> 256 < unat len" if "len = 0 \<or> len > word_of_nat kMaxPayloadBytes"
      using that by (auto simp: word_less_nat_alt)
    show ?case
      using do_sample.hyps len FindProfileIndex_SomeD [OF q(1), of t] q(1)
      by (auto simp: ValidateSample_cases [OF q] topic_row_def violations_are_def nth_list_update dds_wf_def
          split: option.splits)
  qed
  then show "snd s' = snd s" "unat (dq_profileCount (fst s)) \<le> unat (dq_profileCount (fst s'))"
    "i < unat (dq_profileCount (fst s)) \<Longrightarrow> dq_profiles (fst s') ! i = dq_profiles (fst s) ! i"
    "violations_are i v (fst s) \<Longrightarrow> violations_are i v (fst s')"
    "topic_row i p t0 (fst s) \<Longrightarrow> qp_topicId p \<in> K \<Longrightarrow> topic_row i p t0 (fst s')"
    by blast+
qed

text \<open>A check at \<open>now\<close> reports the first row that is late, if any.\<close>

definition row_late :: "u64 \<Rightarrow> DdsQosEnforcer \<Rightarrow> nat \<Rightarrow> bool" where
  "row_late now q i \<longleftrightarrow> qp_deadlineMs (dq_profiles q ! i) \<noteq> kDeadlineInfiniteMs \<and>
     unat (dl_lastSampleMs (dq_deadlines q ! i)) + unat (qp_deadlineMs (dq_profiles q ! i)) < unat now"

lemma round_reports:
  assumes "dds_inv q"
  obtains (none) "\<forall>j<unat (dq_profileCount q). \<not> row_late now q j" "deadline_round now (q, r) = (q, r)"
  | (first) i where "i < unat (dq_profileCount q)" "row_late now q i" "\<forall>j<i. \<not> row_late now q j"
      "deadline_round now (q, r) = (q\<lparr>dq_deadlines := (dq_deadlines q)[i := (dq_deadlines q ! i)
         \<lparr>dl_violationCount := dl_violationCount (dq_deadlines q ! i) + 1\<rparr>]\<rparr>,
         r @ [qp_topicId (dq_profiles q ! i)])"
proof -
  let ?n = "unat (dq_profileCount q)"
  have wf: "dds_wf q" "dq_initialised q" using assms by (simp_all add: dds_inv_def)
  then have n: "?n \<le> 16" by (simp add: dds_wf_def)
  have eq: "first_index (\<lambda>i. deadline_missed now (dq_profiles q ! i) (dq_deadlines q ! i)) ?n
      = first_index (row_late now q) ?n"
    using dds_row(1) [OF wf(1)] n by (intro first_index_cong) (auto simp: deadline_missed_iff row_late_def)
  show thesis
  proof (cases "first_index (row_late now q) ?n")
    case None
    then have "deadline_round now (q, r) = (q, r)"
      by (simp add: deadline_round_def CheckDeadlines_def eq wf(2))
    with None show thesis by (intro none) (simp_all add: first_index_None_iff)
  next
    case (Some i)
    then have "deadline_round now (q, r) = (q\<lparr>dq_deadlines := (dq_deadlines q)[i := (dq_deadlines q ! i)
         \<lparr>dl_violationCount := dl_violationCount (dq_deadlines q ! i) + 1\<rparr>]\<rparr>, r @ [qp_topicId (dq_profiles q ! i)])"
      by (simp add: deadline_round_def CheckDeadlines_def eq wf(2))
    with Some show thesis by (intro first [of i]) (simp_all add: first_index_Some_iff)
  qed
qed

lemma round_rows:
  assumes "dds_inv q"
  shows "dq_profiles (fst (deadline_round now (q, r))) = dq_profiles q"
    "dq_profileCount (fst (deadline_round now (q, r))) = dq_profileCount q"
    "dl_lastSampleMs (dq_deadlines (fst (deadline_round now (q, r))) ! i) = dl_lastSampleMs (dq_deadlines q ! i)"
proof -
  have upd: "dl_lastSampleMs ((dq_deadlines q)[j := (dq_deadlines q ! j)\<lparr>dl_violationCount := v\<rparr>] ! i) =
      dl_lastSampleMs (dq_deadlines q ! i)" for j and v :: u32
    by (cases "j < length (dq_deadlines q)"; cases "j = i") (simp_all add: list_update_beyond)
  show "dq_profiles (fst (deadline_round now (q, r))) = dq_profiles q"
    "dq_profileCount (fst (deadline_round now (q, r))) = dq_profileCount q"
    "dl_lastSampleMs (dq_deadlines (fst (deadline_round now (q, r))) ! i) = dl_lastSampleMs (dq_deadlines q ! i)"
    by (cases rule: round_reports [OF assms, of now r]; simp add: upd)+
qed

section \<open>Nothing registered before it\<close>

text \<open>The topic of row \<open>i\<close> is silent since \<open>t0\<close> and no earlier row has a deadline.\<close>

definition alone_silent :: "nat \<Rightarrow> DdsQosProfile \<Rightarrow> u64 \<Rightarrow> DdsQosEnforcer \<times> u32 list \<Rightarrow> bool" where
  "alone_silent i p t0 s \<longleftrightarrow> dds_inv (fst s) \<and> topic_row i p t0 (fst s) \<and>
     (\<forall>j<i. qp_deadlineMs (dq_profiles (fst s) ! j) = kDeadlineInfiniteMs)"

lemma alone_others:
  assumes "dds_others K s s'" "qp_topicId p \<in> K" "alone_silent i p t0 s"
  shows "alone_silent i p t0 s'" "snd s' = snd s"
proof -
  have s: "dds_inv (fst s)" "i < unat (dq_profileCount (fst s))"
    using assms(3) by (simp_all add: alone_silent_def topic_row_def)
  note rows = others_rows [OF assms(1) s(1)]
  show "snd s' = snd s" by (rule rows(1))
  show "alone_silent i p t0 s'"
    using assms dds_inv_others [OF assms(1)] rows(3,5) s(2) by (auto simp: alone_silent_def)
qed

lemma alone_scan:
  assumes "dds_scan t s s'" "alone_silent i p t0 s" "qp_deadlineMs p \<noteq> kDeadlineInfiniteMs"
  shows "alone_silent i p t0 s'"
    "unat t0 + unat (qp_deadlineMs p) < unat t \<Longrightarrow> qp_topicId p \<in> set (snd s')"
    "unat t \<le> unat t0 + unat (qp_deadlineMs p) \<Longrightarrow> qp_topicId p \<in> set (snd s') \<Longrightarrow> qp_topicId p \<in> set (snd s)"
proof -
  obtain q r where s: "s = (q, r)" by (cases s)
  have s': "s' = deadline_round t (q, r)" using assms(1) by (simp add: dds_scan_def s)
  have q: "dds_inv q" "topic_row i p t0 q" "\<forall>j<i. qp_deadlineMs (dq_profiles q ! j) = kDeadlineInfiniteMs"
    using assms(2) by (simp_all add: alone_silent_def s)
  have p: "i < unat (dq_profileCount q)" "dq_profiles q ! i = p" using q(2) by (simp_all add: topic_row_def)
  show "alone_silent i p t0 s'"
    using q dds_inv_round [of "(q, r)" t] by (simp add: alone_silent_def s' topic_row_def round_rows [OF q(1)])
  have late: "row_late t q i \<longleftrightarrow> unat t0 + unat (qp_deadlineMs p) < unat t" "\<forall>j<i. \<not> row_late t q j"
    using q assms(3) by (auto simp: row_late_def topic_row_def)
  note topics = dds_inv_topics [OF q(1), of i]
  have "k = i" if "row_late t q k" "\<forall>j<k. \<not> row_late t q j" "row_late t q i" for k
    using that late(2) by (metis linorder_neqE_nat)
  with late(1) p show "qp_topicId p \<in> set (snd s')" if "unat t0 + unat (qp_deadlineMs p) < unat t"
    unfolding s' by (cases rule: round_reports [OF q(1), of t r]) (use that in auto)
  from late(1) p show "qp_topicId p \<in> set (snd s)"
    if "unat t \<le> unat t0 + unat (qp_deadlineMs p)" "qp_topicId p \<in> set (snd s')"
    using that(2) topics unfolding s' s
    by (cases rule: round_reports [OF q(1), of t r]) (use that(1) in auto)
qed

interpretation silent_topic: exact_scan "dds_others (insert (qp_topicId p) K)" dds_scan
    "\<lambda>s. alone_silent i p t0 s \<and> qp_deadlineMs p \<noteq> kDeadlineInfiniteMs" "\<lambda>s. qp_topicId p \<in> set (snd s)"
    "unat t0 + unat (qp_deadlineMs p)" for p K i t0
  by unfold_locales (auto intro: alone_others alone_scan dest: alone_others(2))

lemma reported_in_time:
  assumes "dds_inv q" "i < unat (dq_profileCount q)" "qp_deadlineMs (dq_profiles q ! i) \<noteq> kDeadlineInfiniteMs"
    and "(timed_step period (dds_others (insert (qp_topicId (dq_profiles q ! i)) K)) dds_scan)\<^sup>*\<^sup>*
      \<lparr>td_state = (q, r), td_now = now, td_scan = sc\<rparr> s"
    and "sc \<le> now" "unat now \<le> unat sc + period" "qp_topicId (dq_profiles q ! i) \<notin> set r"
    and "limit = unat (dl_lastSampleMs (dq_deadlines q ! i)) + unat (qp_deadlineMs (dq_profiles q ! i))"
    and "unat sc \<le> limit" "\<forall>j<i. qp_deadlineMs (dq_profiles q ! j) = kDeadlineInfiniteMs"
  shows "unat (td_scan s) \<le> limit \<Longrightarrow> qp_topicId (dq_profiles q ! i) \<notin> set (snd (td_state s))"
    "limit + period < unat (td_now s) \<Longrightarrow> qp_topicId (dq_profiles q ! i) \<in> set (snd (td_state s))"
proof -
  let ?p = "dq_profiles q ! i" and ?t0 = "dl_lastSampleMs (dq_deadlines q ! i)"
    and ?s0 = "\<lparr>td_state = (q, r), td_now = now, td_scan = sc\<rparr>"
  have start: "alone_silent i ?p ?t0 (td_state ?s0) \<and> qp_deadlineMs ?p \<noteq> kDeadlineInfiniteMs"
    using assms(1-3,10) by (simp add: alone_silent_def topic_row_def)
  have "silent_topic.not_early i ?p ?t0 ?s0"
    using start assms(5,7) unfolding silent_topic.not_early_def by simp
  note early = silent_topic.not_found_early(1) [OF assms(4) this]
    and late = silent_topic.found_in_time(1) [OF assms(4) start]
  show "unat (td_scan s) \<le> limit \<Longrightarrow> qp_topicId ?p \<notin> set (snd (td_state s))"
    using early assms(8) by simp
  show "limit + period < unat (td_now s) \<Longrightarrow> qp_topicId ?p \<in> set (snd (td_state s))"
    using late assms(6,8,9) by simp
qed

section \<open>Behind a late topic\<close>

text \<open>
  Row \<open>j\<close> is before row \<open>i\<close> and late. From then on every check stops at \<open>j\<close> or before it: row \<open>i\<close>
  is neither reported nor counted.
\<close>

definition stopped_by :: "nat \<Rightarrow> DdsQosProfile \<Rightarrow> u64 \<Rightarrow> nat \<Rightarrow> DdsQosProfile \<Rightarrow> u32 \<Rightarrow>
    (DdsQosEnforcer \<times> u32 list) timed \<Rightarrow> bool" where
  "stopped_by j pj tj i p v s \<longleftrightarrow>
     (case td_state s of (q, r) \<Rightarrow> dds_inv q \<and> j < i \<and> topic_row j pj tj q \<and>
        dq_profiles q ! i = p \<and> violations_are i v q \<and> qp_topicId p \<notin> set r) \<and>
     unat tj + unat (qp_deadlineMs pj) < unat (td_now s)"

lemma stopped_round:
  assumes "dds_inv q" "j < i" "topic_row j pj tj q" "dq_profiles q ! i = p" "violations_are i v q"
    and "qp_deadlineMs pj \<noteq> kDeadlineInfiniteMs" "unat tj + unat (qp_deadlineMs pj) < unat t"
    and "qp_topicId p \<notin> set r"
  shows "violations_are i v (fst (deadline_round t (q, r)))" "qp_topicId p \<notin> set (snd (deadline_round t (q, r)))"
proof -
  have j: "row_late t q j" "j < unat (dq_profileCount q)" "i < unat (dq_profileCount q)"
    using assms by (simp_all add: row_late_def topic_row_def violations_are_def)
  have "violations_are i v (fst (deadline_round t (q, r))) \<and> qp_topicId p \<notin> set (snd (deadline_round t (q, r)))"
  proof (cases rule: round_reports [OF assms(1), of t r])
    case 1
    then show ?thesis
      using j by blast
  next
    case first: (2 k)
    then have "k \<le> j" using j(1) not_less by blast
    then have "k \<noteq> i" using assms(2) by simp
    then show ?thesis
      using first assms(4,5,8) dds_inv_topics [OF assms(1) j(3) first(1)]
      by (auto simp: violations_are_def)
  qed
  then show "violations_are i v (fst (deadline_round t (q, r)))" "qp_topicId p \<notin> set (snd (deadline_round t (q, r)))"
    by blast+
qed

lemma stopped_step:
  assumes "timed_step period (dds_others (insert (qp_topicId pj) K)) dds_scan s s'" "stopped_by j pj tj i p v s"
    and "qp_deadlineMs pj \<noteq> kDeadlineInfiniteMs"
  shows "stopped_by j pj tj i p v s'"
  using assms
proof (induction rule: timed_step.induct)
  case (d_clock s t)
  then show ?case by (auto simp: stopped_by_def word_le_nat_alt)
next
  case (d_others s a)
  obtain q r where s: "td_state s = (q, r)" by (cases "td_state s")
  have q: "dds_inv (fst (td_state s))" "i < unat (dq_profileCount q)"
    using d_others.prems(1) by (auto simp: stopped_by_def s violations_are_def)
  note rows = others_rows [OF d_others.hyps(1) q(1)] and inv = dds_inv_others [OF d_others.hyps(1) q(1)]
  show ?case
    using d_others.prems(1) rows(1) rows(3) [of i] rows(4) [of i v] rows(5) [of j pj tj] inv q(2)
    by (auto simp: stopped_by_def s split_beta)
next
  case (d_scan s a)
  obtain q r where s: "td_state s = (q, r)" by (cases "td_state s")
  have a: "a = deadline_round (td_now s) (q, r)" using d_scan.hyps by (simp add: dds_scan_def s)
  have q: "dds_inv q" "j < i" "topic_row j pj tj q" "dq_profiles q ! i = p" "violations_are i v q"
    "qp_topicId p \<notin> set r" "unat tj + unat (qp_deadlineMs pj) < unat (td_now s)"
    using d_scan.prems(1) by (simp_all add: stopped_by_def s)
  have "topic_row j pj tj (fst a)" "dq_profiles (fst a) ! i = p" "dds_inv (fst a)"
    using q(3,4) dds_inv_round [of "(q, r)"] q(1) by (simp_all add: a topic_row_def round_rows [OF q(1)])
  moreover have "violations_are i v (fst a)" "qp_topicId p \<notin> set (snd a)"
    unfolding a by (rule stopped_round [OF q(1-5) d_scan.prems(2) q(7,6)])+
  ultimately show ?case using q(2,7) by (simp add: stopped_by_def split_beta)
qed

lemma stopped_run:
  "(timed_step period (dds_others (insert (qp_topicId pj) K)) dds_scan)\<^sup>*\<^sup>* s s' \<Longrightarrow> stopped_by j pj tj i p v s \<Longrightarrow>
     qp_deadlineMs pj \<noteq> kDeadlineInfiniteMs \<Longrightarrow> stopped_by j pj tj i p v s'"
  by (induction rule: rtranclp_induct) (auto intro: stopped_step)

lemma hidden_behind:
  assumes "dds_inv q" "i < unat (dq_profileCount q)" "j < i" "qp_topicId (dq_profiles q ! j) \<in> K"
    and "row_late now q j"
    and "(timed_step period (dds_others K) dds_scan)\<^sup>*\<^sup>* \<lparr>td_state = (q, []), td_now = now, td_scan = sc\<rparr> s"
  shows "qp_topicId (dq_profiles q ! i) \<notin> set (snd (td_state s))"
    "GetViolationCount (qp_topicId (dq_profiles q ! i)) (fst (td_state s)) =
       GetViolationCount (qp_topicId (dq_profiles q ! i)) q"
proof -
  let ?pj = "dq_profiles q ! j" and ?p = "dq_profiles q ! i" and ?v = "dl_violationCount (dq_deadlines q ! i)"
    and ?s0 = "\<lparr>td_state = (q, []), td_now = now, td_scan = sc\<rparr>"
  have "stopped_by j ?pj (dl_lastSampleMs (dq_deadlines q ! j)) i ?p ?v ?s0"
    using assms(1-3,5) by (simp add: stopped_by_def topic_row_def violations_are_def row_late_def)
  moreover have "(timed_step period (dds_others (insert (qp_topicId ?pj) K)) dds_scan)\<^sup>*\<^sup>* ?s0 s"
    using assms(4,6) by (simp add: insert_absorb)
  ultimately have "stopped_by j ?pj (dl_lastSampleMs (dq_deadlines q ! j)) i ?p ?v s"
    using stopped_run assms(5) unfolding row_late_def by blast
  then show "qp_topicId ?p \<notin> set (snd (td_state s))"
    "GetViolationCount (qp_topicId ?p) (fst (td_state s)) = GetViolationCount (qp_topicId ?p) q"
    using dds_inv_found(2) [of "fst (td_state s)" i] dds_inv_found(2) [OF assms(1,2)]
    by (auto simp: stopped_by_def violations_are_def GetViolationCount_def split_beta)
qed

end
