(* ===== verification/MonitorProps.thy ===== *)
theory MonitorProps
  imports MonitorTiming BeatRace DdsTiming
begin

text \<open>
  Properties of the components that watch for silence beside the arbitrator: the subscriber monitor
  and the deadline enforcer, as single scans, over time, and beside concurrent calls.
\<close>

section \<open>Subscriber monitor\<close>

definition sample_mon0 :: "nat DeadSubscriberMonitor" where
  "sample_mon0 = snd (Monitor_Init 1000 DeadSubscriberMonitor_new)"

definition sample_mon :: "nat DeadSubscriberMonitor" where
  "sample_mon = snd (Register 0x0100 0x8001 (Some 7) 1000 sample_mon0)"

lemma sample_mon0_facts:
  "Monitor_Init 1000 DeadSubscriberMonitor_new = (Ok (), sample_mon0)"
  "mon_wf (DeadSubscriberMonitor_new :: nat DeadSubscriberMonitor)" "mon_wf sample_mon0"
  "dm_initialised sample_mon0" "i < 32 \<Longrightarrow> \<not> le_active (dm_entries sample_mon0 ! i)"
  by (simp_all add: sample_mon0_def Monitor_Init_def DeadSubscriberMonitor_new_def mon_wf_def)

lemma sample_mon_reachable: "mon_step\<^sup>*\<^sup>* sample_mon0 sample_mon"
  unfolding sample_mon_def by (intro r_into_rtranclp m_register)

lemma sample_mon_facts: "mon_wf sample_mon" "dm_initialised sample_mon"
  using mon_wf_Register [OF sample_mon0_facts(3), of "0x0100" "0x8001" "Some 7" 1000] sample_mon0_facts(4)
  by (simp_all add: sample_mon_def Register_def split: option.split)

text \<open>C40: one scan, for all entries at once: the subscribers silent for more than 2000 ms, and no
  others, are released and counted, and their callbacks run once each in slot order with
  the entry's ids; those silent for more than 500 ms become a warning; the others are as
  before.\<close>

theorem scan_is_exact:
  assumes "mon_wf m" "dm_initialised m"
  shows "(let silent = (\<lambda>k e. le_active e \<and> unat (le_lastBeatMs e) + k < unat now);
      dead = filter (silent 2000) (dm_entries m);
      (n, m', w') = ScanAndEvict (plain_dead eff) now (m, w)
    in unat n = length dead \<and> dm_evictedTotal m' = dm_evictedTotal m + word_of_nat (length dead) \<and>
       w' = fold (\<lambda>e w. case le_onDead e of None \<Rightarrow> w
              | Some c \<Rightarrow> eff c (le_serviceId e) (le_eventId e) w) dead w \<and>
       (\<forall>i<32. let e = dm_entries m ! i; e' = dm_entries m' ! i
         in if silent 2000 e then \<not> le_active e' \<and> le_onDead e' = None
            else if silent 500 e then e' = e\<lparr>le_health := kWarning\<rparr>
            else e' = e))"
proof -
  have len: "length (dm_entries m) = 32" using assms(1) by (simp add: mon_wf_def)
  have ex: "expired now = (\<lambda>e. le_active e \<and> unat (le_lastBeatMs e) + 2000 < unat now)"
    by (simp add: expired_def fun_eq_iff)
  have nd: "notify_dead eff = (\<lambda>e w. case le_onDead e of None \<Rightarrow> w
      | Some c \<Rightarrow> eff c (le_serviceId e) (le_eventId e) w)"
    by (simp add: notify_dead_def fun_eq_iff)
  have "length (filter (expired now) (dm_entries m)) \<le> 32" using length_filter_le len by metis
  then show ?thesis
    using len
    by (simp add: ScanAndEvict_plain [OF assms] Let_def dead_entries_def nd unat_of_nat scanned_entry_def
        late_def ex release_entry_def)
qed

definition idle_entry :: "nat LivenessEntry" where
  "idle_entry = LivenessEntry_default\<lparr>le_lastBeatMs := 1000\<rparr>"

lemma sample_mon_entries:
  "dm_entries sample_mon = fresh_entry 0x0100 0x8001 (Some 7) 1000 # replicate 31 idle_entry"
proof -
  have e0: "dm_entries sample_mon0 = idle_entry # replicate 31 idle_entry"
    using replicate_Suc [of 31 idle_entry]
    by (simp add: sample_mon0_def Monitor_Init_def DeadSubscriberMonitor_new_def idle_entry_def
        LivenessEntry_default_def)
  have "first_index (\<lambda>i. \<not> le_active (dm_entries sample_mon0 ! i)) 32 = Some 0"
    "FindIndex 0x0100 0x8001 sample_mon0 = None"
    using sample_mon0_facts(5) by (simp_all add: first_index_Some_iff FindIndex_def first_index_None_iff)
  then show ?thesis
    by (simp add: sample_mon_def Register_def sample_mon0_facts(4) e0 fresh_entry_def)
qed

theorem scan_is_exact_witness:
  "snd (snd (ScanAndEvict (plain_dead (\<lambda>c sid eid w. w @ [c])) 3001 (sample_mon, []))) = [7]"
proof -
  have "filter (\<lambda>e. le_active e \<and> unat (le_lastBeatMs e) + 2000 < unat (3001 :: u64)) (dm_entries sample_mon)
      = [fresh_entry 0x0100 0x8001 (Some 7) 1000]"
    by (simp add: sample_mon_entries fresh_entry_def idle_entry_def LivenessEntry_default_def)
  then show ?thesis
    using scan_is_exact [OF sample_mon_facts, of 3001 "\<lambda>c sid eid w. w @ [c]" "[]"]
    by (simp add: Let_def split_beta)
qed

text \<open>C36: a subscriber that falls silent is reported once, and not too early. From any state the
  monitor can reach, let a tracked subscriber be silent after its beat at \<open>t0\<close> while others
  register, beat and leave, with scans no more than \<open>p\<close> ms apart. While no scan is later than
  \<open>t0\<close> + 2000 ms it stays tracked and its callback is not called; later than \<open>t0\<close> + 2000 + \<open>p\<close> ms it
  is no longer tracked, and its callback has been called exactly once with its ids.\<close>

theorem dead_subscriber_reported_once:
  assumes "mon_step\<^sup>*\<^sup>* m' m" "Monitor_Init t m0 = (Ok (), m')" "mon_wf m0"
    and "FindIndex sid eid m = Some i" "le_onDead (dm_entries m ! i) = Some c"
    and "t0 = le_lastBeatMs (dm_entries m ! i)"
    and "(timed_step p (mon_others (sid, eid)) mon_scan)\<^sup>*\<^sup>* \<lparr>td_state = (m, []), td_now = n, td_scan = sc\<rparr> s"
    and "sc \<le> n" "unat n \<le> unat sc + p" "unat sc \<le> unat t0 + 2000"
  shows "(unat (td_scan s) \<le> unat t0 + 2000 \<longrightarrow>
      FindIndex sid eid (fst (td_state s)) \<noteq> None \<and> calls_of (sid, eid) (snd (td_state s)) = []) \<and>
    (unat t0 + 2000 + p < unat (td_now s) \<longrightarrow>
      FindIndex sid eid (fst (td_state s)) = None \<and> calls_of (sid, eid) (snd (td_state s)) = [c])"
proof -
  let ?k = "(sid, eid)" and ?s0 = "\<lparr>td_state = (m, []), td_now = n, td_scan = sc\<rparr>"
  have inv: "mon_inv m" "dm_initialised m" by (rule mon_inv_reachable [OF assms(1-3)] mon_reachable_initialised [OF assms(1-3)])+
  then have sub: "silent_sub ?k c t0 (td_state ?s0)" "\<not> evicted ?k c (td_state ?s0)"
    using entries_of_index [OF inv(1) assms(4)] assms(5,6)
    by (simp_all add: silent_sub_def evicted_def calls_of_def)
  have wf: "mon_wf (fst (td_state s))" if "silent_sub ?k c t0 (td_state s)"
    using that by (simp add: silent_sub_def mon_inv_def)
  have early: "FindIndex sid eid (fst (td_state s)) \<noteq> None \<and> calls_of ?k (snd (td_state s)) = []"
    if "unat (td_scan s) \<le> unat t0 + 2000"
  proof -
    have "silent_subscriber.not_early ?k c t0 ?s0"
      using sub assms(8) by (simp add: silent_subscriber.not_early_def)
    note e = silent_subscriber.not_found_early [OF assms(7) this that]
    then show ?thesis
      using entries_of_found [OF wf [OF e(2)], of sid eid] by (auto simp: silent_sub_def evicted_def)
  qed
  have late: "FindIndex sid eid (fst (td_state s)) = None \<and> calls_of ?k (snd (td_state s)) = [c]"
    if "unat t0 + 2000 + p < unat (td_now s)"
  proof -
    note f = silent_subscriber.found_in_time [OF assms(7) sub(1)]
    then have "evicted ?k c (td_state s)" "silent_sub ?k c t0 (td_state s)"
      using assms(9,10) that by simp_all
    then show ?thesis
      using entries_of_found [OF wf, of sid eid] by (simp add: evicted_def)
  qed
  from early late show ?thesis by blast
qed

theorem dead_subscriber_reported_once_witness:
  "\<exists>s. (timed_step kMonitorPeriodMs (mon_others (0x0100, 0x8001)) mon_scan)\<^sup>*\<^sup>*
       \<lparr>td_state = (sample_mon, []), td_now = 1000, td_scan = 1000\<rparr> s \<and>
     td_now s = 4000 \<and> calls_of (0x0100, 0x8001) (snd (td_state s)) = [7]"
proof -
  let ?s = "\<lparr>td_state = (sample_mon, []), td_now = 1000, td_scan = 1000\<rparr>"
  obtain s where s: "(timed_step kMonitorPeriodMs (mon_others (0x0100, 0x8001)) mon_scan)\<^sup>*\<^sup>* ?s s" "td_now s = 4000"
    using timed_ticks [of mon_scan ?s kMonitorPeriodMs 15, OF mon_scan_possible] by auto
  have "FindIndex 0x0100 0x8001 sample_mon = Some 0" "le_onDead (dm_entries sample_mon ! 0) = Some 7"
    "1000 = le_lastBeatMs (dm_entries sample_mon ! 0)"
    by (simp_all add: FindIndex_def first_index_Some_iff sample_mon_entries fresh_entry_def)
  note dead_subscriber_reported_once [OF sample_mon_reachable sample_mon0_facts(1,2) this s(1)]
  then have "calls_of (0x0100, 0x8001) (snd (td_state s)) = [7]" using s(2) by simp
  then show ?thesis using s by blast
qed

text \<open>In every reachable state of a monitor no two tracked subscribers share their ids, every
  tracked subscriber has a callback, and none is dead: the statistics always report
  \<open>totalDead\<close> as 0 and the total as the sum of the alive and the warned ones.\<close>

theorem monitor_never_shows_dead:
  assumes "mon_step\<^sup>*\<^sup>* m' s" "Monitor_Init now m = (Ok (), m')" "mon_wf m"
  shows "(\<forall>i<32. \<forall>j<32. le_active (dm_entries s ! i) \<and> le_active (dm_entries s ! j) \<and>
      entry_key (dm_entries s ! i) = entry_key (dm_entries s ! j) \<longrightarrow> i = j) \<and>
    (\<forall>e \<in> set (dm_entries s). le_active e \<longrightarrow> le_onDead e \<noteq> None) \<and>
    ms_totalDead (Monitor_GetStats s) = 0 \<and>
    ms_totalActive (Monitor_GetStats s)
      = ms_totalAlive (Monitor_GetStats s) + ms_totalWarning (Monitor_GetStats s)"
proof -
  note inv = mon_inv_reachable [OF assms]
  then have wf: "mon_wf s" by (simp add: mon_inv_def)
  have none: "filter (\<lambda>e. le_active e \<and> le_health e = kDead) (dm_entries s) = []"
    using inv by (auto simp: mon_inv_def filter_empty_conv)
  have split: "length (filter le_active es) = length (filter (\<lambda>e. le_active e \<and> le_health e = kAlive) es)
      + length (filter (\<lambda>e. le_active e \<and> le_health e = kWarning) es)"
    if "\<forall>e \<in> set es. le_active e \<longrightarrow> le_health e \<noteq> kDead" for es :: "'a LivenessEntry list"
    using that by (induction es) (auto, metis SubscriberHealth.exhaust)
  have "length (filter le_active (dm_entries s)) =
      length (filter (\<lambda>e. le_active e \<and> le_health e = kAlive) (dm_entries s))
      + length (filter (\<lambda>e. le_active e \<and> le_health e = kWarning) (dm_entries s))"
    using inv by (intro split) (simp add: mon_inv_def)
  then have "ms_totalDead (Monitor_GetStats s) = 0 \<and> ms_totalActive (Monitor_GetStats s)
      = ms_totalAlive (Monitor_GetStats s) + ms_totalWarning (Monitor_GetStats s)"
    by (simp add: Monitor_GetStats_eq [OF wf] active_with_def none)
  moreover have "i = j" if "i < 32" "j < 32" "le_active (dm_entries s ! i)" "le_active (dm_entries s ! j)"
      "entry_key (dm_entries s ! i) = entry_key (dm_entries s ! j)" for i j
  proof -
    have "entries.holds s i (entry_key (dm_entries s ! i))" "entries.holds s j (entry_key (dm_entries s ! i))"
      using that by (simp_all add: entries.holds_def)
    then show ?thesis using inv unfolding mon_inv_def entries.unique_holders_def by blast
  qed
  ultimately show ?thesis using inv by (simp add: mon_inv_def)
qed

theorem monitor_never_shows_dead_witness: "ms_totalDead (Monitor_GetStats sample_mon) = 0"
  using monitor_never_shows_dead [OF sample_mon_reachable sample_mon0_facts(1,2)] by simp

text \<open>C38: a registration beside a scan. A slot is active before its fields are written, so a scan can
  find in it the last heartbeat of its previous owner. If that is more than 2000 ms old, the
  slot is still active after both calls exactly for the schedules that are not exposed: in the
  exposed ones the scan loads the flag after the claim and the heartbeat before it is stored, and
  the registration has returned \<open>Ok\<close> for a subscriber that is not monitored. In all others the entry
  is the one registered and no callback was made; and if the slot was in use within the last
  2000 ms, every schedule keeps the registration.\<close>

theorem registration_race:
  assumes "set xs \<subseteq> {0, 1}" "\<not> le_active (mo_entry s)" "unat now \<le> unat t + 500"
    and "run_schedule (monitor_access sid eid cb t now) xs ([CTry, RActive], s) = ([CRun [], RRun []], s')"
  shows "(if unat now \<le> unat (le_lastBeatMs (mo_entry s)) + 2000 then le_active (mo_entry s')
     else (le_active (mo_entry s') \<longleftrightarrow> \<not> exposed 3 xs) \<and>
       (exposed 3 xs \<or> s' = s\<lparr>mo_entry := (mo_entry s)\<lparr>le_active := True, le_serviceId := sid,
          le_eventId := eid, le_onDead := cb, le_lastBeatMs := t, le_health := kAlive\<rparr>\<rparr>))"
proof (cases "unat now \<le> unat (le_lastBeatMs (mo_entry s)) + 2000")
  case True
  have "entry_race.sparing (scan_accesses now t)" by (rule age_cases(2)) (use assms(3) in simp)
  then have "mo_active s'"
    using entry_race.spared_outcome [of s now t sid eid cb xs s'] age_cases(2) [of now "mo_stamp s"] assms(2,4) True
    by (simp add: monitor_access_def mo_active_def mo_stamp_def)
  then show ?thesis using True by (simp add: mo_active_def)
next
  case False
  then have acts: "scan_accesses now (mo_stamp s) = evict_accesses"
    by (intro age_cases(3)) (simp add: mo_stamp_def)
  have reap: "entry_race.reaping (scan_accesses now (mo_stamp s))" by (simp only: acts evict_reaps)
  have act: "\<not> mo_active s" using assms(2) by (simp add: mo_active_def)
  note entry_race.outcome [OF assms(1) act reap age_cases(1) [OF assms(3)] assms(4) [unfolded monitor_access_def]]
  then show ?thesis using False by (auto simp: mo_active_def register_stores_def cas_entry_def on_entry_def)
qed

theorem registration_race_witness:
  "\<not> le_active (mo_entry (snd (run_schedule (monitor_access 5 6 (Some 7) 9000 9000)
     (replicate 4 0 @ replicate 12 1 @ [0, 0]) ([CTry, RActive], stale_slot)))) \<and>
   mo_calls (snd (run_schedule (monitor_access 5 6 (Some 7) 9000 9000)
     (replicate 4 0 @ replicate 12 1 @ [0, 0]) ([CTry, RActive], stale_slot))) = [(7, 5, 6)]"
proof -
  have "exposed 3 (replicate 4 0 @ replicate 12 1 @ [0, 0])"
    by (simp add: exposed_def replicate_numeral)
  moreover note registration_race [OF _ _ _ dead_at_birth]
  ultimately show ?thesis
    unfolding dead_at_birth by (simp add: stale_slot_def LivenessEntry_default_def)
qed

text \<open>C39: a heartbeat beside a scan, for a subscriber that has been silent for more than 2000 ms. The
  scan decides by the heartbeat it loads: the subscriber is kept, with its new heartbeat, exactly
  for the schedules in which that is stored (the fourth access of the call) before the scan loads
  it (its second). In all others the subscriber is evicted and its callback called once with its
  ids, although the heartbeat call may have found the entry and returned \<open>Ok\<close>.\<close>

theorem heartbeat_beside_scan:
  assumes "le_active (mo_entry s)" "entry_key (mo_entry s) = (sid, eid)"
    and "unat (le_lastBeatMs (mo_entry s)) + 2000 < unat now" "unat now \<le> unat t + 500"
    and "set (ys @ zs) \<subseteq> {0, 1}" "count_list ys 1 = Suc 0"
    and "beat_run sid eid now (ys @ 1 # zs) ([BtActive (heartbeat_stores t), BtScan RActive], s)
      = ([BtDone ok, BtScan (RRun [])], s')"
  shows "(if 4 \<le> count_list ys 0
     then ok \<and> s' = s\<lparr>mo_entry := (mo_entry s)\<lparr>le_lastBeatMs := t, le_health := kAlive\<rparr>\<rparr>
     else \<not> le_active (mo_entry s') \<and> mo_evicted s' = mo_evicted s + 1 \<and>
       mo_calls s' = mo_calls s @ (case le_onDead (mo_entry s) of None \<Rightarrow> [] | Some c \<Rightarrow> [(c, sid, eid)]))"
  using heartbeat_race [OF assms] assms(2)
  by (auto simp: evicting_def entry_key_def Let_def not_le split: option.split)

theorem heartbeat_beside_scan_witness:
  "\<exists>s'. beat_run 5 6 9000 (replicate 3 0 @ [1] @ 1 # replicate 2 0 @ replicate 10 1)
     ([BtActive (heartbeat_stores 9000), BtScan RActive], silent_slot) = ([BtDone True, BtScan (RRun [])], s') \<and>
   \<not> le_active (mo_entry s') \<and> mo_calls s' = [(7, 5, 6)]"
  using heartbeat_beside_scan [of silent_slot 5 6 9000 9000 "replicate 3 0 @ [1]" "replicate 2 0 @ replicate 10 1" True]
    heartbeat_too_late
  by (simp add: silent_slot_def entry_key_def replicate_numeral)

section \<open>Deadlines\<close>

text \<open>A deadline check reports the first profile, in order of registration, whose topic is
  active and late, and counts one violation for it; it reports \<open>Ok\<close> exactly when there is none.
  The other late topics are not counted, so a topic that stays late hides all later ones.\<close>

theorem deadline_check_first:
  assumes "dds_wf q" "dq_initialised q"
  shows "(let late = (\<lambda>i. qp_deadlineMs (dq_profiles q ! i) \<noteq> kDeadlineInfiniteMs \<and>
        unat (dl_lastSampleMs (dq_deadlines q ! i)) + unat (qp_deadlineMs (dq_profiles q ! i)) < unat now);
      n = unat (dq_profileCount q); (r, topic, q') = CheckDeadlines now out q
    in if \<forall>i<n. \<not> late i then r = Ok () \<and> topic = kInvalidTopicId \<and> q' = q
       else \<exists>i<n. late i \<and> (\<forall>j<i. \<not> late j) \<and> r = Err kTimeout \<and>
         topic = qp_topicId (dq_profiles q ! i) \<and> dq_profiles q' = dq_profiles q \<and>
         (\<forall>j<16. dl_violationCount (dq_deadlines q' ! j) =
            dl_violationCount (dq_deadlines q ! j) + (if j = i then 1 else 0) \<and>
            dl_lastSampleMs (dq_deadlines q' ! j) = dl_lastSampleMs (dq_deadlines q ! j)))"
proof -
  let ?n = "unat (dq_profileCount q)"
  let ?late = "\<lambda>i. deadline_missed now (dq_profiles q ! i) (dq_deadlines q ! i)"
  have n: "?n \<le> 16" "length (dq_deadlines q) = 16" using assms(1) by (simp_all add: dds_wf_def)
  have late: "?late i \<longleftrightarrow> qp_deadlineMs (dq_profiles q ! i) \<noteq> kDeadlineInfiniteMs \<and>
      unat (dl_lastSampleMs (dq_deadlines q ! i)) + unat (qp_deadlineMs (dq_profiles q ! i)) < unat now"
    if "i < ?n" for i
    using dds_row(1) [OF assms(1), of i] that n(1) by (simp add: deadline_missed_iff)
  show ?thesis
  proof (cases "first_index ?late ?n")
    case None
    then have "\<forall>i<?n. \<not> ?late i" by (simp add: first_index_None_iff)
    then show ?thesis
      using late by (auto simp: CheckDeadlines_def assms(2) Let_def None)
  next
    case (Some i)
    then have i: "i < ?n" "?late i" "\<forall>j<i. \<not> ?late j" by (simp_all add: first_index_Some_iff)
    then have late_i: "\<not> (\<forall>i<?n. \<not> ?late i)" by blast
    show ?thesis
      using i late n late_i
      by (auto simp: CheckDeadlines_def assms(2) Let_def Some nth_list_update intro!: exI [of _ i])
  qed
qed

definition sample_dds :: DdsQosEnforcer where
  "sample_dds = snd (RegisterProfile (DdsQosProfile_default\<lparr>qp_topicId := 3, qp_deadlineMs := 10\<rparr>) 1000
     (snd (Dds_Init 1000 DdsQosEnforcer_new)))"

lemma sample_dds_facts: "dds_wf sample_dds" "dq_initialised sample_dds"
proof -
  show "dds_wf sample_dds"
    unfolding sample_dds_def by (intro dds_wf_Register dds_wf_Init dds_wf_new)
  show "dq_initialised sample_dds"
    by (simp add: sample_dds_def RegisterProfile_def Dds_Init_def DdsQosEnforcer_new_def Let_def)
qed

lemma sample_dds_row:
  "dq_profileCount sample_dds = 1" "qp_topicId (dq_profiles sample_dds ! 0) = 3"
  "qp_deadlineMs (dq_profiles sample_dds ! 0) = 10" "dl_lastSampleMs (dq_deadlines sample_dds ! 0) = 1000"
  by (simp_all add: sample_dds_def RegisterProfile_def Dds_Init_def DdsQosEnforcer_new_def
      FindProfileIndex_def Let_def)

theorem deadline_check_first_witness:
  "fst (CheckDeadlines 1011 0 sample_dds) = Err kTimeout \<and> fst (snd (CheckDeadlines 1011 0 sample_dds)) = 3"
  using deadline_check_first [OF sample_dds_facts, of 1011 0]
  by (simp add: sample_dds_row Let_def split_beta)

text \<open>C37: a silent topic whose deadline runs out. While \<open>CheckDeadlines\<close> is called at most \<open>period\<close> ms
  apart and other topics are sampled and registered at any time, it is not reported before its
  deadline and, if no topic registered before it has a deadline, reported at most \<open>period\<close> after
  it. But if a topic registered before it is late and stays silent, it is never reported however
  long it is silent, and its violation count stays as it was.\<close>

theorem late_topic_reported_or_hidden:
  assumes "dds_inv q" "FindProfileIndex topic q = Some i"
    and "qp_deadlineMs (dq_profiles q ! i) \<noteq> kDeadlineInfiniteMs"
    and "limit = unat (dl_lastSampleMs (dq_deadlines q ! i)) + unat (qp_deadlineMs (dq_profiles q ! i))"
    and "topic \<in> K"
    and "(timed_step period (dds_others K) dds_scan)\<^sup>*\<^sup>* \<lparr>td_state = (q, []), td_now = now, td_scan = sc\<rparr> s"
    and "sc \<le> now" "unat now \<le> unat sc + period"
  shows "(unat sc \<le> limit \<and> (\<forall>j<i. qp_deadlineMs (dq_profiles q ! j) = kDeadlineInfiniteMs) \<longrightarrow>
      (unat (td_scan s) \<le> limit \<longrightarrow> topic \<notin> set (snd (td_state s))) \<and>
      (limit + period < unat (td_now s) \<longrightarrow> topic \<in> set (snd (td_state s)))) \<and>
    (\<forall>j<i. qp_topicId (dq_profiles q ! j) \<in> K \<and> qp_deadlineMs (dq_profiles q ! j) \<noteq> kDeadlineInfiniteMs \<and>
        unat (dl_lastSampleMs (dq_deadlines q ! j)) + unat (qp_deadlineMs (dq_profiles q ! j)) < unat now \<longrightarrow>
      topic \<notin> set (snd (td_state s)) \<and>
      GetViolationCount topic (fst (td_state s)) = GetViolationCount topic q)"
proof -
  have i: "i < unat (dq_profileCount q)" "qp_topicId (dq_profiles q ! i) = topic"
    using assms(1) by (intro FindProfileIndex_SomeD [OF _ assms(2)]; simp add: dds_inv_def)+
  have "insert topic K = K" using assms(5) by blast
  note early_late = reported_in_time [OF assms(1) i(1) assms(3), where K = K, unfolded i(2) this,
      OF assms(6-8) _ assms(4)]
  show ?thesis
    using early_late hidden_behind [OF assms(1) i(1) _ _ _ assms(6), unfolded i(2)]
    by (simp add: row_late_def)
qed

text \<open>Two topics, both silent since 1000: the first is reported, the second never.\<close>

definition sample_pair :: DdsQosEnforcer where
  "sample_pair = snd (RegisterProfile (DdsQosProfile_default\<lparr>qp_topicId := 4, qp_deadlineMs := 20\<rparr>) 1000 sample_dds)"

lemma sample_pair_inv: "dds_inv sample_pair"
proof -
  have "dds_inv (snd (Dds_Init 1000 DdsQosEnforcer_new))"
    by (rule dds_inv_Init [OF dds_wf_new, of 1000])
      (simp add: Dds_Init_def DdsQosEnforcer_new_def)
  then show ?thesis unfolding sample_pair_def sample_dds_def by (intro dds_inv_Register)
qed

lemma sample_pair_rows:
  "qp_topicId (dq_profiles sample_pair ! 0) = 3" "qp_topicId (dq_profiles sample_pair ! Suc 0) = 4"
  "qp_deadlineMs (dq_profiles sample_pair ! 0) = 10" "qp_deadlineMs (dq_profiles sample_pair ! Suc 0) = 20"
  "dl_lastSampleMs (dq_deadlines sample_pair ! 0) = 1000" "dq_profileCount sample_pair = 2"
  by (simp_all add: sample_pair_def sample_dds_def RegisterProfile_def Dds_Init_def DdsQosEnforcer_new_def
      FindProfileIndex_def first_index_Suc Let_def)

lemma sample_pair_found: "FindProfileIndex 3 sample_pair = Some 0" "FindProfileIndex 4 sample_pair = Some (Suc 0)"
  using dds_inv_found(1) [OF sample_pair_inv, of 0] dds_inv_found(1) [OF sample_pair_inv, of "Suc 0"]
  by (simp_all add: sample_pair_rows)

theorem late_topic_reported_or_hidden_witness:
  "\<exists>s s'. (timed_step 5 (dds_others {3, 4}) dds_scan)\<^sup>*\<^sup>*
       \<lparr>td_state = (sample_pair, []), td_now = 1000, td_scan = 1000\<rparr> s \<and> td_now s = 2000 \<and> 3 \<in> set (snd (td_state s)) \<and>
     (timed_step 5 (dds_others {3, 4}) dds_scan)\<^sup>*\<^sup>*
       \<lparr>td_state = (sample_pair, []), td_now = 1011, td_scan = 1011\<rparr> s' \<and> td_now s' = 2011 \<and> 4 \<notin> set (snd (td_state s'))"
proof -
  let ?s = "\<lambda>t. \<lparr>td_state = (sample_pair, []), td_now = t, td_scan = t\<rparr>"
  obtain s where s: "(timed_step 5 (dds_others {3, 4}) dds_scan)\<^sup>*\<^sup>* (?s 1000) s" "td_now s = 2000"
    using timed_ticks [of dds_scan "?s 1000" 5 200, OF dds_scan_possible] by auto
  moreover obtain s' where s': "(timed_step 5 (dds_others {3, 4}) dds_scan)\<^sup>*\<^sup>* (?s 1011) s'" "td_now s' = 2011"
    using timed_ticks [of dds_scan "?s 1011" 5 200, OF dds_scan_possible] by auto
  moreover have "3 \<in> set (snd (td_state s))"
    using late_topic_reported_or_hidden [OF sample_pair_inv sample_pair_found(1) _ refl _ s(1)] s(2)
    by (simp add: sample_pair_rows)
  moreover have "4 \<notin> set (snd (td_state s'))"
    using late_topic_reported_or_hidden [OF sample_pair_inv sample_pair_found(2) _ refl _ s'(1)]
    by (auto simp: sample_pair_rows)
  ultimately show ?thesis by blast
qed

end
