(* ===== verification/TestSuites.thy ===== *)
theory TestSuites
  imports SafetyRun RateBound ServiceManager IpcChannel Iam DdsQos DeadSub
begin

text \<open>
  The test suites of the repository, \<open>tests/test_soa_gateway.cpp\<close> and \<open>tests/test_safety_arbitrator.cpp\<close>,
  replayed on the model: the helpers and fixtures are definitions, and what a test expects is
  a lemma evaluated in the kernel. Where a test fills a table, the lemma is the general
  capacity fact of the table's locale, for any distinct keys and not only the test's.
\<close>

section \<open>Helpers of the service tests\<close>

text \<open>\<open>strncpy\<close> of a literal into a zeroed array, one byte left for the terminator.\<close>

definition name_array :: "u8 list \<Rightarrow> string \<Rightarrow> u8 list" where
  "name_array dst name = memcpy dst (map of_char name) (min (length name) (length dst - 1))"

definition MakeDesc :: "u16 \<Rightarrow> u16 \<Rightarrow> string \<Rightarrow> ServiceDescriptor" where
  "MakeDesc svcId instId name =
     ServiceDescriptor_default\<lparr>sd_serviceId := svcId, sd_instanceId := instId,
       sd_majorVersion := 1, sd_minorVersion := 0,
       sd_name := name_array (sd_name ServiceDescriptor_default) name\<rparr>"

definition MakeEvent :: "u16 \<Rightarrow> u16 \<Rightarrow> u8 \<Rightarrow> SoaEvent" where
  "MakeEvent svcId evtId len =
     SoaEvent_default\<lparr>ev_serviceId := svcId, ev_eventId := evtId, ev_sessionId := 0xDEADBEEF,
       ev_payloadLen := len,
       ev_payload := fold (\<lambda>i p. p[i := word_of_nat (i + 1)]) [0..<unat len] (ev_payload SoaEvent_default)\<rparr>"

lemma fold_update_length [simp]: "length (fold (\<lambda>i p. p[i := f i]) is xs) = length xs"
  by (induction "is" arbitrary: xs) simp_all

lemma MakeEvent_fields [simp]:
  "event_wf (MakeEvent svc evt len)" "ev_payloadLen (MakeEvent svc evt len) = len"
  "ev_serviceId (MakeEvent svc evt len) = svc" "ev_eventId (MakeEvent svc evt len) = evt"
  by (simp_all add: MakeEvent_def event_wf_def SoaEvent_default_def)

text \<open>The state after an operation, and \<open>TestHandler\<close>, which counts its calls and keeps the last event id.\<close>

definition after :: "('s \<Rightarrow> 'r \<times> 's) \<Rightarrow> 's \<Rightarrow> 's" where
  "after f s = snd (f s)"

definition TestHandler :: "nat \<Rightarrow> SoaEvent \<Rightarrow> nat SoaServiceManager \<times> u8 \<times> u16 \<Rightarrow>
    nat SoaServiceManager \<times> u8 \<times> u16" where
  "TestHandler h ev s = (case s of (m, count, lastId) \<Rightarrow> (m, count + 1, ev_eventId ev))"

section \<open>\<open>SoaServiceManagerTest\<close>\<close>

definition mgr_fixture :: "nat SoaServiceManager" where
  "mgr_fixture = after SoaServiceManager_Init SoaServiceManager_new"

lemma mgr_fixture_facts:
  "mgr_wf mgr_fixture" "sm_initialised mgr_fixture" "services mgr_fixture = []" "pending_events mgr_fixture = []"
  using mgr_wf_Init [OF mgr_wf_new, where ?'a = nat]
  by (simp_all add: mgr_fixture_def after_def SoaServiceManager_Init_def SoaServiceManager_new_def
      services_def pending_events_def ring_list_def)

lemma test_RegisterDuplicateServiceFails:
  "fst (call_all (replicate 2 (RegisterService (MakeDesc 0x0101 1 ''SteeringService''))) mgr_fixture) = [Ok (), Err kAlreadyRegistered]"
  by code_simp

text \<open>\<open>RegisterUpToMaxServices\<close> and \<open>RegisterBeyondMaxFails\<close>, for any 32 distinct services.\<close>

lemma test_RegisterBeyondMaxFails:
  assumes "distinct (map service_key ds)" "length ds = 32" "service_key d \<notin> service_key ` set ds"
  shows "fst (call_all (map RegisterService (ds @ [d])) mgr_fixture) = replicate 32 (Ok ()) @ [Err kRegistryFull]"
proof -
  let ?m = "snd (call_all (map RegisterService ds) mgr_fixture)"
  have f: "fst (call_all (map RegisterService ds) mgr_fixture) = replicate (length ds) (Ok ()) \<and>
      services ?m = services mgr_fixture @ map (\<lambda>d. d\<lparr>sd_state := kDown\<rparr>) ds \<and> mgr_wf ?m \<and> sm_initialised ?m"
    using assms(1,2) by (intro open_services.fill) (simp_all add: mgr_fixture_facts)
  moreover have "service_key ` set (services ?m) = service_key ` set ds"
    using f by (simp add: mgr_fixture_facts image_image service_key_def)
  ultimately have "fst (RegisterService d ?m) = Err kRegistryFull"
    using assms(2,3) by (simp add: RegisterService_cases mgr_fixture_facts)
  then show ?thesis using f assms(2) by (simp add: call_all_append)
qed

lemma test_OfferAndStopServiceLifecycle:
  "map (\<lambda>ops. sd_state (hd (services (snd (call_all (RegisterService (MakeDesc 0x0101 1 ''BrakeService'') # ops) mgr_fixture)))))
     [[OfferService 0x0101 1], [OfferService 0x0101 1, StopService 0x0101 1, StopService 0x0101 1]]
   = [kAvailable, kDown]"
  by code_simp

lemma test_OfferNonExistentServiceFails: "fst (OfferService 0xAAAA 1 mgr_fixture) = Err kServiceNotFound"
  by code_simp

lemma test_SubscribeAndDispatch:
  "map_option snd (ProcessEvents TestHandler
     (snd (call_all [Subscribe 0x0101 0x0010 (Some 1), PublishEvent (MakeEvent 0x0101 0x0010 4)] mgr_fixture), 0, 0))
   = Some (1, 0x0010)"
  by code_simp

lemma test_EventWithNoMatchingSubscriberIsIgnored:
  "map_option snd (ProcessEvents TestHandler
     (snd (call_all [Subscribe 0x0101 0x0010 (Some 1), PublishEvent (MakeEvent 0x0202 0x0020 2)] mgr_fixture), 0, 0))
   = Some (0, 0)"
  by code_simp

text \<open>\<open>QueueFillAndOverflow\<close>, for any 64 events.\<close>

lemma test_QueueFillAndOverflow:
  "length evs = 63 \<Longrightarrow>
   fst (call_all (map PublishEvent (evs @ [ev])) mgr_fixture) = replicate 63 (Ok ()) @ [Err kQueueFull]"
  using mgr_queue.send_until_full [of mgr_fixture evs ev] by (simp add: mgr_fixture_facts)

section \<open>\<open>IamSecurityControllerTest\<close>\<close>

definition iam_fixture :: IamSecurityController where
  "iam_fixture = snd (call_all
     [Iam_Init,
      RegisterRole (Role_default\<lparr>role_roleId := 1, role_name := name_array (role_name Role_default) ''adas_controller''\<rparr>),
      AddPolicy (PolicyEntry_default\<lparr>pol_principalId := 0xADA50001, pol_serviceId := 0x0101,
        pol_methodId := 0xFFFF, pol_roleId := 1, pol_allowed := action_or kRead kExecute\<rparr>)]
     IamSecurityController_new)"

lemma test_Authorise:
  "map (\<lambda>(pr, sv, m, act). fst (Authorise pr sv m act 0 iam_fixture))
     [(0xADA50001, 0x0101, 0x0010, kRead), (0xADA50001, 0x0101, 0x0010, kAdmin),
      (0xDEAD, 0x0101, 0x0010, kRead), (0xADA50001, 0x9999, 0x0010, kRead)]
   = [Ok (), Err kUnauthorized, Err kUnauthorized, Err kUnauthorized]"
  by code_simp

lemma test_AuditLogRecordsGrantAndDeny:
  "(case DrainAuditLog (Some (replicate 8 AuditEntry_default)) 8
      (snd (call_all [Authorise 0xADA50001 0x0101 0x0010 kRead 0, Authorise 0xDEAD 0x0101 0x0010 kRead 0] iam_fixture))
    of (n, buf, c) \<Rightarrow> n = 2 \<and> map au_result (take 2 (the buf)) = [kGranted, kDenied])"
  by code_simp

lemma test_SpecificMethodIdMatch:
  "fst (call_all [AddPolicy (PolicyEntry_default\<lparr>pol_principalId := 0xADA50002, pol_serviceId := 0x0202,
        pol_methodId := 0x0030, pol_roleId := 1, pol_allowed := kWrite\<rparr>),
      Authorise 0xADA50002 0x0202 0x0030 kWrite 0, Authorise 0xADA50002 0x0202 0x0099 kWrite 0] iam_fixture)
   = [Ok (), Ok (), Err kUnauthorized]"
  by code_simp

section \<open>\<open>RateLimiterTest\<close>\<close>

definition rl_fixture :: RateLimiter where
  "rl_fixture = after (RateLimiter_Init 1000) RateLimiter_new"

lemma rl_fixture_open: "sources.open_to {} rl_fixture"
  using rl_wf_Init [OF rl_wf_new, of 1000]
  by (auto simp: sources.open_to_def rl_fixture_def after_def RateLimiter_Init_def RateLimiter_new_def
      buckets.unique_holders_def buckets.holds_def TokenBucket_default_def)

text \<open>\<open>BurstCapacityExhausted\<close>, \<open>DropCountAccumulates\<close> and \<open>RefillRestoresTokens\<close>.\<close>

lemma test_DropCountAccumulates:
  "(case call_all (replicate 22 (Admit 0xDDDD 1000 1000)) rl_fixture of (rs, rl) \<Rightarrow>
      rs = replicate 20 (Ok ()) @ [Err kQueueFull, Err kQueueFull] \<and>
      rs_dropCount (snd (RateLimiter_GetStats 0xDDDD rl)) = 2 \<and>
      rs_passCount (snd (RateLimiter_GetStats 0xDDDD rl)) = 20 \<and>
      fst (Admit 0xDDDD 1002 1002 (RefillAll 1002 rl)) = Ok ())"
  by code_simp

text \<open>\<open>TableFullDeniesNewSources\<close>, for any 32 distinct sources at any time.\<close>

lemma test_TableFullDeniesNewSources:
  assumes "distinct srcs" "length srcs = 32" "src \<notin> set srcs"
  shows "fst (call_all (map (\<lambda>s. Admit s t t) (srcs @ [src])) rl_fixture)
    = replicate 32 (Ok ()) @ [Err kRegistryFull]"
  using sources.serve_until_full [OF rl_fixture_open assms] .

lemma test_GetStatsReturnsFalseForUnknownSource: "\<not> fst (RateLimiter_GetStats 0xFFFF rl_fixture)"
  by code_simp

section \<open>\<open>DdsQosEnforcerTest\<close>\<close>

definition qos_fixture :: DdsQosEnforcer where
  "qos_fixture = snd (call_all
     [Dds_Init 1000,
      RegisterProfile (DdsQosProfile_default\<lparr>qp_topicId := 0xABCD, qp_reliability := kReliable,
        qp_deadlineMs := 50, qp_latencyBudgetMs := 1, qp_durability := kTransientLocal,
        qp_history := kKeepLast, qp_historyDepth := 4,
        qp_topicName := name_array (qp_topicName DdsQosProfile_default) ''LidarScan''\<rparr>) 1000]
     DdsQosEnforcer_new)"

lemma test_ValidateSample:
  "map (\<lambda>(topic, n). fst (ValidateSample topic n 1001 qos_fixture))
     [(0xABCD, 64), (0xABCD, 0), (0xABCD, 257), (0x9999, 64)]
   = [Ok (), Err kInvalidArgument, Err kInvalidArgument, Err kServiceNotFound]"
  by code_simp

lemma test_GetProfileReturnsRegistered:
  "map_option (\<lambda>i. qp_deadlineMs (dq_profiles qos_fixture ! i)) (FindProfileIndex 0xABCD qos_fixture) = Some 50"
  "GetProfile 0xABCD qos_fixture = Ok 0" "GetProfile 0x1111 qos_fixture = Err kServiceNotFound"
  by code_simp+

lemma test_CheckDeadlinesPassImmediately:
  "fst (CheckDeadlines 1001 kInvalidTopicId (after (ValidateSample 0xABCD 32 1001) qos_fixture)) = Ok ()"
  by code_simp

lemma test_DuplicateProfileFails:
  "fst (RegisterProfile (DdsQosProfile_default\<lparr>qp_topicId := 0xABCD\<rparr>) 1001 qos_fixture) = Err kAlreadyRegistered"
  by code_simp

section \<open>\<open>DeadSubscriberMonitorTest\<close>\<close>

definition mon_fixture :: "nat DeadSubscriberMonitor" where
  "mon_fixture = after (Monitor_Init 1000) DeadSubscriberMonitor_new"

text \<open>\<open>OnDeadCallback\<close> keeps the last pair and counts its calls.\<close>

definition OnDeadCallback :: "nat \<Rightarrow> u16 \<Rightarrow> u16 \<Rightarrow> nat DeadSubscriberMonitor \<times> u16 \<times> u16 \<times> u8 \<Rightarrow>
    nat DeadSubscriberMonitor \<times> u16 \<times> u16 \<times> u8" where
  "OnDeadCallback c svcId evtId s = (fst s, svcId, evtId, snd (snd (snd s)) + 1)"

lemma mon_fixture_open: "cb \<noteq> None \<Longrightarrow> subscribers.open_to cb {} mon_fixture"
  unfolding subscribers.open_to_def
  by (auto simp: mon_fixture_def after_def Monitor_Init_def DeadSubscriberMonitor_new_def
      mon_wf_def entries.unique_holders_def entries.holds_def LivenessEntry_default_def)

definition mon_registered :: "nat DeadSubscriberMonitor" where
  "mon_registered = snd (call_all
     [Register 0x0101 0x0010 (Some 1) 1000, Monitor_RecordHeartbeat 0x0101 0x0010 1001] mon_fixture)"

lemma test_RegisterAndHeartbeat:
  "ms_totalActive (Monitor_GetStats mon_registered) = 1"
  "ms_totalAlive (Monitor_GetStats mon_registered) = 1"
  by code_simp+

lemma test_ScanWithActiveSubDoesNotEvict:
  "(case ScanAndEvict OnDeadCallback 1002 (mon_registered, 0, 0, 0) of (n, m, _, _, deaths) \<Rightarrow> n = 0 \<and> deaths = 0)"
  by code_simp

lemma test_Refusals:
  "fst (call_all [Register 0x0101 0x0010 None 1000, Register 0x0101 0x0010 (Some 1) 1000,
      Register 0x0101 0x0010 (Some 1) 1000, Monitor_RecordHeartbeat 0xAAAA 0xBBBB 1000,
      Deregister 0x9999 0x9999, Deregister 0x0101 0x0010, Monitor_Init 1000] mon_fixture)
   = [Err kNullPointer, Ok (), Err kAlreadyRegistered, Err kServiceNotFound, Err kServiceNotFound, Ok (),
      Err kAlreadyRegistered]"
  by code_simp

text \<open>\<open>TableFullFails\<close>, for any 32 distinct subscribers.\<close>

lemma test_TableFullFails:
  assumes "cb \<noteq> None" "distinct ks" "length ks = 32" "k \<notin> set ks"
  shows "fst (call_all (map (\<lambda>k. Register (fst k) (snd k) cb t) (ks @ [k])) mon_fixture)
    = replicate 32 (Ok ()) @ [Err kRegistryFull]"
  using subscribers.serve_until_full [OF mon_fixture_open [OF assms(1)] assms(2-4)] .

section \<open>\<open>IpcBridgeTest\<close>\<close>

definition bridge_fixture :: IpcBridge where
  "bridge_fixture = after IpcBridge_Init (IpcBridge_new (Some
     \<lparr>rb_head = 0, rb_tail = 0, rb_magic = 0, rb_pad = 0, rb_slots = replicate 32 IpcSlot_zero\<rparr>))"

lemma bridge_fixture_eq:
  "bridge_fixture = \<lparr>br_ring = Some \<lparr>rb_head = 0, rb_tail = 0, rb_magic = kIpcMagic, rb_pad = 0,
     rb_slots = replicate 32 IpcSlot_zero\<rparr>, br_seqCounter = 0, br_initialised = True\<rparr>"
  by (simp add: bridge_fixture_def after_def Init_cases IpcBridge_new_def)

lemma bridge_fixture_facts:
  "bridge_wf bridge_fixture" "br_initialised bridge_fixture" "br_pending bridge_fixture = []"
  "br_seqCounter bridge_fixture = 0"
  by (simp_all add: bridge_fixture_eq bridge_wf_def ring_wf_def br_pending_def ring_pending_def ring_list_def)

lemma test_NullRingPtrFails: "fst (IpcBridge_Init (IpcBridge_new None)) = Err kNullPointer"
  by (simp add: Init_cases IpcBridge_new_def)

text \<open>\<open>SendSingleEvent\<close>, \<open>PayloadDataIntegrity\<close> and the \<open>VerifyE2e\<close> tests, for any event that fits.\<close>

lemma test_SendSingleEvent:
  assumes "unat len \<le> 128"
  shows "\<exists>r. br_ring (after (IpcBridge_Send (MakeEvent svc evt len)) bridge_fixture) = Some r \<and> rb_head r = 1 \<and>
    rb_slots r ! 0 = ipc_slot 0 (MakeEvent svc evt len) \<and>
    VerifyE2e (rb_slots r ! 0) 0 = Ok () \<and> VerifyE2e (rb_slots r ! 0) 99 = Err kSequenceError \<and>
    sl_serviceId (rb_slots r ! 0) = svc \<and> sl_eventId (rb_slots r ! 0) = evt \<and> sl_payloadLen (rb_slots r ! 0) = len"
  using assms by (simp add: after_def bridge_fixture_eq Send_eq u32_mask_next_def VerifyE2e_ipc_slot)

lemma test_PayloadDataIntegrity:
  "take 10 (sl_payload (ipc_slot 0 (MakeEvent 0x0101 0x0010 10))) = [1, 2, 3, 4, 5, 6, 7, 8, 9, 10]"
  unfolding ipc_slot_fields by code_simp

lemma test_VerifyE2eFailsOnCrcCorruption:
  assumes "unat len \<le> 128" "s = ipc_slot 0 (MakeEvent svc evt len)"
  shows "VerifyE2e (s\<lparr>sl_e2eHeader := (sl_e2eHeader s)\<lparr>e2e_crc := e2e_crc (sl_e2eHeader s) XOR 0xFFFF\<rparr>\<rparr>) 0
    = Err kChecksumMismatch"
proof -
  have "x XOR 0xFFFF \<noteq> x" for x :: u16
  proof
    assume "x XOR 0xFFFF = x"
    then have "x XOR (x XOR 0xFFFF) = 0" by simp
    then show False by (simp flip: xor.assoc)
  qed
  then show ?thesis
    using assms by (intro crc_field_detected) (simp_all add: slot_wf_ipc_slot VerifyE2e_ipc_slot del: ipc_slot_fields)
qed

lemma test_PayloadTooLargeFails: "fst (IpcBridge_Send (MakeEvent 0x0101 0 129) bridge_fixture) = Err kInvalidArgument"
  by (simp add: Send_result bridge_fixture_facts)

text \<open>\<open>RingBufferFull\<close>, for any 32 events that fit.\<close>

lemma test_RingBufferFull:
  assumes "length es = 31" "\<forall>e\<in>set (es @ [e]). event_wf e \<and> unat (ev_payloadLen e) \<le> 128"
  shows "fst (call_all (map IpcBridge_Send (es @ [e])) bridge_fixture) = replicate 31 (Ok ()) @ [Err kIpcBufferFull]"
  using ipc_bounded.send_until_full [of bridge_fixture es e] assms by (simp add: bridge_fixture_facts)

lemma test_E2eSequenceCounterIncrements:
  assumes "event_wf e" "unat (ev_payloadLen e) \<le> 128"
  shows "map (e2e_counter \<circ> sl_e2eHeader) (br_pending (snd (call_all [IpcBridge_Send e, IpcBridge_Send e] bridge_fixture)))
    = [0, 1]"
  using assms by (simp add: bridge_fixture_eq Send_eq u32_mask_next_def br_pending_def ring_pending_def ring_list_def
      upt_conv_Cons)

lemma test_Crc:
  "ComputeE2eCrc None 16 = 0"
  "ComputeE2eCrc (Some [1, 2, 3, 4]) 4 \<noteq> ComputeE2eCrc (Some [4, 3, 2, 1]) 4"
  by (simp_all add: ComputeE2eCrc_def crc_byte_serial crc_step8_def funpow_8 crc_bit_step_def)

section \<open>\<open>SafetyArbitratorTest\<close>\<close>

text \<open>
  The fixture makes LiDAR and radar mandatory. The clock stands at 1001 in every test, 1 ms after
  \<open>Init\<close>; the listener counts its calls and keeps the last command.
\<close>

definition arb_fixture :: "nat SafetyArbitrator" where
  "arb_fixture = after (SafetyArbitrator_Init (push_bit (unat kLidar) 1 OR push_bit (unat kRadar) 1) 1000)
     (SafetyArbitrator_new (Some bridge_fixture))"

definition TestListener :: "nat \<Rightarrow> SafeStateCommand \<Rightarrow> nat \<times> SafeStateCommand \<Rightarrow> nat \<times> SafeStateCommand" where
  "TestListener l cmd w = (fst w + 1, cmd)"

definition test_times :: cycle_times where
  "test_times = \<lparr>ct_scan = 1001, ct_start = 1001, ct_end = 1001, ct_log = 1001\<rparr>"

definition Fault :: "SensorDomain \<Rightarrow> SensorHealth \<Rightarrow> nat SafetyArbitrator \<Rightarrow> VoidResult \<times> nat SafetyArbitrator" where
  "Fault d h = InjectFault d h 0xDEAD 1001 1001"

text \<open>The arbitrator after the faults of a test.\<close>

definition faulted :: "(SensorDomain \<times> SensorHealth) list \<Rightarrow> nat SafetyArbitrator" where
  "faulted fs = snd (call_all (map (\<lambda>(d, h). Fault d h) fs) arb_fixture)"

definition ArbitrateAndGetState :: "nat SafetyArbitrator \<Rightarrow> SafeState" where
  "ArbitrateAndGetState a =
     GetCurrentState (fst (snd (Arbitrate (plain_listener TestListener) test_times (a, 0, SafeStateCommand_default))))"

lemma arb_fixture_facts [simp]:
  "arb_initialised arb_fixture" "arb_currentState arb_fixture = kFullOperation"
  "arb_ipc arb_fixture = Some bridge_fixture" "arb_mandatoryMask arb_fixture = 3"
  "arb_domains arb_fixture = map (init_domain 3 1000) [0..<8]" "arb_listenerCount arb_fixture = 0"
  "arb_listeners arb_fixture = replicate 8 None" "arb_sequenceNum arb_fixture = 0"
  "arb_transitionCount arb_fixture = 0" "arb_logHead arb_fixture = 0"
  "arb_transitionLog arb_fixture = replicate 32 SafeStateTransition_default"
  by (simp_all add: arb_fixture_def after_def SafetyArbitrator_new_def SafetyArbitrator_Init_def)

lemma arb_fixture_wf: "arb_wf arb_fixture"
  unfolding arb_fixture_def after_def
  by (intro arb_wf_Init arb_wf_new) (simp add: ipc_wf_def bridge_fixture_facts)

text \<open>The suites T1 (lifecycle) and T2 (the physical envelope, floats as their bit patterns).\<close>

lemma test_T1:
  "GetCurrentState arb_fixture = kFullOperation"
  "fst (SafetyArbitrator_Init 1 1001 arb_fixture) = Err kAlreadyRegistered"
  "fst (SafetyArbitrator_Init 0 1001 (SafetyArbitrator_new None :: nat SafetyArbitrator)) = Err kNullPointer"
  "fst (Arbitrate (plain_listener TestListener) test_times
     (SafetyArbitrator_new (Some bridge_fixture), 0, SafeStateCommand_default)) = Err kNotInitialized"
  by (simp_all add: GetCurrentState_def SafetyArbitrator_Init_def SafetyArbitrator_new_def Arbitrate_def)

lemma test_T2:
  "map ValidateSteeringAngle [0x00000000, 0x43870000, 0xC4070000, 0x44074000]
    = [Ok (), Ok (), Ok (), Err kInvalidArgument]"
  "map ValidateFrictionCoeff [0x3DCCCCCD, 0x3F59999A, 0x3F866666, 0x3D4CCCCD, 0x3F8CCCCD]
    = [Ok (), Ok (), Ok (), Err kInvalidArgument, Err kInvalidArgument]"
  "map ValidateDeceleration [0x00000000, 0x411CF5C3, 0x41280000, 0xC1280000]
    = [Ok (), Ok (), Err kInvalidArgument, Err kInvalidArgument]"
  "map ValidateLateralAccel [0x00000000, 0x41080000, 0x41100000] = [Ok (), Ok (), Err kInvalidArgument]"
  by (simp_all add: ValidateSteeringAngle_def ValidateFrictionCoeff_def ValidateDeceleration_def
      ValidateLateralAccel_def kMaxSteeringAngleDeg_def kMinFrictionCoeff_def kMaxFrictionCoeff_def
      kMaxLongitudinalDecelMps2_def kMaxLateralAccelMps2_def f32_zero_def f32_neg_def f32_gt_def f32_lt_def
      f32_is_nan_def f32_exp_def f32_man_def f32_val_def f32_mag_def f32_neg_sign_def Let_def)

lemma faulted_snoc: "faulted (fs @ [(d, h)]) = snd (Fault d h (faulted fs))"
  by (simp add: faulted_def call_all_append)

lemma faulted_core: "arb_wf (faulted fs) \<and> same_core arb_fixture (faulted fs) \<and>
    arb_mandatoryMask (faulted fs) = 3 \<and> arb_listenerCount (faulted fs) = 0 \<and>
    arb_listeners (faulted fs) = replicate 8 None \<and> arb_ipc (faulted fs) = Some bridge_fixture"
proof (induction fs rule: rev_induct)
  case Nil
  show ?case by (simp add: faulted_def arb_fixture_wf same_core_refl)
next
  case (snoc f fs)
  obtain d h where f: "f = (d, h)" by fastforce
  have "same_core arb_fixture (snd (Fault d h (faulted fs)))"
    using snoc same_core_ingest(2) [where a = "faulted fs" and d = d and h = h]
    by (simp add: same_core_def Fault_def)
  moreover have "arb_mandatoryMask (snd (Fault d h (faulted fs))) = 3"
    "arb_listenerCount (snd (Fault d h (faulted fs))) = 0"
    "arb_listeners (snd (Fault d h (faulted fs))) = replicate 8 None"
    "arb_ipc (snd (Fault d h (faulted fs))) = Some bridge_fixture"
    using snoc by (simp_all add: Fault_def InjectFault_def IngestFault_def Let_def update_domain_def)
  ultimately show ?case
    using snoc unfolding f faulted_snoc by (simp add: Fault_def ingest_wf)
qed

lemma ArbitrateAndGetState_eq: "ArbitrateAndGetState (faulted fs) = required_state 1001 (faulted fs)"
proof -
  have wf: "arb_wf (faulted fs)" and core: "same_core arb_fixture (faulted fs)" using faulted_core by auto
  have a: "arb_initialised (faulted fs)" "arb_currentState (faulted fs) \<noteq> kEmergencyStop"
    using core by (simp_all add: same_core_def)
  show ?thesis
    unfolding ArbitrateAndGetState_def GetCurrentState_def cycle_Arbitrate [OF wf] cycle_state [OF wf a]
    by (simp add: test_times_def)
qed

text \<open>The suites T4 and T5, and T14 with its four faults on a mandatory domain.\<close>

lemma faulted_escalation: "mandatory_escalation now (faulted fs) \<longleftrightarrow>
    (lost now (faulted fs) 0 \<or> lost now (faulted fs) 1) \<and>
    (3 \<le> unat (fault_ticks now (faulted fs) 0) \<or> 3 \<le> unat (fault_ticks now (faulted fs) 1))"
proof -
  have "bit (3 :: u8) i \<longleftrightarrow> i = 0 \<or> i = 1" for i
    by (cases i; cases "i - 1") (auto simp: bit_Suc bit_0)
  then show ?thesis using faulted_core [of fs] by (auto simp: mandatory_escalation_def)
qed

lemma faulted_rows:
  "arb_domains (faulted []) = map (init_domain 3 1000) [0..<8]"
  "d < 7 \<Longrightarrow> arb_domains (faulted (fs @ [(d, h)])) = (arb_domains (faulted fs))[unat d :=
     (let row = (arb_domains (faulted fs) ! unat d)\<lparr>dom_health := h, dom_dtcCode := 0xDEAD\<rparr>
      in if h = kNominal then row\<lparr>dom_faultCount := 0, dom_lastHeartbeat := 1001\<rparr>
         else row\<lparr>dom_faultCount := dom_faultCount row + 1\<rparr>)]"
proof -
  show "arb_domains (faulted []) = map (init_domain 3 1000) [0..<8]" by (simp add: faulted_def)
  have "arb_initialised (faulted fs)" using faulted_core [of fs] by (simp add: same_core_def)
  then show "d < 7 \<Longrightarrow> arb_domains (faulted (fs @ [(d, h)])) = (arb_domains (faulted fs))[unat d :=
     (let row = (arb_domains (faulted fs) ! unat d)\<lparr>dom_health := h, dom_dtcCode := 0xDEAD\<rparr>
      in if h = kNominal then row\<lparr>dom_faultCount := 0, dom_lastHeartbeat := 1001\<rparr>
         else row\<lparr>dom_faultCount := dom_faultCount row + 1\<rparr>)]"
    by (simp add: faulted_snoc Fault_def InjectFault_def IngestFault_def update_domain_def Let_def
        flip: not_less)
qed

lemmas faulted_steps = faulted_rows(2) [of _ "[]"] faulted_rows(2) [of _ "[a]" for a]
  faulted_rows(2) [of _ "[a, b]" for a b] faulted_rows(2) [of _ "[a, b, c]" for a b c]
  faulted_rows(2) [of _ "[a, b, c, d]" for a b c d]

lemmas faulted_eval = faulted_steps [simplified] faulted_rows(1) faulted_escalation
  lost_def timed_out_def fault_ticks_def degradation_matrix_def Let_def init_domain_def

lemmas arb_test = ArbitrateAndGetState_eq required_state_eq [OF conjunct1 [OF faulted_core]]

lemma test_T4:
  "ArbitrateAndGetState (faulted [(kLidar, kFailed)]) = kRadarCameraFallback"
  "ArbitrateAndGetState (faulted [(kRadar, kFailed)]) = kLidarCameraFallback"
  "ArbitrateAndGetState (faulted [(kCamera, kFailed)]) = kLidarRadarFallback"
  "ArbitrateAndGetState (faulted [(kGnss, kFailed)]) = kDeadReckoningMode"
  "ArbitrateAndGetState (faulted [(kImu, kFailed)]) = kReducedDynamics"
  unfolding arb_test by (simp_all add: faulted_eval)

lemma test_T5_T14:
  "ArbitrateAndGetState (faulted [(kLidar, kFailed), (kRadar, kFailed)]) = kMinimalRiskCondition"
  "ArbitrateAndGetState (faulted [(kLidar, kFailed), (kCamera, kFailed)]) = kRadarCameraFallback"
  "ArbitrateAndGetState (faulted [(kGnss, kFailed), (kImu, kFailed)]) = kReducedDynamics"
  "ArbitrateAndGetState (faulted [(kLidar, kFailed), (kLidar, kFailed), (kLidar, kFailed), (kLidar, kFailed)])
    = kMinimalRiskCondition"
  "ArbitrateAndGetState (faulted [(kUss, kFailed)]) = kFullOperation"
  unfolding arb_test by (simp_all add: faulted_eval)

text \<open>The suites T3, T8 and T9: what an event does to the health of its domain.\<close>

lemma test_T3_T9:
  "GetDomainHealth kLidar (faulted [(kLidar, kFailed)]) = kFailed"
  "GetDomainHealth kRadar (faulted [(kRadar, kDegraded)]) = kDegraded"
  "GetDomainHealth kGnss (faulted [(kGnss, kFailed), (kGnss, kNominal)]) = kNominal"
  "fst (Fault kInvalid kFailed arb_fixture) = Err kInvalidArgument"
  "fst (RecordHeartbeat kInvalid 1001 arb_fixture) = Err kInvalidArgument"
  by (simp_all add: GetDomainHealth_def faulted_eval Fault_def InjectFault_def IngestFault_def RecordHeartbeat_def)

text \<open>The global adaptor (T15) forwards an event (T8); without an instance it does nothing.\<close>

lemma test_T8_T15:
  assumes "ev_payloadLen ev = 12" "ev_payload ev = [kGnss, kFailed, 0, 0, 0x34, 0x12, 0, 0, 0xF4, 0x01, 0, 0] @ rest"
  shows "map_option (GetDomainHealth kGnss) (SoaArbitratorEventHandler ev 1001 (SetGlobalArbitrator (Some arb_fixture)))
      = Some kFailed"
    "SoaArbitratorEventHandler ev 1001 (SetGlobalArbitrator (None :: nat SafetyArbitrator option)) = None"
    "fst (IngestSoaEvent (ev\<lparr>ev_payloadLen := 4\<rparr>) 1001 arb_fixture) = Err kInvalidArgument"
  using assms
  by (simp_all add: SoaArbitratorEventHandler_def SetGlobalArbitrator_def IngestSoaEvent_def IngestFault_def
      decode_fault_def update_domain_def GetDomainHealth_def Let_def)

text \<open>
  The suites T10 to T13: one transition with a listener. The listener is called once with the
  command, which is also the last command; the counter, the masks and the newest log entry show
  the transition, and one slot is on the link.
\<close>

definition listening :: "nat SafetyArbitrator" where
  "listening = after (RegisterListener (Some 7)) (faulted [(kCamera, kFailed)])"

lemma listening_facts:
  "arb_wf listening" "arb_initialised listening" "arb_currentState listening = kFullOperation"
  "take (unat (arb_listenerCount listening)) (arb_listeners listening) = [Some 7]"
  "arb_sequenceNum listening = 0" "arb_transitionCount listening = 0"
  "arb_domains listening = arb_domains (faulted [(kCamera, kFailed)])"
  "arb_ipc listening = Some bridge_fixture" "arb_logHead listening = 0"
  "arb_transitionLog listening = replicate 32 SafeStateTransition_default"
  "required_state 1001 listening = kLidarRadarFallback"
proof -
  have f: "RegisterListener (Some 7) (faulted [(kCamera, kFailed)]) = (Ok (),
      (faulted [(kCamera, kFailed)])\<lparr>arb_listeners := (replicate 8 None)[0 := Some 7], arb_listenerCount := 1\<rparr>)"
    using faulted_core [of "[(kCamera, kFailed)]"] by (simp add: RegisterListener_def same_core_def)
  show wf: "arb_wf listening"
    using faulted_core unfolding listening_def after_def by (intro arb_wf_RegisterListener) blast
  show "arb_initialised listening" "arb_currentState listening = kFullOperation"
    "take (unat (arb_listenerCount listening)) (arb_listeners listening) = [Some 7]"
    "arb_sequenceNum listening = 0" "arb_transitionCount listening = 0"
    "arb_ipc listening = Some bridge_fixture" "arb_logHead listening = 0"
    "arb_transitionLog listening = replicate 32 SafeStateTransition_default"
    unfolding listening_def after_def f
    using faulted_core [of "[(kCamera, kFailed)]"] by (simp_all add: same_core_def take_Suc_conv_app_nth)
  show d: "arb_domains listening = arb_domains (faulted [(kCamera, kFailed)])"
    unfolding listening_def after_def f by simp
  have "arb_mandatoryMask listening = 3"
    unfolding listening_def after_def f using faulted_core [of "[(kCamera, kFailed)]"] by simp
  then have "mandatory_escalation 1001 listening \<longleftrightarrow> mandatory_escalation 1001 (faulted [(kCamera, kFailed)])"
    using faulted_core [of "[(kCamera, kFailed)]"]
    by (simp add: mandatory_escalation_def lost_def fault_ticks_def d)
  then show "required_state 1001 listening = kLidarRadarFallback"
    unfolding required_state_eq [OF wf] by (simp add: faulted_eval d)
qed

lemma test_T10_T13:
  assumes "Arbitrate (plain_listener TestListener) test_times (listening, 0, SafeStateCommand_default) = (r, a, n, cmd)"
  shows "r = Ok ()" "n = 1" "cmd_state cmd = kLidarRadarFallback" "cmd_maxSpeedKph cmd = kDegradedMaxSpeedKph"
    "cmd_magic cmd = kArbitratorMagic" "cmd_sequenceNum cmd = 1" "arb_lastCommand a = cmd"
    "GetTransitionCount a = 1" "bit (GetFaultBitmask a) (unat kCamera)"
    "\<exists>b sl. arb_ipc a = Some b \<and> br_pending b = [sl] \<and> VerifyE2e sl 0 = Ok ()"
    "map_option hd (snd (DrainTransitionLog (Some (replicate 4 SafeStateTransition_default)) 4 a))
     = Some \<lparr>tr_fromState = kFullOperation, tr_toState = kLidarRadarFallback, tr_triggerDomain = kCamera,
         tr_timestampMs = 1001, tr_transitionMs = 0, tr_sequenceNum = 1\<rparr>"
proof -
  let ?c = "cycle_start 1001 listening" and ?st = kLidarRadarFallback
  have len: "length (arb_domains listening) = 8" using listening_facts(1) by (simp add: arb_wf_def)
  note fr = cycle_start_frame [OF len, of 1001]
  have a: "r = transition_result test_times ?st ?c" "a = executed test_times ?st ?c"
    "n = 1" "cmd = final_command test_times ?st ?c"
    using assms by (simp_all add: Arbitrate_plain [OF listening_facts(1)] listening_facts test_times_def Let_def
        notify_all_def TestListener_def)
  have sent: "\<exists>b. SendCommandToM7 (build_command ?st (arb_sequenceNum ?c) ?c) ?c = (Ok (), ?c\<lparr>arb_ipc := Some b\<rparr>) \<and>
      br_pending b = br_pending bridge_fixture @
        [ipc_slot (br_seqCounter bridge_fixture) (command_event (build_command ?st (arb_sequenceNum ?c) ?c))] \<and>
      bridge_wf b"
    by (intro SendCommandToM7_sent arb_wf_cycle_start)
      (simp_all add: listening_facts fr bridge_fixture_facts)
  then show "r = Ok ()" by (auto simp: a transition_result_def latency_def test_times_def)
  show "n = 1" by (rule a(3))
  show "cmd_state cmd = ?st" "cmd_maxSpeedKph cmd = kDegradedMaxSpeedKph" "cmd_magic cmd = kArbitratorMagic"
    "cmd_sequenceNum cmd = 1" "arb_lastCommand a = cmd"
    by (simp_all add: a final_command_def build_command_def fr listening_facts)
  show "GetTransitionCount a = 1" by (simp add: a GetTransitionCount_def fr listening_facts)
  show "bit (GetFaultBitmask a) (unat kCamera)"
    using len by (simp add: a GetFaultBitmask_def cycle_start_def UpdateBitmasks_bits ScanTimeouts_eq listening_facts(7)
        faulted_eval scan_domain_eq)
  show "\<exists>b sl. arb_ipc a = Some b \<and> br_pending b = [sl] \<and> VerifyE2e sl 0 = Ok ()"
    using sent by (auto simp: a executed_def bridge_fixture_facts VerifyE2e_ipc_slot)
  show "map_option hd (snd (DrainTransitionLog (Some (replicate 4 SafeStateTransition_default)) 4 a))
     = Some \<lparr>tr_fromState = kFullOperation, tr_toState = kLidarRadarFallback, tr_triggerDomain = kCamera,
         tr_timestampMs = 1001, tr_transitionMs = 0, tr_sequenceNum = 1\<rparr>"
    (is "_ = Some ?entry")
  proof -
    have "bit (arb_faultBitmask ?c) i \<longleftrightarrow> i = unat kCamera" for i
      using len by (cases "i < 8"; cases "i = 2") (simp_all add: cycle_start_def UpdateBitmasks_bits ScanTimeouts_eq
          listening_facts(7) faulted_eval scan_domain_eq nth_list_update)
    then have "trigger_domain (arb_faultBitmask ?c) = kCamera"
      by (simp add: trigger_domain_def drop_bit_and_1 first_index_unique [where i = 2])
    then have entry: "log_entry test_times ?st ?c = ?entry"
      by (simp add: log_entry_def fr listening_facts test_times_def latency_def)
    have "arb_transitionLog a = (replicate 32 SafeStateTransition_default)[0 := ?entry]"
      "arb_logHead a = 1" "arb_transitionCount a = 1"
      by (simp_all add: a executed_def fr listening_facts entry u8_next_def)
    then show ?thesis
      by (simp add: DrainTransitionLog_def drain_index_def hd_conv_nth)
  qed
qed

end
