(* ===== verification/Spec2Isabelle.thy ===== *)
theory Spec2Isabelle
  imports GatewayView ManagerProps SecurityProps MonitorProps TestSuites
begin

text \<open>
  The AUTOSAR SOA gateway: a service manager on the application core (A53) routes sensor events
  to a safety arbitrator, which decides a degradation state and commands it to the safety core
  (M7) over an E2E-protected ring in shared memory. Around them stand access control, a rate
  limiter, a subscriber monitor, a DDS deadline enforcer and the driver of the hardware security
  engine. This development models the nine components of \<open>include/\<close> and \<open>src/\<close> and proves
  what each promises, and what they achieve together.

  How the code is represented. A class is a record of its members; a method is a function from
  arguments and state to its result and the new state, with the guards and early returns of the
  source in their order. \<open>Result<T>\<close> is the datatype \<open>Ok v | Err e\<close>. Integers have their width
  (\<open>u8\<close> to \<open>u64\<close>), arithmetic wraps; floats are binary32 patterns with the comparisons and the
  one product the code uses (Float32). Fixed arrays are lists of the declared length, and
  each component has a well-formedness predicate, kept by every operation, under which no index
  is out of range. Each call of \<open>GetMonotonicMs\<close> or \<open>GetMonotonicNs\<close> is an argument of the
  operation that makes it; the conversion from \<open>timespec\<close>, with 0 for a failed call, is in
  SoaTypes. An operation is one step of its component. For the operations that run beside
  others on shared state (\<open>docs/architecture.md\<close>, section 5) a second model takes the step apart into
  its single accesses and interleaves them; each is shown to have the effect of the one step
  when it runs alone. Callbacks are an address and an argument \<open>call\<close> that says what an address does to
  the component's state and to the rest of the world.

  The theories, in the order they build on each other:

  \<^item> Prelude: word, list and byte lemmas, \<open>memset\<close>/\<open>memcpy\<close>, little-endian bytes, the search
    loop \<open>first_index\<close>. Ring: the circular buffer, as the locale \<open>ring_index\<close> of an index
    type and its successor, interpreted for each of the four rings of the code. Registry: the
    append-only table with unique keys, interpreted for services, roles and QoS profiles.
    SlotTable: the table of reusable slots, interpreted for token buckets and liveness entries.
    Channel: the queue that appends what it accepts, interpreted for the event queue and the link.
    The locales \<open>accepting_registry\<close>, \<open>serving_table\<close> and \<open>bounded_channel\<close> extend the three by what
    they must accept, so that each holds exactly its capacity.
  \<^item> SoaTypes, ServiceManager, ServiceLife (\<open>SoaServiceManager\<close>): registry, subscriptions, event
    queue and dispatch. \<open>ProcessEvents\<close> is a partial function, since a handler may keep it
    running; \<open>mgr_step\<close> is one operation or one dequeue, and \<open>mgr_inv\<close> holds in every
    reachable state, also when handlers call back into the manager.
  \<^item> Crc, IpcBridge, IpcChannel (\<open>IpcBridge\<close>): the CRC table and loop, the byte image of a slot,
    the E2E header, the producer of the ring. The consumer is not in the sources; it is the
    step that takes the oldest slot by advancing \<open>tail\<close>. \<open>ipc_step\<close> interleaves both.
    SramLink lets the other core act between any two accesses of a \<open>Send\<close> and passes the
    stores through a buffer that may reorder them up to the fences of the code; \<open>sram_sim\<close>
    relates it to \<open>ipc_step\<close>, by the locale \<open>forward_simulation\<close> of Simulation.
    The locale \<open>event_channel\<close> of Channel is the sender's contract the arbitrator relies on.
  \<^item> Float32, SafetyTypes, SafetyMatrix, SafetyTransition (\<open>SafetyArbitrator\<close>): ingestion, timeout
    scan, bitmasks, degradation matrix; command, transmission, transition log, listeners,
    \<open>Arbitrate\<close>. SafetyFacts gives each operation's effect, with \<open>degradation_matrix\<close> as the
    abstract decision table; SafetyRun has the runs (\<open>safety_step\<close>) and their invariant
    \<open>run_inv\<close> over the ghost history of transitions; SafetyRows has the locale \<open>row_invariant\<close> of
    invariants of one domain row, interpreted for the typing of health bytes and for losses by
    silence; SafetyAudit draws consequences.
  \<^item> Periodic: runs with a clock and a periodic scan (\<open>timed_step\<close>; that the scan is on time is an
    assumption on the runs) and the locales \<open>periodic_scan\<close> and \<open>exact_scan\<close> that bound when a
    condition is found, interpreted by SafetyTiming for the arbitrator's 10 ms cycle and a silent
    sensor, by MonitorTiming for the liveness scan and a silent subscriber, and by DdsTiming for
    the deadline check and a silent topic.
  \<^item> Gateway composes manager, arbitrator and link: \<open>gateway_step\<close> has the operations of the receive
    thread and of the safety loop, with \<open>ProcessEvents\<close> calling the arbitrator's handler, and the other
    core taking slots; \<open>gateway_inv\<close> joins the invariants of the parts, and by the interpretation
    \<open>gateway_sim\<close> every run of the gateway is a run of \<open>safety_step\<close>. GatewayView has what the other
    core knows: the commands it decoded and, when nothing was lost, the arbitrator's state.
  \<^item> EventThreads (\<open>PublishEvent\<close> on the receive thread, \<open>ProcessEvents\<close> on the safety loop), DomainRace
    (\<open>IngestFault\<close>, \<open>RecordHeartbeat\<close> and the timeout scan on one row), LogRace (\<open>LogTransition\<close> in the
    loop, \<open>DrainTransitionLog\<close> in the diagnostic task), TokenRace (\<open>Admit\<close> calls and the
    refill task on one bucket, with weak compare-exchange), AuditRace (two \<open>Authorise\<close> calls on the
    audit ring), AuditDrain (\<open>Authorise\<close> on one thread, \<open>DrainAuditLog\<close> in the diagnostic task), CommandRace (\<open>GetLastCommand\<close> beside \<open>ExecuteTransition\<close>), CommitIndex (the locale
    \<open>commit_table\<close> of tables whose counter is raised last, interpreted for services and
    subscriptions), ClaimRace and MonitorRace (the locale \<open>claim_race\<close> of a slot that is claimed beside
    a scan, interpreted for \<open>Register\<close> beside \<open>ScanAndEvict\<close> and for \<open>FindOrAllocate\<close> beside \<open>EvictIdle\<close>), BeatRace
    (\<open>RecordHeartbeat\<close> and \<open>Deregister\<close> beside \<open>ScanAndEvict\<close>):
    the access-level models, most of them over the schedules of Interleave.
  \<^item> Iam (\<open>IamSecurityController\<close>), RateLimiter and RateBound (\<open>RateLimiter\<close>), DeadSub
    (\<open>DeadSubscriberMonitor\<close>), DdsQos (\<open>DdsQosEnforcer\<close>), Hse (\<open>HseAdapter\<close>), NetAdapter (the
    byte-order helpers of \<open>NetworkAdapter\<close>).
  \<^item> TestSuites: the helpers and fixtures of \<open>tests/\<close>, and what the unit tests expect as lemmas on
    the model; the tests that fill a table or a queue are instances of its capacity lemma.
  \<^item> SafetyProps, LinkProps, ManagerProps, SecurityProps, MonitorProps and this theory: the properties, each
    with the concrete state it is witnessed on.

  What the properties show. Together: what the other core reads is the history of the arbitrator's
  transitions, and after each round of the loop the state it holds is the one the lost sensors
  call for, as long as the ring is never full; a failed clock stops every supervision of silence.
  Arbitrator: each cycle puts the arbitrator in the state of the degradation matrix and sets the
  fault mask exactly; a transition reaches the link as one verifiable slot that decodes to the
  command; a silent sensor is found within 110 ms; the transitions form a numbered chain and the
  log drains newest first, but for its last record beside a transition; a complete failure report
  stands against every concurrent call; inputs are decoded and checked exactly. Link: delivery in
  order under every interleaving of single stores, thanks to the fence before \<open>head\<close>;
  the end of every call; the branches of \<open>Send\<close>; which corruptions the CRC detects.
  Manager: its invariant, the service life cycle, complete delivery, and the event queue between
  its two threads. Around them: the access decision and its audit trail, also while it is drained,
  the rate bound, also under concurrency, and the isolation of sources, when exactly a request to
  the engine succeeds, the exact effect of a liveness scan, that a dead subscriber is reported
  once, when a registration or a heartbeat survives a scan, and when a late topic is reported. The
  tables of the manager are read complete while they grow.

  Several results state behaviour that the comments of the code describe otherwise: a lost
  LiDAR masks more severe losses (\<open>lidar_loss_masks\<close> of SafetyFacts); the emergency stop is never entered; a command that could not
  be sent is not sent again and the transition time sent is always 0; silence alone never
  triggers the mandatory escalation; the eighth domain row is faulted for good; the envelope
  checks accept NaN; a request for several actions is granted on any one of them; the audit ring
  empties when it overflows, and a drain beside that can copy a record that is being overwritten; the MAC to verify is not part of the request; a handler that
  republishes its event keeps \<open>ProcessEvents\<close> from returning; a heartbeat that overlaps a failure
  report hides it; a heartbeat that overlaps a scan may not save its subscriber; of two concurrent decisions one audit record is lost; a
  subscriber registered beside a scan can be dropped at once, and its entry in the manager is never
  removed; a copy of the last command can mix two commands (\<open>command_can_be_torn\<close> of CommandRace);
  a deadline that stays missed hides the topics registered later; a drain beside the first transition can
  return a transition to the emergency stop that was never made; health bytes are stored
  unchecked; the CRC is not CRC-16/ARC
  (the lemmas \<open>arc_check_value\<close> and \<open>ComputeE2eCrc_check_value\<close> of Crc).

  Bounds. No fuel is used: loops over tables are folds or searches over the table's indices, the
  audit drain recurses on the buffer size, \<open>notify_listeners\<close> terminates because its 8-bit
  bound does, and only \<open>ProcessEvents\<close> is partial. The 547 steps of \<open>send_always_ends\<close> are two for each
  of the at most 268 stores of a slot and 11 for the loads, tests and fences around them. Properties about counters state where a
  32-bit counter must not wrap.

  Not modelled: interleavings of accesses in the remaining operations (two concurrent
  registrations, \<open>OfferService\<close> and \<open>StopService\<close>, the tables of access control and QoS),
  which are single steps here, as are the operations within \<open>gateway_step\<close>; memory orders weaker than program order outside SramLink: the other
  access-level models interleave accesses in program order, which the absence of data races
  and the acquire and release orders of the code justify for EventThreads; the order in which
  the other core reads a slot, which is its own; the virtual interface of \<open>NetworkAdapter\<close>,
  which nothing in the sources implements; the unit tests without an expectation that can fail and
  their stubs; build files and documents.
\<close>

section \<open>Across the components\<close>

definition lidar_fault :: SensorFaultEvent where
  "lidar_fault = \<lparr>fe_domain = kLidar, fe_health = kFailed, fe_timestampMs = 1010, fe_faultCode = 0x11\<rparr>"

definition lidar_event :: SoaEvent where
  "lidar_event = SoaEvent_default\<lparr>ev_serviceId := 0x0100, ev_eventId := 0x8001, ev_payloadLen := 12,
     ev_payload := encode_fault lidar_fault @ replicate 244 0\<rparr>"

text \<open>The arbitrator after the handler has seen a LiDAR failure.\<close>

lemma lidar_fault_handled:
  assumes "arb_wf a" "arb_initialised a" "12 \<le> unat (ev_payloadLen ev)" "ev_payload ev = encode_fault e @ rest"
    and "fe_domain e = kLidar" "fe_health e = kFailed"
    and "\<forall>i \<in> {1..4}. \<not> lost t a i" "\<forall>i<8. unat (dom_faultCount (arb_domains a ! i)) < 2"
  obtains a2 where "SoaArbitratorEventHandler ev now (SetGlobalArbitrator (Some a)) = Some a2"
    "arb_wf a2" "arb_initialised a2" "arb_currentState a2 = arb_currentState a" "arb_ipc a2 = arb_ipc a"
    "lost t a2 0" "required_state t a2 = kRadarCameraFallback"
proof -
  define a2 where "a2 = snd (IngestSoaEvent ev now a)"
  have len: "length (arb_domains a) = 8" using assms(1) by (simp add: arb_wf_def)
  have a2: "a2 = update_domain 0 (\<lambda>d. d\<lparr>dom_health := kFailed, dom_dtcCode := fe_faultCode e,
      dom_faultCount := dom_faultCount d + 1\<rparr>) a"
    using assms(2-6)
    by (simp add: a2_def IngestSoaEvent_def decode_encode_fault IngestFault_def Let_def word_less_nat_alt
        update_domain_def)
  have row: "arb_domains a2 ! i = (if i = 0 then (arb_domains a ! 0)\<lparr>dom_health := kFailed,
      dom_dtcCode := fe_faultCode e, dom_faultCount := dom_faultCount (arb_domains a ! 0) + 1\<rparr>
      else arb_domains a ! i)" if "i < 8" for i
    using that len by (auto simp: a2 update_domain_nth)
  have wf2: "arb_wf a2" using assms(1) by (simp add: a2)
  have l0: "lost t a2 0" using row [of 0] by (simp add: lost_def)
  have lost: "\<not> lost t a2 i" if "i \<in> {1..4}" for i
    using row [of i] that assms(7) by (auto simp: lost_def)
  have "unat (fault_ticks t a2 i) < 3" if "i < 8" for i
    using row [OF that] assms(8) that
    by (auto simp: fault_ticks_def Let_def unat_word_ariths intro: le_less_trans [OF mod_less_eq_dividend])
  then have "\<not> mandatory_escalation t a2"
    by (auto simp: mandatory_escalation_def dest: leD)
  then have "required_state t a2 = kRadarCameraFallback"
    using l0 lost [of 1] by (simp add: required_state_eq [OF wf2] degradation_matrix_def)
  then show thesis
    using that [of a2] wf2 l0 assms(2) by (simp add: SoaArbitratorEventHandler_def SetGlobalArbitrator_def a2_def [symmetric])
      (simp add: a2)
qed

text \<open>C1: end to end: a LiDAR failure that a sensor service publishes reaches the arbitrator's
  handler through the event queue; the next arbitration cycle puts one slot on the link,
  which passes the E2E check and which the other core decodes as a command to
  \<open>kRadarCameraFallback\<close>, capped at 100 kph, with the LiDAR bit set in its fault mask. (The
  other sensors are healthy and no domain has counted two faults yet.)\<close>

theorem lidar_failure_end_to_end:
  assumes "mgr_wf m" "sm_initialised m" "pending_events m = []"
    and "subscriptions m = [\<lparr>sub_serviceId = ev_serviceId ev, sub_eventId = ev_eventId ev, sub_handler = Some h\<rparr>]"
    and "12 \<le> unat (ev_payloadLen ev)" "ev_payload ev = encode_fault e @ rest"
    and "fe_domain e = kLidar" "fe_health e = kFailed"
    and "arb_wf a" "arb_initialised a" "arb_currentState a = kFullOperation"
    and "arb_ipc a = Some b" "br_initialised b" "length (br_pending b) < 31"
    and "\<forall>i \<in> {1..4}. \<not> lost (ct_scan ct) a i" "\<forall>i<8. unat (dom_faultCount (arb_domains a ! i)) < 2"
  shows "\<exists>m2 a2 b' sl cmd.
    ProcessEvents (plain_call (\<lambda>h ev. SoaArbitratorEventHandler ev now))
      (snd (PublishEvent ev m), SetGlobalArbitrator (Some a)) = Some (m2, Some a2) \<and>
    pending_events m2 = [] \<and>
    arb_ipc (fst (snd (Arbitrate (plain_listener eff) ct (a2, w)))) = Some b' \<and>
    br_pending b' = br_pending b @ [sl] \<and> VerifyE2e sl (br_seqCounter b) = Ok () \<and>
    decode_command (sl_payload sl) = Some cmd \<and> cmd_state cmd = kRadarCameraFallback \<and>
    cmd_maxSpeedKph cmd = f32_100 \<and> bit (cmd_faultBitmask cmd) 0"
proof -
  let ?m = "snd (PublishEvent ev m)" and ?g = "SetGlobalArbitrator (Some a)"
  have pub: "PublishEvent ev m = (Ok (), ?m)"
    using assms(2,3) by (simp add: PublishEvent_cases [OF assms(1)])
  note p = PublishEvent_Ok [OF assms(1) pub]
  have init: "sm_initialised ?m" by (simp add: api_frames assms(2))
  obtain a2 where a2: "SoaArbitratorEventHandler ev now ?g = Some a2"
    "arb_wf a2" "arb_initialised a2" "arb_currentState a2 = arb_currentState a" "arb_ipc a2 = arb_ipc a"
    "lost (ct_scan ct) a2 0" "required_state (ct_scan ct) a2 = kRadarCameraFallback"
    using lidar_fault_handled [OF assms(9,10,5-8,15,16)] by blast
  let ?m2 = "?m\<lparr>sm_queueTail := sm_queueHead ?m\<rparr>"
  have "ProcessEvents (plain_call (\<lambda>h ev. SoaArbitratorEventHandler ev now)) (?m, ?g) = Some (?m2, Some a2)"
    by (simp add: ProcessEvents_plain [OF p(2) init] p(3,5) assms(3,4) deliver_def a2(1))
  moreover have "pending_events ?m2 = []"
    using p(2) pending_empty_iff [of ?m2] by (simp add: mgr_wf_def)
  moreover note cycle_command [OF a2(2,3), of ct b]
  ultimately show ?thesis
    using a2 assms(11-14) cycle_state [OF a2(2,3), of ct] cycle_fault_mask(1) [OF a2(2,3), of ct 0]
    by (auto simp: cycle_Arbitrate [OF a2(2)])
qed

theorem lidar_failure_end_to_end_witness:
  "\<exists>m2 a2 b' sl cmd.
    ProcessEvents (plain_call (\<lambda>h ev. SoaArbitratorEventHandler ev 1010))
      (snd (PublishEvent lidar_event sample_mgr), SetGlobalArbitrator (Some (sample_arb sample_bridge)))
      = Some (m2, Some a2) \<and>
    arb_ipc (fst (snd (Arbitrate (plain_listener (\<lambda>l c w. w)) (sample_times 1020) (a2, ())))) = Some b' \<and>
    br_pending b' = [sl] \<and> decode_command (sl_payload sl) = Some cmd \<and>
    cmd_state cmd = kRadarCameraFallback"
  using lidar_failure_end_to_end [of sample_mgr lidar_event 7 lidar_fault "replicate 244 0"
      "sample_arb sample_bridge" sample_bridge "sample_times 1020" 1010 "\<lambda>l c w. w" "()"]
  by (fastforce simp: sample_mgr_facts sample_bridge_facts sample_arb_wf sample_lost lidar_event_def
      lidar_fault_def)

section \<open>When the clock fails\<close>

text \<open>A scan at the reading 0, which stands for a failed call, finds no row out of date.\<close>

lemma scan_without_clock: "scan_domain 0 d = d"
  by (simp add: scan_domain_eq timed_out_def)

lemma clock_lost_step:
  assumes "others_run k s s' \<or> cycle_run (GetMonotonicMs None) s s'" "run_inv s" "k < 8"
  shows "run_inv s' \<and> arb_domains (sr_arb s') ! k = arb_domains (sr_arb s) ! k"
  using assms(1)
proof
  assume "others_run k s s'"
  then obtain a where a: "others_step k (sr_arb s) a" "s' = s\<lparr>sr_arb := a\<rparr>"
    by (auto simp: others_run_def)
  note f = others_frame [OF a(1) run_inv_wf [OF assms(2)]]
  show ?thesis
    using run_inv_same_core [OF assms(2) f(1,2)] f(3) by (simp add: a(2) row_frame_def)
next
  assume "cycle_run (GetMonotonicMs None) s s'"
  then obtain ct where ct: "ct_scan ct = 0"
    "s' = s\<lparr>sr_arb := cycle ct (sr_arb s), sr_hist := sr_hist s @ hist_step ct (sr_arb s)\<rparr>"
    by (auto simp: cycle_run_def)
  have "arb_wf (sr_arb s)" "arb_initialised (sr_arb s)" using assms(2) by (simp_all add: run_inv_def Let_def)
  then show ?thesis
    using run_inv_cycle [OF assms(2), of ct] assms(3)
    by (simp add: ct domains_cycle scan_without_clock arb_wf_def)
qed

lemma clock_lost_run:
  assumes "(\<lambda>s s'. others_run k s s' \<or> cycle_run (GetMonotonicMs None) s s')\<^sup>*\<^sup>* s0 s" "run_inv s0" "k < 8"
  shows "run_inv s \<and> arb_domains (sr_arb s) ! k = arb_domains (sr_arb s0) ! k"
  using assms(1)
proof (induction rule: rtranclp_induct)
  case (step s s')
  then show ?case using clock_lost_step [OF step.hyps(2) _ assms(3)] by simp
qed (simp add: assms(2))

lemma evict_without_clock: "scan_slot call 0 i acc = acc"
  by (cases "le_lastBeatMs (dm_entries (fst (fst acc)) ! i) = 0")
    (auto simp: scan_slot_def Let_def word_gt_0 split: prod.split)

lemma evict_fold_without_clock: "fold (scan_slot call 0) is acc = acc"
  by (induction "is") (simp_all add: evict_without_clock)

lemma deadline_without_clock: "\<not> deadline_missed 0 p d"
  by (cases "dl_lastSampleMs d = 0") (simp_all add: deadline_missed_def)

text \<open>C12: every supervision of silence rests on \<open>clock_gettime\<close>, whose failure is read as time 0. From
  then on no silence is found: in any run from a reachable state in which the cycles see the failed
  clock, the row of a domain that no call names stays as it was, however long that lasts, and if it
  had not failed no cycle sets its fault bit; a liveness scan evicts no subscriber, no deadline is
  ever missed once a sample has a time stamp, and no token is refilled, so the rate limiter alone
  fails on the safe side. Once the clock works again, the opposite error: a heartbeat recorded in
  the meantime carries time 0, so the next cycle takes its sensor for lost.\<close>

theorem clock_failure_hides_silence:
  assumes "safety_step\<^sup>*\<^sup>* (run_start a') s0" "SafetyArbitrator_Init mand t0 a = (Ok (), a')" "arb_wf a"
    and "(\<lambda>s s'. others_run k s s' \<or> cycle_run (GetMonotonicMs None) s s')\<^sup>*\<^sup>* s0 s" "k < 8"
    and "ct_scan ct = GetMonotonicMs None"
  shows "arb_domains (sr_arb s) ! k = arb_domains (sr_arb s0) ! k \<and>
    (failed (sr_arb s0) k \<or> \<not> bit (arb_faultBitmask (cycle ct (sr_arb s))) k) \<and>
    ScanAndEvict call (Monitor_GetMonotonicMs None) m = (0, m) \<and>
    fst (CheckDeadlines (Dds_GetMonotonicMs None) topic q) \<noteq> Err kTimeout \<and>
    RefillAll (Rate_GetMonotonicMs None) rl = rl \<and>
    (\<forall>d now. d < kNumSensorDomains \<longrightarrow> 100 < unat now \<longrightarrow>
      lost now (snd (RecordHeartbeat d (GetMonotonicMs None) (sr_arb s))) (unat d))"
proof -
  have run: "run_inv s" "arb_domains (sr_arb s) ! k = arb_domains (sr_arb s0) ! k"
    using clock_lost_run [OF assms(4) run_inv_reachable [OF assms(1-3)] assms(5)] by simp_all
  then have a: "arb_wf (sr_arb s)" "arb_initialised (sr_arb s)" by (simp_all add: run_inv_def Let_def)
  have "bit (arb_faultBitmask (cycle ct (sr_arb s))) k \<longleftrightarrow> failed (sr_arb s0) k"
    using cycle_fault_mask(1) [OF a, of ct k] assms(5,6) run(2)
    by (simp add: lost_def timed_out_def failed_def)
  moreover have "ScanAndEvict call 0 m = (0, m)"
    by (cases m) (simp add: ScanAndEvict_def evict_fold_without_clock)
  moreover have "first_index (\<lambda>i. False) n = None" for n
    by (simp add: first_index_None_iff)
  then have "fst (CheckDeadlines 0 topic q) \<noteq> Err kTimeout"
    by (auto simp: CheckDeadlines_def deadline_without_clock)
  moreover have "(if tb_active b then RefillBucket 0 b else b) = b" for b by (simp add: RefillBucket_def)
  then have "RefillAll 0 rl = rl" by (simp add: RefillAll_def)
  moreover have "lost now (snd (RecordHeartbeat d 0 (sr_arb s))) (unat d)"
    if "d < kNumSensorDomains" "100 < unat now" for d now
  proof -
    have "unat d < 8" using that(1) by (simp add: word_less_nat_alt)
    then show ?thesis
      using that a by (simp add: RecordHeartbeat_def update_domain_def lost_def timed_out_def arb_wf_def Let_def
          flip: not_less)
  qed
  ultimately show ?thesis using run(2) by (simp add: Monitor_clock Dds_clock Rate_clock)
qed

theorem clock_failure_hides_silence_witness:
  "\<not> bit (arb_faultBitmask (cycle (sample_times 0) (sr_arb (run_start (sample_arb sample_bridge))))) 2 \<and>
   ScanAndEvict (\<lambda>(c :: nat) sid eid s. s) 0 (DeadSubscriberMonitor_new, ()) = (0, DeadSubscriberMonitor_new, ())"
  using clock_failure_hides_silence [OF rtranclp.rtrancl_refl sample_init sample_new_wf [OF sample_bridge_facts(1)]
      rtranclp.rtrancl_refl, where k = 2 and ct = "sample_times 0"
      and call = "\<lambda>(c :: nat) sid eid s. s" and m = "(DeadSubscriberMonitor_new, ())"]
  by (simp add: failed_def run_start_def Monitor_clock)

section \<open>The gateway in operation\<close>

text \<open>C2: what the safety core reads is the history of the arbitrator. In every run of the gateway
  from start-up (events published and dispatched, faults, heartbeats, registrations, cycles, and
  the other core taking slots, in any order), slot \<open>i\<close> that it took passes the E2E check with
  counter \<open>i mod 256\<close> and decodes to a command with the magic number and the caps of its state,
  and the (state, number) pairs it decoded are a subsequence of those of the executed
  transitions: no command is invented, altered, repeated or reordered, and a missing number is
  a command that the full link refused.\<close>

theorem safety_core_reads_history:
  assumes "(gateway_step h0)\<^sup>*\<^sup>* (gateway_boot r mand now) s"
  shows "\<exists>cmds. map (\<lambda>sl. decode_command (sl_payload sl)) (gw_taken s) = map Some cmds \<and>
    (\<forall>i < length (gw_taken s). VerifyE2e (gw_taken s ! i) (word_of_nat i) = Ok ()) \<and>
    list_all sane_command cmds \<and>
    subseq (map command_key cmds) (map transition_key (gw_hist s)) \<and>
    (\<forall>j < length (gw_hist s). tr_sequenceNum (gw_hist s ! j) = word_of_nat (Suc j))"
proof -
  have inv: "gateway_inv s" by (rule gateway_reachable [OF assms])
  let ?cmds = "take (length (gw_taken s)) (gw_sent s)"
  have sent: "subseq (map command_key (gw_sent s)) (map transition_key (gw_hist s))"
    "list_all sane_command (gw_sent s)" "run_inv (arb_run s)"
    using inv by (simp_all add: gateway_inv_def)
  have "subseq (map command_key ?cmds) (map transition_key (gw_hist s))"
    using sent(1) subseq_order.trans [OF subseq_map [OF prefix_imp_subseq [OF take_is_prefix]]] by blast
  moreover have "list_all sane_command ?cmds"
    using sent(2) by (auto simp: list_all_iff dest: in_set_takeD)
  moreover have "VerifyE2e (gw_taken s ! i) (word_of_nat i) = Ok ()" if "i < length (gw_taken s)" for i
    unfolding taken_slots(2) [OF inv that] by (simp add: VerifyE2e_ipc_slot)
  ultimately show ?thesis
    using taken_decode [OF inv] sent(3) by (intro exI [of _ ?cmds]) (simp add: run_inv_def Let_def)
qed

lemma sample_boot:
  fixes s :: "(nat, nat) gateway"
  assumes "s = gateway_boot sample_ring 1 1000"
  shows "gw_arb s = sample_arb sample_bridge" "gw_hist s = []" "gw_taken s = []" "gw_sent s = []"
    "unread s = []"
proof -
  show a: "gw_arb s = sample_arb sample_bridge"
    by (simp add: assms gateway_boot_def Let_def sample_arb_def sample_new_def sample_bridge_def)
  show "unread s = []" by (simp add: unread_def a sample_bridge_facts)
qed (simp_all add: assms gateway_boot_def Let_def)

lemma sample_drained:
  fixes s :: "(nat, nat) gateway"
  assumes "s = cycled (sample_times 1200) (gateway_boot sample_ring 1 1000)"
  obtains t where "read_step\<^sup>*\<^sup>* s t" "unread t = []" "length (gw_hist t) = 1" "length (gw_taken t) = 1"
proof -
  let ?b = "gateway_boot sample_ring 1 1000 :: (nat, nat) gateway"
  note b = sample_boot [OF refl]
  have lost: "nothing_lost ?b" by (simp add: nothing_lost_def b)
  have inv: "gateway_inv s" "nothing_lost s"
    unfolding assms using gateway_step_inv [OF g_cycle gateway_inv_boot, THEN conjunct1]
    by (blast, intro nothing_lost_cycled [OF gateway_inv_boot lost]) (simp add: b)
  have "length (gw_hist s) = 1"
    using sample_required [OF sample_bridge_facts(1), of 1200] sample_arb_wf [OF sample_bridge_facts(1)]
    by (simp add: assms cycled_def b hist_step_eq)
  moreover obtain t where t: "read_step\<^sup>*\<^sup>* s t" "unread t = []" using read_drains [OF inv(1)] by blast
  moreover have "gateway_inv t" "nothing_lost t" using read_steps [OF t(1) inv] by simp_all
  moreover have "gw_hist t = gw_hist s" using t(1) by induction (auto dest: read_step_frame)
  ultimately show thesis
    using that [OF t] unread_sent [of t] by (auto simp: nothing_lost_def dest: map_eq_imp_length_eq)
qed

lemma read_steps_gateway: "read_step\<^sup>*\<^sup>* s t \<Longrightarrow> (gateway_step h0)\<^sup>*\<^sup>* s t"
  by (induction rule: rtranclp_induct) (auto intro: g_take rtranclp.rtrancl_into_rtrancl)

theorem safety_core_reads_history_witness:
  "\<exists>s :: (nat, nat) gateway. (gateway_step 7)\<^sup>*\<^sup>* (gateway_boot sample_ring 1 1000) s \<and> length (gw_taken s) = 1 \<and>
     (\<exists>cmd. decode_command (sl_payload (gw_taken s ! 0)) = Some cmd \<and>
       command_key cmd = transition_key (gw_hist s ! 0)) \<and> tr_sequenceNum (gw_hist s ! 0) = 1"
proof -
  obtain t :: "(nat, nat) gateway" where
    t: "read_step\<^sup>*\<^sup>* (cycled (sample_times 1200) (gateway_boot sample_ring 1 1000)) t" "unread t = []"
    "length (gw_hist t) = 1" "length (gw_taken t) = 1"
    by (rule sample_drained [OF refl])
  have run: "(gateway_step 7)\<^sup>*\<^sup>* (gateway_boot sample_ring 1 1000) t"
    by (rule converse_rtranclp_into_rtranclp [OF g_cycle read_steps_gateway [OF t(1)]])
  show ?thesis
    using safety_core_reads_history [OF run] run t(3,4)
    by (auto simp: length_Suc_conv map_eq_Cons_conv intro!: exI [of _ t] split: if_splits)
qed

text \<open>C3: the safety core follows the sensors. In every run in which no step met a full ring,
  one more round of the loop ends: \<open>ProcessEvents\<close> returns with an empty queue, and after the
  cycle the other core can read the link to its end; when it has, the state of the last command
  it read is the one the degradation matrix gives for the domains lost at that cycle.\<close>

theorem round_updates_safety_core:
  assumes "(prompt_step h0)\<^sup>*\<^sup>* (gateway_boot r mand now) s" "length (unread s) < 31"
  shows "\<exists>m a clk'. ProcessEvents (plain_call (gateway_handler h0))
      (gw_mgr s, SetGlobalArbitrator (Some (gw_arb s)), clk) = Some (m, Some a, clk') \<and> pending_events m = [] \<and>
    (\<exists>t. read_step\<^sup>*\<^sup>* (cycled ct (s\<lparr>gw_mgr := m, gw_arb := a\<rparr>)) t \<and> unread t = []) \<and>
    (\<forall>t. read_step\<^sup>*\<^sup>* (cycled ct (s\<lparr>gw_mgr := m, gw_arb := a\<rparr>)) t \<longrightarrow> unread t = [] \<longrightarrow>
       m7_state (gw_taken t) = Some (degradation_matrix (mandatory_escalation (ct_scan ct) a)
         (lost (ct_scan ct) a 0) (lost (ct_scan ct) a 1) (lost (ct_scan ct) a 2)
         (lost (ct_scan ct) a 3) (lost (ct_scan ct) a 4)))"
proof -
  have inv: "gateway_inv s" "nothing_lost s" using prompt_reachable [OF assms(1)] by simp_all
  obtain m a clk' where p: "ProcessEvents (plain_call (gateway_handler h0))
      (gw_mgr s, SetGlobalArbitrator (Some (gw_arb s)), clk) = Some (m, Some a, clk')"
    "pending_events m = []" "gateway_step h0 s (s\<lparr>gw_mgr := m, gw_arb := a\<rparr>)"
    "gateway_inv (s\<lparr>gw_mgr := m, gw_arb := a\<rparr>)" "unread (s\<lparr>gw_mgr := m, gw_arb := a\<rparr>) = unread s"
    by (rule process_returns [OF inv(1)])
  let ?s = "s\<lparr>gw_mgr := m, gw_arb := a\<rparr>"
  have "nothing_lost ?s" using inv(2) by (simp add: nothing_lost_def)
  then have c: "gateway_inv (cycled ct ?s)" "nothing_lost (cycled ct ?s)"
    using gateway_step_inv [OF g_cycle p(4)] nothing_lost_cycled [OF p(4)] assms(2) by (simp_all add: p(5))
  have a: "arb_wf a" "arb_initialised a" "arb_currentState a \<noteq> kEmergencyStop"
    using p(4) by (simp_all add: gateway_inv_def run_inv_def Let_def)
  have "m7_state (gw_taken t) = Some (required_state (ct_scan ct) a)"
    if "read_step\<^sup>*\<^sup>* (cycled ct ?s) t" "unread t = []" for t
    using read_steps [OF that(1) c] m7_state_all [of t] that(2) cycle_state [OF a] by (simp add: cycled_def)
  then show ?thesis
    using p(1,2) read_drains [OF c(1)] by (intro exI [of _ m] exI [of _ a] exI [of _ clk'])
      (simp add: required_state_eq [OF a(1)])
qed

theorem round_updates_safety_core_witness:
  "\<exists>t :: (nat, nat) gateway. read_step\<^sup>*\<^sup>* (cycled (sample_times 1200) (gateway_boot sample_ring 1 1000)) t \<and>
     unread t = [] \<and> m7_state (gw_taken t) = Some kMinimalRiskCondition"
proof -
  let ?s = "gateway_boot sample_ring 1 1000 :: (nat, nat) gateway" and ?clk = "\<lambda>n :: nat. 1200 :: u64"
  have inv: "gateway_inv ?s" by (rule gateway_inv_boot)
  then have m: "mgr_wf (gw_mgr ?s)" "sm_initialised (gw_mgr ?s)"
    by (simp_all add: gateway_inv_def mgr_inv_def)
  have q: "sm_queueTail (gw_mgr ?s) = sm_queueHead (gw_mgr ?s)"
    by (simp add: gateway_boot_def Let_def SoaServiceManager_Init_def SoaServiceManager_new_def)
  have same: "(gw_mgr ?s)\<lparr>sm_queueTail := sm_queueHead (gw_mgr ?s)\<rparr> = gw_mgr ?s"
    by (simp add: q [symmetric])
  have "ProcessEvents (plain_call (gateway_handler 7))
      (gw_mgr ?s, SetGlobalArbitrator (Some (gw_arb ?s)), ?clk) = Some (gw_mgr ?s, Some (gw_arb ?s), ?clk)"
    using m(1) q by (simp add: ProcessEvents_plain [OF m] same pending_empty_iff [THEN iffD2] SetGlobalArbitrator_def)
  moreover have "unread ?s = []" by (simp add: sample_boot [OF refl])
  moreover note round_updates_safety_core [of 7 sample_ring 1 1000 ?s ?clk "sample_times 1200"]
  moreover have "?s\<lparr>gw_mgr := gw_mgr ?s, gw_arb := gw_arb ?s\<rparr> = ?s" by simp
  ultimately obtain t :: "(nat, nat) gateway" where
    "read_step\<^sup>*\<^sup>* (cycled (sample_times 1200) ?s) t" "unread t = []"
    "m7_state (gw_taken t) = Some (degradation_matrix (mandatory_escalation 1200 (gw_arb ?s))
      (lost 1200 (gw_arb ?s) 0) (lost 1200 (gw_arb ?s) 1) (lost 1200 (gw_arb ?s) 2)
      (lost 1200 (gw_arb ?s) 3) (lost 1200 (gw_arb ?s) 4))"
    by auto
  then show ?thesis
    by (auto simp: sample_boot [OF refl] sample_lost degradation_matrix_def intro!: exI [of _ t])
qed

end
